(* ===== verification/Go_Prelude.thy ===== *)
theory Go_Prelude
  imports Complex_Main "HOL-Library.Word" "HOL-Library.AList" "HOL-Library.Multiset"
begin

text \<open>
  The parts of the Go language and of its standard library that the loggregator sources rely
  on, and the generic lemmas the component theories share.

  \<^item> Machine integers: unsigned Go integers are words of their width. Signed integers that
    are only copied and compared are \<open>int\<close>, with the conversions of the source
    (\<open>int32(x)\<close>) written out; signed counters that wrap are words read with \<open>sint\<close>.
  \<^item> A \<open>[]byte\<close> and a \<open>string\<close> are both HOL strings: a HOL \<open>char\<close> is one byte.
  \<^item> A Go map is an association list with distinct keys (\<open>wf_map\<close>). The order of the list
    is the order in which a \<open>range\<close> loop happens to visit the map, so a statement about all
    association lists is a statement about every iteration order.
  \<^item> A buffered channel is the list of the values it holds, in the order they were sent.
  \<^item> Drawing a random number is an argument: a statement about all arguments is a statement
    about every draw.
\<close>

named_theorems gomap_simps \<open>lookups and key sets of the map operations\<close>
named_theorems go_string_simps \<open>rewriting rules for the string functions\<close>

section \<open>Types\<close>

type_synonym uint8 = "8 word"
type_synonym uint16 = "16 word"
type_synonym uint32 = "32 word"
type_synonym uint64 = "64 word"
type_synonym bytes = string

type_synonym ('k, 'v) gomap = "('k \<times> 'v) list"

text \<open>The result of a Go function that returns a value and an error: \<open>Inl\<close> is the error.\<close>

type_synonym 'a result = "string + 'a"

section \<open>Maps\<close>

abbreviation wf_map :: "('k, 'v) gomap \<Rightarrow> bool" where
  "wf_map m \<equiv> distinct (map fst m)"

abbreviation mget :: "('k, 'v) gomap \<Rightarrow> 'k \<Rightarrow> 'v option" where
  "mget m k \<equiv> map_of m k"

abbreviation mput :: "'k \<Rightarrow> 'v \<Rightarrow> ('k, 'v) gomap \<Rightarrow> ('k, 'v) gomap" where
  "mput k v m \<equiv> AList.update k v m"

abbreviation mdel :: "'k \<Rightarrow> ('k, 'v) gomap \<Rightarrow> ('k, 'v) gomap" where
  "mdel k m \<equiv> AList.delete k m"

text \<open>Go's \<open>m[k]\<close> in a value context: the zero value where the key is missing.\<close>

definition mget_or :: "'v \<Rightarrow> ('k, 'v) gomap \<Rightarrow> 'k \<Rightarrow> 'v" where
  "mget_or d m k = (case mget m k of None \<Rightarrow> d | Some v \<Rightarrow> v)"

definition mvalues :: "('k, 'v) gomap \<Rightarrow> 'v list" where
  "mvalues m = map snd m"

text \<open>\<open>for k, v := range src { dst[k] = v }\<close>\<close>

definition mput_all :: "('k, 'v) gomap \<Rightarrow> ('k, 'v) gomap \<Rightarrow> ('k, 'v) gomap" where
  "mput_all src dst = fold (\<lambda>(k, v). AList.update k v) src dst"

section \<open>Channels\<close>

text \<open>
  The send case of a \<open>select\<close> with a \<open>default\<close>: \<open>None\<close> when the buffer is full and
  the default branch runs.
\<close>

definition try_send :: "nat \<Rightarrow> 'a \<Rightarrow> 'a list \<Rightarrow> 'a list option" where
  "try_send n x q = (if length q < n then Some (q @ [x]) else None)"

text \<open>
  A channel that is shared is an address into a store. Sending on a closed channel and closing
  it again are panics: \<open>None\<close>, as is an address that is no channel.
\<close>

record 'a chan =
  ch_cap :: nat
  ch_buf :: "'a list"
  ch_closed :: bool

definition chan_open :: "'a chan list \<Rightarrow> nat \<Rightarrow> bool" where
  "chan_open cs a \<longleftrightarrow> a < length cs \<and> \<not> ch_closed (cs ! a)"

definition chan_full :: "'a chan list \<Rightarrow> nat \<Rightarrow> bool" where
  "chan_full cs a \<longleftrightarrow> ch_cap (cs ! a) \<le> length (ch_buf (cs ! a))"

text \<open>\<open>select { case c <- x: default: }\<close>: whether the value was sent, and the store.\<close>

definition chan_offer :: "nat \<Rightarrow> 'a \<Rightarrow> 'a chan list \<Rightarrow> (bool \<times> 'a chan list) option" where
  "chan_offer a x cs =
     (if \<not> chan_open cs a then None
      else case try_send (ch_cap (cs ! a)) x (ch_buf (cs ! a)) of
             Some q \<Rightarrow> Some (True, cs[a := (cs ! a)\<lparr>ch_buf := q\<rparr>])
           | None \<Rightarrow> Some (False, cs))"

definition chan_close :: "nat \<Rightarrow> 'a chan list \<Rightarrow> 'a chan list option" where
  "chan_close a cs = (if chan_open cs a then Some (cs[a := (cs ! a)\<lparr>ch_closed := True\<rparr>]) else None)"

definition chan_make :: "nat \<Rightarrow> 'a chan list \<Rightarrow> nat \<times> 'a chan list" where
  "chan_make n cs = (length cs, cs @ [\<lparr>ch_cap = n, ch_buf = [], ch_closed = False\<rparr>])"

definition chan_receive :: "nat \<Rightarrow> 'a chan list \<Rightarrow> 'a chan list" where
  "chan_receive a cs = cs[a := (cs ! a)\<lparr>ch_buf := drop 1 (ch_buf (cs ! a))\<rparr>]"

section \<open>Loops that may panic\<close>

fun foldM :: "('a \<Rightarrow> 's \<Rightarrow> 's option) \<Rightarrow> 'a list \<Rightarrow> 's \<Rightarrow> 's option" where
  "foldM f [] s = Some s"
| "foldM f (x # xs) s = Option.bind (f x s) (foldM f xs)"

section \<open>Strings\<close>

definition hasPrefix :: "string \<Rightarrow> string \<Rightarrow> bool" where
  "hasPrefix s p \<longleftrightarrow> length p \<le> length s \<and> take (length p) s = p"

definition hasSuffix :: "string \<Rightarrow> string \<Rightarrow> bool" where
  "hasSuffix s p \<longleftrightarrow> length p \<le> length s \<and> drop (length s - length p) s = p"

definition trimPrefix :: "string \<Rightarrow> string \<Rightarrow> string" where
  "trimPrefix s p = (if hasPrefix s p then drop (length p) s else s)"

text \<open>\<open>strings.Split(s, sep)\<close> for a separator of one byte: always at least one piece.\<close>

fun split_on :: "char \<Rightarrow> string \<Rightarrow> string list" where
  "split_on c [] = [[]]"
| "split_on c (x # xs) =
     (if x = c then [] # split_on c xs
      else (case split_on c xs of [] \<Rightarrow> [[x]] | p # ps \<Rightarrow> (x # p) # ps))"

text \<open>\<open>strings.Join(parts, sep)\<close>\<close>

fun join_with :: "string \<Rightarrow> string list \<Rightarrow> string" where
  "join_with sep [] = []"
| "join_with sep [p] = p"
| "join_with sep (p # q # ps) = p @ sep @ join_with sep (q # ps)"

definition newline :: char where
  "newline = CHR 0x0A"

text \<open>The rotation \<open>(i + seed) % n\<close> for \<open>i := range xs\<close>.\<close>

definition rotation :: "nat \<Rightarrow> nat \<Rightarrow> nat list" where
  "rotation n seed = map (\<lambda>i. (i + seed) mod n) [0..<n]"

text \<open>
  The index \<open>(i + seed) % size\<close> of the pools, in Go's 64-bit arithmetic: the sum wraps, and a negative sum has a
  negative remainder.
\<close>

definition pool_index :: "nat \<Rightarrow> int \<Rightarrow> nat \<Rightarrow> int" where
  "pool_index i seed psize =
     (let s = sint (word_of_int (int i + seed) :: 64 word) in if s < 0 then - ((- s) mod int psize) else s mod int psize)"

section \<open>Lemmas on maps\<close>

declare map_of_eq_Some_iff [simp del] Some_eq_map_of_iff [simp del]

lemma mget_mput [gomap_simps, simp]: "mget (mput k v m) x = (if x = k then Some v else mget m x)"
  by (simp add: update_conv')

lemma mget_mdel [gomap_simps, simp]: "mget (mdel k m) x = (if x = k then None else mget m x)"
  by (simp add: delete_conv')

lemma wf_mput [gomap_simps, simp]: "wf_map m \<Longrightarrow> wf_map (mput k v m)"
  by (rule distinct_update)

lemma wf_mdel [gomap_simps, simp]: "wf_map m \<Longrightarrow> wf_map (mdel k m)"
  by (rule distinct_delete)

lemma keys_mput [gomap_simps]: "fst ` set (mput k v m) = insert k (fst ` set m)"
  by (induction m) auto

lemma keys_mdel [gomap_simps]: "fst ` set (mdel k m) = fst ` set m - {k}"
  by (auto simp: AList.delete_eq)

lemma mget_or_mput [gomap_simps, simp]:
  "mget_or d (mput k v m) x = (if x = k then v else mget_or d m x)"
  by (simp add: mget_or_def)

lemma mget_or_mdel [gomap_simps, simp]:
  "mget_or d (mdel k m) x = (if x = k then d else mget_or d m x)"
  by (simp add: mget_or_def)

lemma length_mput: "length (mput k v m) = (if k \<in> fst ` set m then length m else Suc (length m))"
  by (induction m) auto

lemma mdel_absent [simp]: "k \<notin> fst ` set m \<Longrightarrow> mdel k m = m"
  by (rule delete_id)

lemma mdel_mput_absent: "k \<notin> fst ` set m \<Longrightarrow> mdel k (mput k v m) = m"
  by (induction m) auto

lemma mput_absent: "k \<notin> fst ` set m \<Longrightarrow> mput k v m = m @ [(k, v)]"
  by (induction m) auto

lemma mput_same: "mget m k = Some v \<Longrightarrow> mput k v m = m"
  by (induction m) (auto split: if_splits)

lemma mdel_mput_same [simp]: "mdel k (mput k v m) = mdel k m"
  by (induction m) auto

lemma mdel_None [simp]: "mget m k = None \<Longrightarrow> mdel k m = m"
  by (simp add: map_of_eq_None_iff)

lemma mget_None_iff: "mget m k = None \<longleftrightarrow> k \<notin> fst ` set m"
  by (rule map_of_eq_None_iff)

lemma mget_in_values: "mget m k = Some v \<Longrightarrow> v \<in> set (mvalues m)"
  using map_of_SomeD[of m k v] by (force simp: mvalues_def)

lemma wf_map_mget_iff: "wf_map m \<Longrightarrow> (k, v) \<in> set m \<longleftrightarrow> mget m k = Some v"
  by (simp add: map_of_eq_Some_iff)

lemma set_mput:
  "wf_map m \<Longrightarrow> set (mput k v m) = insert (k, v) {p \<in> set m. fst p \<noteq> k}"
  by (induction m) (auto simp: image_iff)

lemma set_mdel: "set (mdel k m) = {p \<in> set m. fst p \<noteq> k}"
  by (auto simp: AList.delete_eq)

text \<open>Two lists that represent the same map differ only in the iteration order.\<close>

lemma same_map_mset:
  assumes "wf_map m" and "wf_map m'" and "map_of m = map_of m'"
  shows "mset m = mset m'"
proof -
  have "distinct m" and "distinct m'"
    using assms(1,2) by (simp_all add: distinct_map)
  moreover have "set m = set m'"
    using assms by (simp add: map_of_inject_set)
  ultimately show ?thesis
    by (simp add: set_eq_iff_mset_eq_distinct)
qed

lemma mget_rev: "wf_map m \<Longrightarrow> mget (rev m) = mget m"
  by (simp add: map_of_inject_set rev_map[symmetric])

lemma mput_all_Nil [simp]: "mput_all [] m = m"
  by (simp add: mput_all_def)

lemma mput_all_Cons [simp]: "mput_all ((k, v) # src) m = mput_all src (mput k v m)"
  by (simp add: mput_all_def)

lemma wf_mput_all [simp]: "wf_map m \<Longrightarrow> wf_map (mput_all src m)"
  by (induction src arbitrary: m) auto

lemma mget_mput_all:
  "wf_map src \<Longrightarrow> mget (mput_all src m) k = (case mget src k of None \<Rightarrow> mget m k | Some v \<Rightarrow> Some v)"
proof (induction src arbitrary: m)
  case Nil
  then show ?case by simp
next
  case (Cons p src)
  obtain k' v' where p: "p = (k', v')" by (cases p)
  with Cons.prems have "mget src k' = None" and "wf_map src"
    by (auto simp: map_of_eq_None_iff)
  then show ?case by (auto simp: p Cons.IH split: option.split)
qed

section \<open>Lemmas on channels\<close>

lemma try_send_Some [simp]: "try_send n x q = Some q' \<longleftrightarrow> length q < n \<and> q' = q @ [x]"
  by (auto simp: try_send_def)

lemma try_send_None [simp]: "try_send n x q = None \<longleftrightarrow> n \<le> length q"
  by (auto simp: try_send_def)

lemma chan_open_make [simp]: "chan_open (cs @ [c]) a \<longleftrightarrow> chan_open cs a \<or> (a = length cs \<and> \<not> ch_closed c)"
  by (auto simp: chan_open_def nth_append)

lemma chan_open_update [simp]:
  "chan_open (cs[a := c]) b \<longleftrightarrow> (if a = b then a < length cs \<and> \<not> ch_closed c else chan_open cs b)"
  by (auto simp: chan_open_def)

lemma chan_receive_open [simp]: "chan_open (chan_receive a cs) b = chan_open cs b"
  by (cases "a = b") (simp_all add: chan_receive_def, simp add: chan_open_def)

lemma foldM_append: "foldM f (xs @ ys) s = Option.bind (foldM f xs s) (foldM f ys)"
  by (induction xs arbitrary: s) (auto split: Option.bind_split)

text \<open>An invariant that every step keeps, and under which no step fails, holds of the loop.\<close>

lemma foldM_inv:
  assumes "I s" and "\<And>x s. x \<in> set xs \<Longrightarrow> I s \<Longrightarrow> \<exists>s'. f x s = Some s' \<and> I s'"
  shows "\<exists>s'. foldM f xs s = Some s' \<and> I s'"
  using assms
proof (induction xs arbitrary: s)
  case (Cons x xs)
  from Cons.prems(2)[of x s] Cons.prems(1) obtain s1 where "f x s = Some s1" "I s1" by auto
  with Cons.IH[of s1] Cons.prems(2) show ?case by auto
qed auto

section \<open>Lemmas on strings\<close>

lemma hasPrefix_append [go_string_simps, simp]: "hasPrefix (p @ s) p"
  by (simp add: hasPrefix_def)

lemma hasPrefix_iff: "hasPrefix s p \<longleftrightarrow> (\<exists>t. s = p @ t)"
  by (metis append_take_drop_id hasPrefix_append hasPrefix_def)

lemma hasSuffix_iff: "hasSuffix s p \<longleftrightarrow> (\<exists>t. s = t @ p)"
proof
  assume "hasSuffix s p"
  then have "s = take (length s - length p) s @ p"
    by (metis append_take_drop_id hasSuffix_def)
  then show "\<exists>t. s = t @ p" ..
qed (auto simp: hasSuffix_def)

lemma trimPrefix_append [go_string_simps, simp]: "trimPrefix (p @ s) p = s"
  by (simp add: trimPrefix_def)

lemma trimPrefix_no [go_string_simps, simp]: "\<not> hasPrefix s p \<Longrightarrow> trimPrefix s p = s"
  by (simp add: trimPrefix_def)

lemma split_on_ne [simp]: "split_on c s \<noteq> []"
  by (cases s) (auto split: list.split)

lemma split_on_no_sep: "c \<notin> set s \<Longrightarrow> split_on c s = [s]"
  by (induction s) auto

lemma split_on_append_sep:
  "c \<notin> set p \<Longrightarrow> split_on c (p @ c # s) = p # split_on c s"
  by (induction p) auto

lemma join_with_cons: "ps \<noteq> [] \<Longrightarrow> join_with sep (p # ps) = p @ sep @ join_with sep ps"
  by (cases ps) auto

text \<open>\<open>strings.Split(strings.Join(ps, sep), sep)\<close> gives the parts back.\<close>

lemma split_join:
  "ps \<noteq> [] \<Longrightarrow> \<forall>p \<in> set ps. c \<notin> set p \<Longrightarrow> split_on c (join_with [c] ps) = ps"
proof (induction ps rule: list_nonempty_induct)
  case (single p)
  then show ?case by (simp add: split_on_no_sep)
next
  case (cons p ps)
  then show ?case by (simp add: join_with_cons split_on_append_sep)
qed

section \<open>Lemmas on rotations\<close>

lemma length_rotation [simp]: "length (rotation n seed) = n"
  by (simp add: rotation_def)

lemma rotation_bound: "i \<in> set (rotation n seed) \<Longrightarrow> i < n"
  by (auto simp: rotation_def)

text \<open>The loop visits every index once, whatever the seed.\<close>

lemma rotation_rotate: "rotation n seed = rotate seed [0..<n]"
  by (rule nth_equalityI) (auto simp: rotation_def nth_rotate add.commute)

lemma distinct_rotation: "distinct (rotation n seed)"
  by (simp add: rotation_rotate)

lemma set_rotation: "set (rotation n seed) = {..<n}"
  by (simp add: rotation_rotate atLeast0LessThan)

lemma pool_index_rotation:
  assumes "0 \<le> seed" and "seed + int i < 2 ^ 63" and "0 < psize"
  shows "pool_index i seed psize = int ((i + nat seed) mod psize)"
proof -
  have "sint (word_of_int k :: 64 word) = k" if "- (2 ^ 63) \<le> k" "k < 2 ^ 63" for k
    using that by (simp add: sint_sbintrunc' signed_take_bit_int_eq_self)
  from this[of "int i + seed"] have "sint (word_of_int (int i + seed) :: 64 word) = int i + seed"
    using assms by (simp del: of_int_add)
  then show ?thesis using assms by (simp add: pool_index_def Let_def zmod_int)
qed

end
