(* ===== verification/Go_Numbers.thy ===== *)
theory Go_Numbers
  imports Go_Prelude
begin

text \<open>
  Number formatting and parsing as the sources use it: \<open>fmt.Sprintf("%d")\<close> and
  \<open>strconv.ParseInt\<close>, \<open>"%x"\<close> and \<open>hex.DecodeString\<close>, \<open>binary.LittleEndian\<close>,
  conversions between integer widths, and the part of \<open>float64\<close> the envelope conversion
  needs: rounding of a \<open>uint64\<close> to 53 significant bits, truncation back to an integer, and
  \<open>"%f"\<close>. The round trips proved here carry the round trips of the conversion theory.
\<close>

section \<open>Decimal numbers\<close>

definition digit_char :: "nat \<Rightarrow> char" where
  "digit_char d = char_of (48 + d)"

fun nat_digits :: "nat \<Rightarrow> string" where
  "nat_digits n = (if n < 10 then [digit_char n] else nat_digits (n div 10) @ [digit_char (n mod 10)])"

declare nat_digits.simps [simp del]

definition itoa :: "int \<Rightarrow> string" where
  "itoa i = (if i < 0 then CHR ''-'' # nat_digits (nat (- i)) else nat_digits (nat i))"

definition digit_val :: "char \<Rightarrow> nat option" where
  "digit_val c = (let n = of_char c :: nat in if 48 \<le> n \<and> n \<le> 57 then Some (n - 48) else None)"

fun parse_digits :: "nat \<Rightarrow> string \<Rightarrow> nat option" where
  "parse_digits acc [] = Some acc"
| "parse_digits acc (c # cs) =
     (case digit_val c of None \<Rightarrow> None | Some d \<Rightarrow> parse_digits (10 * acc + d) cs)"

definition parseUint :: "string \<Rightarrow> nat option" where
  "parseUint s = (if s = [] then None else parse_digits 0 s)"

text \<open>\<open>strconv.ParseInt(s, 10, 64)\<close>: \<open>None\<close> for a syntax and for a range error.\<close>

definition parseInt :: "string \<Rightarrow> int option" where
  "parseInt s =
     (case s of
        [] \<Rightarrow> None
      | c # cs \<Rightarrow>
          (if c = CHR ''-'' then
             (case parseUint cs of
                None \<Rightarrow> None
              | Some n \<Rightarrow> if n \<le> 2 ^ 63 then Some (- int n) else None)
           else
             (case parseUint (if c = CHR ''+'' then cs else s) of
                None \<Rightarrow> None
              | Some n \<Rightarrow> if n < 2 ^ 63 then Some (int n) else None)))"

section \<open>Integer conversions\<close>

text \<open>\<open>int32(x)\<close> keeps the low 32 bits.\<close>

definition to_int32 :: "int \<Rightarrow> int" where
  "to_int32 i = signed_take_bit 31 i"

definition is_int32 :: "int \<Rightarrow> bool" where
  "is_int32 i \<longleftrightarrow> - (2 ^ 31) \<le> i \<and> i < 2 ^ 31"

definition is_int64 :: "int \<Rightarrow> bool" where
  "is_int64 i \<longleftrightarrow> - (2 ^ 63) \<le> i \<and> i < 2 ^ 63"

section \<open>Hexadecimal and little-endian bytes\<close>

definition hex_char :: "nat \<Rightarrow> char" where
  "hex_char d = (if d < 10 then char_of (48 + d) else char_of (87 + d))"

text \<open>\<open>fmt.Sprintf("%x", bytes)\<close>\<close>

definition hex_encode :: "bytes \<Rightarrow> string" where
  "hex_encode bs = concat (map (\<lambda>b. [hex_char (of_char b div 16), hex_char (of_char b mod 16)]) bs)"

definition hex_val :: "char \<Rightarrow> nat option" where
  "hex_val c = (let n = of_char c :: nat in
     if 48 \<le> n \<and> n \<le> 57 then Some (n - 48)
     else if 97 \<le> n \<and> n \<le> 102 then Some (n - 87)
     else if 65 \<le> n \<and> n \<le> 70 then Some (n - 55)
     else None)"

text \<open>\<open>hex.DecodeString\<close>: \<open>None\<close> for an odd length or a character that is no hex digit.\<close>

fun hex_decode :: "string \<Rightarrow> bytes option" where
  "hex_decode [] = Some []"
| "hex_decode [c] = None"
| "hex_decode (c # d # cs) =
     (case (hex_val c, hex_val d) of
        (Some a, Some b) \<Rightarrow> map_option (Cons (char_of (16 * a + b))) (hex_decode cs)
      | _ \<Rightarrow> None)"

text \<open>\<open>binary.LittleEndian.PutUint\<close> with \<open>k\<close> bytes, and reading it back.\<close>

fun le_bytes :: "nat \<Rightarrow> nat \<Rightarrow> bytes" where
  "le_bytes 0 n = []"
| "le_bytes (Suc k) n = char_of (n mod 256) # le_bytes k (n div 256)"

fun le_value :: "bytes \<Rightarrow> nat" where
  "le_value [] = 0"
| "le_value (c # cs) = of_char c + 256 * le_value cs"

section \<open>Floating point\<close>

text \<open>
  A \<open>float64\<close> is its sign and magnitude, an infinity or a NaN. Converting a value that the
  integer type cannot hold has an implementation-specific result in Go: an argument.
\<close>

datatype float64 = Finite bool rat | Infinity bool | NaN

fun bit_length :: "nat \<Rightarrow> nat" where
  "bit_length n = (if n = 0 then 0 else Suc (bit_length (n div 2)))"

declare bit_length.simps [simp del]

text \<open>Round to 53 significant bits, ties to even.\<close>

definition round53 :: "nat \<Rightarrow> nat" where
  "round53 n =
     (if n < 2 ^ 53 then n
      else
        let k = bit_length n - 53; q = n div 2 ^ k; r = n mod 2 ^ k; half = 2 ^ (k - 1)
        in (if half < r \<or> r = half \<and> odd q then Suc q else q) * 2 ^ k)"

definition float64_of_uint64 :: "uint64 \<Rightarrow> float64" where
  "float64_of_uint64 w = Finite False (of_nat (round53 (unat w)))"

definition float64_of_int32 :: "int \<Rightarrow> float64" where
  "float64_of_int32 i = Finite (i < 0) (of_int \<bar>i\<bar>)"

definition uint64_of_float64 :: "(float64 \<Rightarrow> uint64) \<Rightarrow> float64 \<Rightarrow> uint64" where
  "uint64_of_float64 impl f =
     (case f of
        Finite s q \<Rightarrow>
          (if (\<not> s \<or> \<lfloor>q\<rfloor> = 0) \<and> \<lfloor>q\<rfloor> < 2 ^ 64 then word_of_int \<lfloor>q\<rfloor> else impl f)
      | _ \<Rightarrow> impl f)"

definition int32_of_float64 :: "(float64 \<Rightarrow> int) \<Rightarrow> float64 \<Rightarrow> int" where
  "int32_of_float64 impl f =
     (case f of
        Finite s q \<Rightarrow>
          (let i = (if s then - \<lfloor>q\<rfloor> else \<lfloor>q\<rfloor>) in if is_int32 i then i else impl f)
      | _ \<Rightarrow> impl f)"

text \<open>\<open>fmt.Sprintf("%f", x)\<close>: six digits, rounded to even on a tie.\<close>

definition round_half_even :: "rat \<Rightarrow> int" where
  "round_half_even q =
     (let n = \<lfloor>q\<rfloor>; r = q - of_int n
      in if 1 / 2 < r \<or> r = 1 / 2 \<and> odd n then n + 1 else n)"

definition pad6 :: "nat \<Rightarrow> string" where
  "pad6 n = replicate (6 - length (nat_digits n)) (CHR ''0'') @ nat_digits n"

definition format_f :: "float64 \<Rightarrow> string" where
  "format_f f =
     (case f of
        NaN \<Rightarrow> ''NaN''
      | Infinity s \<Rightarrow> (if s then ''-Inf'' else ''+Inf'')
      | Finite s q \<Rightarrow>
          (let n = nat (round_half_even (q * 10 ^ 6))
           in (if s then ''-'' else []) @ nat_digits (n div 10 ^ 6) @ ''.'' @ pad6 (n mod 10 ^ 6)))"

section \<open>Decimal round trip\<close>

lemma of_char_digit [simp]: "d < 10 \<Longrightarrow> (of_char (digit_char d) :: nat) = 48 + d"
  by (simp add: digit_char_def)

lemma digit_val_digit [simp]: "d < 10 \<Longrightarrow> digit_val (digit_char d) = Some d"
  by (simp add: digit_val_def Let_def)

lemma nat_digits_ne [simp]: "nat_digits n \<noteq> []"
  by (subst nat_digits.simps) simp

lemma parse_digits_append:
  "parse_digits acc (s @ [c]) =
     (case parse_digits acc s of
        None \<Rightarrow> None
      | Some n \<Rightarrow> (case digit_val c of None \<Rightarrow> None | Some d \<Rightarrow> Some (10 * n + d)))"
  by (induction s arbitrary: acc) (auto split: option.split)

lemma parse_nat_digits: "parse_digits 0 (nat_digits n) = Some n"
proof (induction n rule: nat_digits.induct)
  case (1 n)
  show ?case
  proof (cases "n < 10")
    case True
    then show ?thesis by (simp add: nat_digits.simps[of n])
  next
    case False
    with 1 show ?thesis by (simp add: nat_digits.simps[of n] parse_digits_append)
  qed
qed

lemma parseUint_nat_digits [simp]: "parseUint (nat_digits n) = Some n"
  by (simp add: parseUint_def parse_nat_digits)

lemma nat_digits_set: "c \<in> set (nat_digits n) \<Longrightarrow> \<exists>d < 10. c = digit_char d"
proof (induction n rule: nat_digits.induct)
  case (1 n)
  show ?case
  proof (cases "n < 10")
    case True
    with "1.prems" show ?thesis by (auto simp: nat_digits.simps[of n])
  next
    case False
    have "n mod 10 < 10" by simp
    with False 1 show ?thesis by (auto simp: nat_digits.simps[of n] intro: exI[of _ "n mod 10"])
  qed
qed

lemma digit_char_neq [simp]:
  "d < 10 \<Longrightarrow> digit_char d \<noteq> CHR ''-''"
  "d < 10 \<Longrightarrow> digit_char d \<noteq> CHR ''+''"
  "d < 10 \<Longrightarrow> digit_char d \<noteq> CHR '' ''"
  "d < 10 \<Longrightarrow> digit_char d \<noteq> CHR '':''"
  by (auto dest: arg_cong[where f = "of_char :: char \<Rightarrow> nat"])

lemma nat_digits_no_sign:
  "CHR ''-'' \<notin> set (nat_digits n)" "CHR ''+'' \<notin> set (nat_digits n)"
  "CHR '' '' \<notin> set (nat_digits n)" "CHR '':'' \<notin> set (nat_digits n)"
  using nat_digits_set digit_char_neq by metis+

lemma nat_digits_inject [simp]: "nat_digits m = nat_digits n \<longleftrightarrow> m = n"
  by (metis option.inject parse_nat_digits)

text \<open>Printing an \<open>int64\<close> in decimal and parsing it gives the number back.\<close>

lemma parseInt_itoa:
  assumes "is_int64 i"
  shows "parseInt (itoa i) = Some i"
proof (cases "i < 0")
  case True
  with assms have "nat (- i) \<le> 2 ^ 63" by (simp add: is_int64_def nat_le_iff)
  with True show ?thesis by (simp add: itoa_def parseInt_def)
next
  case False
  with assms have "nat i < 2 ^ 63" by (simp add: is_int64_def nat_less_iff)
  moreover obtain c cs where ccs: "nat_digits (nat i) = c # cs"
    by (metis nat_digits_ne neq_Nil_conv)
  moreover have "c \<noteq> CHR ''-''" and "c \<noteq> CHR ''+''"
    using ccs nat_digits_no_sign by (metis list.set_intros(1))+
  ultimately show ?thesis
    using False parseUint_nat_digits[of "nat i"] by (simp add: itoa_def parseInt_def)
qed

lemma is_int32_int64: "is_int32 i \<Longrightarrow> is_int64 i"
  by (simp add: is_int32_def is_int64_def)

lemma to_int32_id [simp]: "is_int32 i \<Longrightarrow> to_int32 i = i"
  by (simp add: to_int32_def is_int32_def signed_take_bit_int_eq_self)

section \<open>Hexadecimal round trip\<close>

lemma of_char_lt_256 [simp]: "(of_char c :: nat) < 256"
  by (rule nat_of_char_less_256)

lemma hex_val_hex_char [simp]: "d < 16 \<Longrightarrow> hex_val (hex_char d) = Some d"
  by (auto simp: hex_val_def hex_char_def Let_def)

lemma length_hex_encode [simp]: "length (hex_encode bs) = 2 * length bs"
  by (induction bs) (auto simp: hex_encode_def)

lemma hex_encode_Nil [simp]: "hex_encode [] = []"
  by (simp add: hex_encode_def)

lemma hex_encode_Cons:
  "hex_encode (b # bs) = hex_char (of_char b div 16) # hex_char (of_char b mod 16) # hex_encode bs"
  by (simp add: hex_encode_def)

lemma hex_encode_append [simp]: "hex_encode (as @ bs) = hex_encode as @ hex_encode bs"
  by (simp add: hex_encode_def)

lemma hex_decode_encode [simp]: "hex_decode (hex_encode bs) = Some bs"
proof (induction bs)
  case Nil
  then show ?case by simp
next
  case (Cons b bs)
  have "(of_char b :: nat) div 16 < 16"
    using of_char_lt_256[of b] by linarith
  moreover have "16 * (of_char b div 16) + of_char b mod 16 = (of_char b :: nat)"
    by (simp add: mult_div_mod_eq)
  ultimately show ?case
    using Cons by (simp add: hex_encode_Cons)
qed

lemma hex_encode_inject [simp]: "hex_encode as = hex_encode bs \<longleftrightarrow> as = bs"
  by (metis hex_decode_encode option.inject)

lemma length_le_bytes [simp]: "length (le_bytes k n) = k"
  by (induction k arbitrary: n) auto

lemma le_value_le_bytes: "le_value (le_bytes k n) = n mod 256 ^ k"
proof (induction k arbitrary: n)
  case 0
  then show ?case by simp
next
  case (Suc k)
  then show ?case
    by (simp add: mod_mult2_eq)
qed

lemma le_value_less: "le_value bs < 256 ^ length bs"
proof (induction bs)
  case Nil
  then show ?case by simp
next
  case (Cons b bs)
  have "of_char b + 256 * le_value bs < 256 + 256 * le_value bs" by simp
  also have "\<dots> \<le> 256 * 256 ^ length bs" using Cons by simp
  finally show ?case by simp
qed

lemma le_value_uint64 [simp]: "of_nat (le_value (le_bytes 8 (unat w))) = (w :: uint64)"
proof -
  have "unat w < 256 ^ 8"
    using unsigned_less[of w] by simp
  then show ?thesis by (simp add: le_value_le_bytes)
qed

section \<open>Floating point\<close>

lemma round53_small [simp]: "n < 2 ^ 53 \<Longrightarrow> round53 n = n"
  by (simp add: round53_def)

lemma uint64_float64_exact:
  assumes "unat w < 2 ^ 53"
  shows "uint64_of_float64 impl (float64_of_uint64 w) = w"
proof -
  have "\<lfloor>(of_nat n :: rat)\<rfloor> = int n" for n
    by simp
  then have "uint64_of_float64 impl (Finite False (of_nat n)) = of_nat n" if "n < 2 ^ 53" for n
    using that by (simp add: uint64_of_float64_def)
  from this[OF assms] assms show ?thesis
    by (simp add: float64_of_uint64_def)
qed

lemma int32_float64_exact:
  assumes "is_int32 i"
  shows "int32_of_float64 impl (float64_of_int32 i) = i"
proof -
  have "\<lfloor>(of_int \<bar>i\<bar> :: rat)\<rfloor> = \<bar>i\<bar>" by (rule floor_of_int)
  then have "(if i < 0 then - \<lfloor>(of_int \<bar>i\<bar> :: rat)\<rfloor> else \<lfloor>(of_int \<bar>i\<bar> :: rat)\<rfloor>) = i"
    by simp
  with assms show ?thesis
    by (simp only: int32_of_float64_def float64_of_int32_def Let_def float64.case if_True)
qed

end
