(* ===== verification/Envelopes.thy ===== *)
theory Envelopes
  imports Go_Numbers
begin

text \<open>
  The two envelope formats. The v2 format is the one of \<open>plumbing/v2/envelope.pb.go\<close>. The
  v1 format belongs to the package \<open>sonde-go/events\<close>, which is not part of the repository:
  its records have the fields that the sources of the repository read and write, each optional
  as its pointer is, and what else the code takes from that package (the defaults that the
  getters return for a nil enum, the tables of the enums \<open>Method\<close> and \<open>PeerType\<close>) is the
  record \<open>events_pkg\<close>, an argument of the definitions that use it.

  The \<open>Tags\<close> of both formats are Go maps, which are references: the converters share one
  map between a v1 and a v2 envelope and then change it. So a \<open>Tags\<close> field is an optional
  address into a heap of tag maps, and an operation that touches it takes and returns the heap.
\<close>

section \<open>The heap of tag maps\<close>

type_synonym tagmap = "(string, string) gomap"
type_synonym tag_heap = "tagmap list"

definition hget :: "tag_heap \<Rightarrow> nat \<Rightarrow> tagmap" where
  "hget h r = (if r < length h then h ! r else [])"

definition hput :: "nat \<Rightarrow> string \<Rightarrow> string \<Rightarrow> tag_heap \<Rightarrow> tag_heap" where
  "hput r k v h = h[r := mput k v (hget h r)]"

definition hdel :: "nat \<Rightarrow> string \<Rightarrow> tag_heap \<Rightarrow> tag_heap" where
  "hdel r k h = h[r := mdel k (hget h r)]"

text \<open>\<open>make(map[string]string)\<close>\<close>

definition hmake :: "tag_heap \<Rightarrow> nat \<times> tag_heap" where
  "hmake h = (length h, h @ [[]])"

definition hdel_all :: "nat \<Rightarrow> string list \<Rightarrow> tag_heap \<Rightarrow> tag_heap" where
  "hdel_all r ks h = fold (hdel r) ks h"

text \<open>Reading a map that may be nil.\<close>

definition tags_at :: "tag_heap \<Rightarrow> nat option \<Rightarrow> tagmap" where
  "tags_at h r = (case r of None \<Rightarrow> [] | Some a \<Rightarrow> hget h a)"

text \<open>Every address in use is allocated and every map has distinct keys.\<close>

definition wf_heap :: "tag_heap \<Rightarrow> bool" where
  "wf_heap h \<longleftrightarrow> (\<forall>m \<in> set h. wf_map m)"

definition wf_ref :: "tag_heap \<Rightarrow> nat option \<Rightarrow> bool" where
  "wf_ref h r \<longleftrightarrow> (case r of None \<Rightarrow> True | Some a \<Rightarrow> a < length h)"

section \<open>Version 1\<close>

datatype event_type =
    Envelope_HttpStartStop
  | Envelope_LogMessage
  | Envelope_ValueMetric
  | Envelope_CounterEvent
  | Envelope_Error
  | Envelope_ContainerMetric
  | Envelope_Other int

text \<open>The generated \<open>String\<close> method: the name of a declared value, else its number.\<close>

fun event_type_string :: "event_type \<Rightarrow> string" where
  "event_type_string Envelope_HttpStartStop = ''HttpStartStop''"
| "event_type_string Envelope_LogMessage = ''LogMessage''"
| "event_type_string Envelope_ValueMetric = ''ValueMetric''"
| "event_type_string Envelope_CounterEvent = ''CounterEvent''"
| "event_type_string Envelope_Error = ''Error''"
| "event_type_string Envelope_ContainerMetric = ''ContainerMetric''"
| "event_type_string (Envelope_Other i) = itoa i"

datatype log_type = LogMessage_OUT | LogMessage_ERR | LogMessage_Other int

text \<open>The table \<open>LogMessage_MessageType_name\<close>, with the zero value for a missing key.\<close>

fun LogMessage_MessageType_name :: "log_type \<Rightarrow> string" where
  "LogMessage_MessageType_name LogMessage_OUT = ''OUT''"
| "LogMessage_MessageType_name LogMessage_ERR = ''ERR''"
| "LogMessage_MessageType_name (LogMessage_Other i) = []"

record uuid =
  uuid_Low :: "uint64 option"
  uuid_High :: "uint64 option"

record log_message =
  lm_Message :: bytes
  lm_MessageType :: "log_type option"
  lm_Timestamp :: "int option"
  lm_AppId :: "string option"
  lm_SourceType :: "string option"
  lm_SourceInstance :: "string option"

record http_start_stop =
  hs_StartTimestamp :: "int option"
  hs_StopTimestamp :: "int option"
  hs_RequestId :: "uuid option"
  hs_ApplicationId :: "uuid option"
  hs_PeerType :: "int option"
  hs_Method :: "int option"
  hs_Uri :: "string option"
  hs_RemoteAddress :: "string option"
  hs_UserAgent :: "string option"
  hs_StatusCode :: "int option"
  hs_ContentLength :: "int option"
  hs_InstanceIndex :: "int option"
  hs_InstanceId :: "string option"
  hs_Forwarded :: "string list"

record value_metric =
  vm_Name :: "string option"
  vm_Unit :: "string option"
  vm_Value :: "float64 option"

record counter_event =
  ce_Name :: "string option"
  ce_Delta :: "uint64 option"
  ce_Total :: "uint64 option"

record error_event =
  er_Source :: "string option"
  er_Code :: "int option"
  er_Message :: "string option"

record container_metric =
  cm_ApplicationId :: "string option"
  cm_InstanceIndex :: "int option"
  cm_CpuPercentage :: "float64 option"
  cm_MemoryBytes :: "uint64 option"
  cm_DiskBytes :: "uint64 option"
  cm_MemoryBytesQuota :: "uint64 option"
  cm_DiskBytesQuota :: "uint64 option"

record v1_envelope =
  e1_Origin :: "string option"
  e1_Deployment :: "string option"
  e1_Job :: "string option"
  e1_Index :: "string option"
  e1_Ip :: "string option"
  e1_Timestamp :: "int option"
  e1_Tags :: "nat option"
  e1_EventType :: "event_type option"
  e1_HttpStartStop :: "http_start_stop option"
  e1_LogMessage :: "log_message option"
  e1_ValueMetric :: "value_metric option"
  e1_CounterEvent :: "counter_event option"
  e1_Error :: "error_event option"
  e1_ContainerMetric :: "container_metric option"

definition empty_v1 :: v1_envelope where
  "empty_v1 = \<lparr>e1_Origin = None, e1_Deployment = None, e1_Job = None, e1_Index = None,
     e1_Ip = None, e1_Timestamp = None, e1_Tags = None, e1_EventType = None,
     e1_HttpStartStop = None, e1_LogMessage = None, e1_ValueMetric = None,
     e1_CounterEvent = None, e1_Error = None, e1_ContainerMetric = None\<rparr>"

text \<open>What the sources use of \<open>sonde-go/events\<close> beyond its record types.\<close>

record events_pkg =
  default_EventType :: event_type
  default_MessageType :: log_type
  default_Method :: int
  default_PeerType :: int
  Method_name :: "(int, string) gomap"
  Method_value :: "(string, int) gomap"
  PeerType_name :: "(int, string) gomap"
  PeerType_value :: "(string, int) gomap"

text \<open>
  The tables generated for an enum are inverse to each other, as the protobuf compiler
  documents.
\<close>

definition enum_tables :: "(int, string) gomap \<Rightarrow> (string, int) gomap \<Rightarrow> bool" where
  "enum_tables names vals \<longleftrightarrow> (\<forall>i s. mget names i = Some s \<longrightarrow> mget vals s = Some i)"

text \<open>The generated \<open>String\<close> of such an enum.\<close>

definition enum_string :: "(int, string) gomap \<Rightarrow> int \<Rightarrow> string" where
  "enum_string names i = (case mget names i of None \<Rightarrow> itoa i | Some s \<Rightarrow> s)"

text \<open>The generated getters return the zero value for a nil pointer.\<close>

definition getS :: "string option \<Rightarrow> string" where
  "getS x = (case x of None \<Rightarrow> [] | Some s \<Rightarrow> s)"

definition getI :: "int option \<Rightarrow> int" where
  "getI x = (case x of None \<Rightarrow> 0 | Some i \<Rightarrow> i)"

definition getU :: "uint64 option \<Rightarrow> uint64" where
  "getU x = (case x of None \<Rightarrow> 0 | Some i \<Rightarrow> i)"

definition getF :: "float64 option \<Rightarrow> float64" where
  "getF x = (case x of None \<Rightarrow> Finite False 0 | Some f \<Rightarrow> f)"

definition GetEventType :: "events_pkg \<Rightarrow> v1_envelope \<Rightarrow> event_type" where
  "GetEventType pkg e = (case e1_EventType e of None \<Rightarrow> default_EventType pkg | Some t \<Rightarrow> t)"

section \<open>Version 2\<close>

datatype log_type_v2 = Log_OUT | Log_ERR | Log_Other int

text \<open>The table \<open>Log_Type_value\<close>; a missing key gives the zero value.\<close>

definition Log_Type_value :: "string \<Rightarrow> log_type_v2" where
  "Log_Type_value s = (if s = ''ERR'' then Log_ERR else Log_OUT)"

datatype value_data = Value_Text string | Value_Integer int | Value_Decimal float64

record v2_value =
  v2_Data :: "value_data option"

record v2_log =
  lg_Payload :: bytes
  lg_Type :: log_type_v2

datatype counter_value = Counter_Delta uint64 | Counter_Total uint64

record v2_counter =
  ct_Name :: string
  ct_Value :: "counter_value option"

fun GetTotal :: "counter_value option \<Rightarrow> uint64" where
  "GetTotal (Some (Counter_Total t)) = t"
| "GetTotal _ = 0"

fun GetDelta :: "counter_value option \<Rightarrow> uint64" where
  "GetDelta (Some (Counter_Delta d)) = d"
| "GetDelta _ = 0"

record gauge_value =
  gv_Unit :: string
  gv_Value :: float64

record v2_gauge =
  gg_Metrics :: "(string, gauge_value option) gomap"

record v2_timer =
  tm_Name :: string
  tm_Start :: int
  tm_Stop :: int

datatype v2_message =
    Envelope_Log v2_log
  | Envelope_Counter v2_counter
  | Envelope_Gauge v2_gauge
  | Envelope_Timer v2_timer

record v2_envelope =
  e2_Timestamp :: int
  e2_SourceId :: string
  e2_InstanceId :: string
  e2_DeprecatedTags :: "(string, v2_value option) gomap option"
  e2_Tags :: "nat option"
  e2_Message :: "v2_message option"

text \<open>\<open>GetDeprecatedTags\<close>: reading a nil map is reading an empty one.\<close>

definition deprecated_tags :: "v2_envelope \<Rightarrow> (string, v2_value option) gomap" where
  "deprecated_tags e = (case e2_DeprecatedTags e of None \<Rightarrow> [] | Some m \<Rightarrow> m)"

section \<open>Lemmas on the heap\<close>

lemma length_hput [simp]: "length (hput r k v h) = length h"
  by (simp add: hput_def)

lemma length_hdel [simp]: "length (hdel r k h) = length h"
  by (simp add: hdel_def)

lemma length_hdel_all [simp]: "length (hdel_all r ks h) = length h"
  by (induction ks arbitrary: h) (auto simp: hdel_all_def)

lemma hget_hput_same [simp]: "r < length h \<Longrightarrow> hget (hput r k v h) r = mput k v (hget h r)"
  by (simp add: hget_def hput_def)

lemma hget_hput_other [simp]: "a \<noteq> r \<Longrightarrow> hget (hput r k v h) a = hget h a"
  by (simp add: hget_def hput_def)

lemma hget_hdel_same [simp]: "hget (hdel r k h) r = mdel k (hget h r)"
  by (simp add: hget_def hdel_def)

lemma hget_hdel_other [simp]: "a \<noteq> r \<Longrightarrow> hget (hdel r k h) a = hget h a"
  by (simp add: hget_def hdel_def)

lemma mget_hdel_all:
  "mget (hget (hdel_all r ks h) r) k = (if k \<in> set ks then None else mget (hget h r) k)"
  by (induction ks arbitrary: h) (auto simp: hdel_all_def)

lemma hget_hdel_all_other [simp]: "a \<noteq> r \<Longrightarrow> hget (hdel_all r ks h) a = hget h a"
  by (induction ks arbitrary: h) (auto simp: hdel_all_def)

lemma hget_append [simp]: "hget (h @ [m]) (length h) = m"
  by (simp add: hget_def)

lemma hget_append_old [simp]: "r < length h \<Longrightarrow> hget (h @ [m]) r = hget h r"
  by (simp add: hget_def nth_append)

lemma wf_hget [simp]: "wf_heap h \<Longrightarrow> wf_map (hget h r)"
  by (simp add: wf_heap_def hget_def)

lemma wf_tags_at [simp]: "wf_heap h \<Longrightarrow> wf_map (tags_at h r)"
  by (simp add: tags_at_def split: option.split)

lemma wf_heap_hput [simp]: "wf_heap h \<Longrightarrow> wf_heap (hput r k v h)"
  by (auto simp: wf_heap_def hput_def hget_def dest!: set_update_subset_insert[THEN subsetD])

lemma wf_heap_hdel [simp]: "wf_heap h \<Longrightarrow> wf_heap (hdel r k h)"
  by (auto simp: wf_heap_def hdel_def hget_def dest!: set_update_subset_insert[THEN subsetD])

lemma wf_heap_hdel_all [simp]: "wf_heap h \<Longrightarrow> wf_heap (hdel_all r ks h)"
  by (induction ks arbitrary: h) (auto simp: hdel_all_def)

lemma wf_heap_append [simp]: "wf_heap h \<Longrightarrow> wf_heap (h @ [[]])"
  by (simp add: wf_heap_def)

section \<open>Lemmas on getters\<close>

lemma getS_Some [simp]: "getS (Some s) = s"
  by (simp add: getS_def)

lemma getI_Some [simp]: "getI (Some i) = i"
  by (simp add: getI_def)

lemma getU_Some [simp]: "getU (Some i) = i"
  by (simp add: getU_def)

lemma getF_Some [simp]: "getF (Some f) = f"
  by (simp add: getF_def)

lemma enum_roundtrip:
  assumes "enum_tables names vals" and "i \<in> fst ` set names"
  shows "mget_or 0 vals (enum_string names i) = i"
proof -
  obtain s where "mget names i = Some s"
    using assms(2) by (metis map_of_eq_None_iff not_None_eq)
  with assms(1) show ?thesis
    by (simp add: enum_tables_def enum_string_def mget_or_def)
qed

end
