(* ===== verification/Conversion.thy ===== *)
theory Conversion
  imports Envelopes
begin

text \<open>
  The converters between the envelope formats, \<open>plumbing/conversion/tov1.go\<close> and
  \<open>plumbing/conversion/tov2.go\<close>, one definition per Go function. Every definition that
  reads or writes a \<open>Tags\<close> map takes the heap of tag maps and returns the changed heap, so
  that the sharing of the map between an envelope and its conversion is visible.

  The lemmas about them are in the theory \<open>Conversion_Round_Trip\<close>.
\<close>

section \<open>Towards version 1\<close>

text \<open>The text that a tag value of the v2 format stands for.\<close>

fun value_text_of :: "value_data \<Rightarrow> string" where
  "value_text_of (Value_Text s) = s"
| "value_text_of (Value_Integer i) = itoa i"
| "value_text_of (Value_Decimal f) = format_f f"

definition getV2Tag :: "v2_envelope \<Rightarrow> tag_heap \<Rightarrow> string \<Rightarrow> string" where
  "getV2Tag e h key =
     (case mget (tags_at h (e2_Tags e)) key of
        Some value \<Rightarrow> value
      | None \<Rightarrow>
          (case mget (deprecated_tags e) key of
             Some (Some d) \<Rightarrow> (case v2_Data d of None \<Rightarrow> [] | Some v \<Rightarrow> value_text_of v)
           | _ \<Rightarrow> []))"

text \<open>The loop over the deprecated tags in \<open>convertTags\<close>.\<close>

definition put_deprecated :: "nat \<Rightarrow> string \<times> v2_value option \<Rightarrow> tag_heap \<Rightarrow> tag_heap" where
  "put_deprecated r kv h =
     (case snd kv of
        None \<Rightarrow> h
      | Some d \<Rightarrow> (case v2_Data d of None \<Rightarrow> h | Some v \<Rightarrow> hput r (fst kv) (value_text_of v) h))"

definition convertTags :: "v2_envelope \<Rightarrow> tag_heap \<Rightarrow> nat \<times> tag_heap" where
  "convertTags e h =
     (let (r, h1) = (case e2_Tags e of Some r \<Rightarrow> (r, h) | None \<Rightarrow> hmake h)
      in (r, fold (put_deprecated r) (deprecated_tags e) h1))"

definition base_tag_names :: "string list" where
  "base_tag_names = [''__v1_type'', ''origin'', ''deployment'', ''job'', ''index'', ''ip'']"

definition createBaseV1 :: "v2_envelope \<Rightarrow> tag_heap \<Rightarrow> v1_envelope \<times> tag_heap" where
  "createBaseV1 e h =
     (let (r, h1) = convertTags e h;
          v1e = empty_v1\<lparr>
            e1_Origin := Some (getV2Tag e h ''origin''),
            e1_Deployment := Some (getV2Tag e h ''deployment''),
            e1_Job := Some (getV2Tag e h ''job''),
            e1_Index := Some (getV2Tag e h ''index''),
            e1_Timestamp := Some (e2_Timestamp e),
            e1_Ip := Some (getV2Tag e h ''ip''),
            e1_Tags := Some r\<rparr>;
          h2 = hdel_all r base_tag_names h1;
          h3 = (if e2_SourceId e \<noteq> [] then hput r ''source_id'' (e2_SourceId e) h2 else h2);
          h4 = (if e2_InstanceId e \<noteq> [] then hput r ''instance_id'' (e2_InstanceId e) h3 else h3)
      in (v1e, h4))"

definition atoi :: "string \<Rightarrow> int" where
  "atoi s = (case parseInt s of None \<Rightarrow> 0 | Some i \<Rightarrow> i)"

text \<open>\<open>id[:8] + id[9:13] + id[14:18] + id[19:23] + id[24:]\<close> for 36 bytes; \<open>None\<close> is nil.\<close>

definition slice :: "nat \<Rightarrow> nat \<Rightarrow> 'a list \<Rightarrow> 'a list" where
  "slice i j xs = take (j - i) (drop i xs)"

definition parseUUID :: "string \<Rightarrow> bytes option" where
  "parseUUID i =
     (if length i \<noteq> 36 then None
      else hex_decode (slice 0 8 i @ slice 9 13 i @ slice 14 18 i @ slice 19 23 i @ drop 24 i))"

definition convertUUID :: "bytes option \<Rightarrow> uuid" where
  "convertUUID i =
     (let bs = (case i of None \<Rightarrow> [] | Some b \<Rightarrow> b)
      in if length bs \<noteq> 16 then \<lparr>uuid_Low = None, uuid_High = None\<rparr>
         else \<lparr>uuid_Low = Some (of_nat (le_value (take 8 bs))),
               uuid_High = Some (of_nat (le_value (drop 8 bs)))\<rparr>)"

definition timer_tag_names :: "string list" where
  "timer_tag_names = [''peer_type'', ''method'', ''request_id'', ''uri'', ''remote_address'',
     ''user_agent'', ''status_code'', ''content_length'', ''instance_index'',
     ''routing_instance_id'', ''forwarded'']"

text \<open>The \<open>delete\<close> statements on \<open>v1e.Tags\<close>: no effect on a nil map.\<close>

definition delete_tags :: "v1_envelope \<Rightarrow> string list \<Rightarrow> tag_heap \<Rightarrow> tag_heap" where
  "delete_tags v1e ks h = (case e1_Tags v1e of None \<Rightarrow> h | Some r \<Rightarrow> hdel_all r ks h)"

definition convertTimer ::
    "events_pkg \<Rightarrow> v1_envelope \<Rightarrow> v2_envelope \<Rightarrow> v2_timer \<Rightarrow> tag_heap \<Rightarrow> v1_envelope \<times> tag_heap" where
  "convertTimer pkg v1e v2e timer h =
     (let tag = getV2Tag v2e h;
          v1e' = v1e\<lparr>
            e1_EventType := Some Envelope_HttpStartStop,
            e1_HttpStartStop := Some \<lparr>
              hs_StartTimestamp = Some (tm_Start timer),
              hs_StopTimestamp = Some (tm_Stop timer),
              hs_RequestId = Some (convertUUID (parseUUID (tag ''request_id''))),
              hs_ApplicationId = Some (convertUUID (parseUUID (e2_SourceId v2e))),
              hs_PeerType = Some (mget_or 0 (PeerType_value pkg) (tag ''peer_type'')),
              hs_Method = Some (mget_or 0 (Method_value pkg) (tag ''method'')),
              hs_Uri = Some (tag ''uri''),
              hs_RemoteAddress = Some (tag ''remote_address''),
              hs_UserAgent = Some (tag ''user_agent''),
              hs_StatusCode = Some (to_int32 (atoi (tag ''status_code''))),
              hs_ContentLength = Some (atoi (tag ''content_length'')),
              hs_InstanceIndex = Some (to_int32 (atoi (tag ''instance_index''))),
              hs_InstanceId = Some (tag ''routing_instance_id''),
              hs_Forwarded = split_on newline (tag ''forwarded'')\<rparr>\<rparr>
      in (v1e', delete_tags v1e timer_tag_names h))"

definition recoverError ::
    "v1_envelope \<Rightarrow> v2_envelope \<Rightarrow> v2_log \<Rightarrow> tag_heap \<Rightarrow> v1_envelope \<times> tag_heap" where
  "recoverError v1e v2e logMessage h =
     (v1e\<lparr>
        e1_EventType := Some Envelope_Error,
        e1_Error := Some \<lparr>
          er_Source = Some (getV2Tag v2e h ''source''),
          er_Code = Some (to_int32 (atoi (getV2Tag v2e h ''code''))),
          er_Message = Some (lg_Payload logMessage)\<rparr>\<rparr>,
      delete_tags v1e [''source'', ''code''] h)"

definition messageType :: "v2_log \<Rightarrow> log_type" where
  "messageType l = (if lg_Type l = Log_OUT then LogMessage_OUT else LogMessage_ERR)"

definition convertLog ::
    "v1_envelope \<Rightarrow> v2_envelope \<Rightarrow> v2_log \<Rightarrow> tag_heap \<Rightarrow> v1_envelope \<times> tag_heap" where
  "convertLog v1e v2e logMessage h =
     (if getV2Tag v2e h ''__v1_type'' = ''Error'' then recoverError v1e v2e logMessage h
      else
        (v1e\<lparr>
           e1_EventType := Some Envelope_LogMessage,
           e1_LogMessage := Some \<lparr>
             lm_Message = lg_Payload logMessage,
             lm_MessageType = Some (messageType logMessage),
             lm_Timestamp = Some (e2_Timestamp v2e),
             lm_AppId = Some (e2_SourceId v2e),
             lm_SourceType = Some (getV2Tag v2e h ''source_type''),
             lm_SourceInstance = Some (e2_InstanceId v2e)\<rparr>\<rparr>,
         delete_tags v1e [''source_type''] h))"

definition convertCounter :: "v1_envelope \<Rightarrow> v2_counter \<Rightarrow> v1_envelope" where
  "convertCounter v1e counterEvent =
     v1e\<lparr>
       e1_EventType := Some Envelope_CounterEvent,
       e1_CounterEvent := Some \<lparr>
         ce_Name = Some (ct_Name counterEvent),
         ce_Delta = Some 0,
         ce_Total = Some (GetTotal (ct_Value counterEvent))\<rparr>\<rparr>"

text \<open>The results of a float conversion out of range, which Go leaves to the implementation.\<close>

record float_impl =
  impl_uint64 :: "float64 \<Rightarrow> uint64"
  impl_int32 :: "float64 \<Rightarrow> int"

definition required_metrics :: "string list" where
  "required_metrics = [''instance_index'', ''cpu'', ''memory'', ''disk'', ''memory_quota'', ''disk_quota'']"

text \<open>\<open>gaugeEvent.Metrics[k].Value\<close> for a key whose value is known not to be nil.\<close>

definition metric_value :: "v2_gauge \<Rightarrow> string \<Rightarrow> float64" where
  "metric_value g k =
     (case mget (gg_Metrics g) k of Some (Some v) \<Rightarrow> gv_Value v | _ \<Rightarrow> Finite False 0)"

definition tryConvertContainerMetric ::
    "float_impl \<Rightarrow> v2_envelope \<Rightarrow> v2_gauge \<Rightarrow> tag_heap \<Rightarrow> v1_envelope option \<times> tag_heap" where
  "tryConvertContainerMetric fi v2e g h =
     (let (v1e, h1) = createBaseV1 v2e h
      in if length (gg_Metrics g) = 1 then (None, h1)
         else if \<exists>req \<in> set required_metrics. mget (gg_Metrics g) req \<in> {None, Some None}
         then (None, h1)
         else
           (Some (v1e\<lparr>
              e1_EventType := Some Envelope_ContainerMetric,
              e1_ContainerMetric := Some \<lparr>
                cm_ApplicationId = Some (e2_SourceId v2e),
                cm_InstanceIndex = Some (int32_of_float64 (impl_int32 fi) (metric_value g ''instance_index'')),
                cm_CpuPercentage = Some (metric_value g ''cpu''),
                cm_MemoryBytes = Some (uint64_of_float64 (impl_uint64 fi) (metric_value g ''memory'')),
                cm_DiskBytes = Some (uint64_of_float64 (impl_uint64 fi) (metric_value g ''disk'')),
                cm_MemoryBytesQuota = Some (uint64_of_float64 (impl_uint64 fi) (metric_value g ''memory_quota'')),
                cm_DiskBytesQuota = Some (uint64_of_float64 (impl_uint64 fi) (metric_value g ''disk_quota''))\<rparr>\<rparr>),
            h1))"

definition extractGaugeValues :: "gauge_value option \<Rightarrow> (string \<times> float64) option" where
  "extractGaugeValues metric = (case metric of None \<Rightarrow> None | Some m \<Rightarrow> Some (gv_Unit m, gv_Value m))"

text \<open>The loop of \<open>convertGauge\<close>: a nil metric makes the whole result nil.\<close>

fun convertGaugeMetrics ::
    "v2_envelope \<Rightarrow> (string \<times> gauge_value option) list \<Rightarrow> v1_envelope list \<Rightarrow> tag_heap
      \<Rightarrow> v1_envelope list \<times> tag_heap" where
  "convertGaugeMetrics v2e [] results h = (results, h)"
| "convertGaugeMetrics v2e ((key, metric) # ms) results h =
     (let (v1e, h1) = createBaseV1 v2e h
      in case extractGaugeValues metric of
           None \<Rightarrow> ([], h1)
         | Some (unit, value) \<Rightarrow>
             convertGaugeMetrics v2e ms
               (results @ [v1e\<lparr>
                  e1_EventType := Some Envelope_ValueMetric,
                  e1_ValueMetric := Some \<lparr>vm_Name = Some key, vm_Unit = Some unit, vm_Value = Some value\<rparr>\<rparr>])
               h1)"

definition convertGauge ::
    "float_impl \<Rightarrow> v2_envelope \<Rightarrow> v2_gauge \<Rightarrow> tag_heap \<Rightarrow> v1_envelope list \<times> tag_heap" where
  "convertGauge fi v2e g h =
     (case tryConvertContainerMetric fi v2e g h of
        (Some v1e, h1) \<Rightarrow> ([v1e], h1)
      | (None, h1) \<Rightarrow> convertGaugeMetrics v2e (gg_Metrics g) [] h1)"

definition ToV1 ::
    "events_pkg \<Rightarrow> float_impl \<Rightarrow> v2_envelope \<Rightarrow> tag_heap \<Rightarrow> v1_envelope list \<times> tag_heap" where
  "ToV1 pkg fi e h =
     (let (v1e, h1) = createBaseV1 e h
      in case e2_Message e of
           Some (Envelope_Log l) \<Rightarrow> (let (v, h2) = convertLog v1e e l h1 in ([v], h2))
         | Some (Envelope_Counter c) \<Rightarrow> ([convertCounter v1e c], h1)
         | Some (Envelope_Gauge g) \<Rightarrow> convertGauge fi e g h1
         | Some (Envelope_Timer t) \<Rightarrow> (let (v, h2) = convertTimer pkg v1e e t h1 in ([v], h2))
         | None \<Rightarrow> ([], h1))"

section \<open>Towards version 2\<close>

text \<open>A tag value as \<open>setV2Tag\<close> takes it, and its \<open>"%v"\<close> form.\<close>

datatype tag_value = TagString string | TagInt int

fun format_v :: "tag_value \<Rightarrow> string" where
  "format_v (TagString s) = s"
| "format_v (TagInt i) = itoa i"

definition valueText :: "string \<Rightarrow> v2_value" where
  "valueText s = \<lparr>v2_Data = Some (Value_Text s)\<rparr>"

text \<open>
  \<open>setV2Tag\<close> writes into a map that \<open>initTags\<close> has made: the branches for a nil map, where
  Go panics, leave the envelope as it is and are shown not to be taken.
\<close>

definition setV2Tag ::
    "bool \<Rightarrow> string \<Rightarrow> tag_value \<Rightarrow> v2_envelope \<times> tag_heap \<Rightarrow> v2_envelope \<times> tag_heap" where
  "setV2Tag usePreferredTags key value st =
     (let (e, h) = st
      in if usePreferredTags then
           (case e2_Tags e of None \<Rightarrow> (e, h) | Some r \<Rightarrow> (e, hput r key (format_v value) h))
         else
           (case e2_DeprecatedTags e of
              None \<Rightarrow> (e, h)
            | Some m \<Rightarrow>
                (e\<lparr>e2_DeprecatedTags := Some (mput key (Some (valueText (format_v value))) m)\<rparr>, h)))"

definition unsetV2Tag :: "string \<Rightarrow> v2_envelope \<times> tag_heap \<Rightarrow> v2_envelope \<times> tag_heap" where
  "unsetV2Tag key st =
     (let (e, h) = st
      in (e\<lparr>e2_DeprecatedTags := map_option (mdel key) (e2_DeprecatedTags e)\<rparr>,
          case e2_Tags e of None \<Rightarrow> h | Some r \<Rightarrow> hdel r key h))"

definition initTags ::
    "v1_envelope \<Rightarrow> bool \<Rightarrow> v2_envelope \<times> tag_heap \<Rightarrow> v2_envelope \<times> tag_heap" where
  "initTags v1e usePreferredTags st =
     (let (v2e, h) = st
      in if usePreferredTags then
           (case e1_Tags v1e of
              Some r \<Rightarrow> (v2e\<lparr>e2_Tags := Some r\<rparr>, h)
            | None \<Rightarrow> (let (r, h1) = hmake h in (v2e\<lparr>e2_Tags := Some r\<rparr>, h1)))
         else
           fold (\<lambda>(k, v). setV2Tag usePreferredTags k (TagString v)) (tags_at h (e1_Tags v1e))
             (v2e\<lparr>e2_DeprecatedTags := Some []\<rparr>, h))"

definition uuidToString :: "uuid option \<Rightarrow> string" where
  "uuidToString u =
     (let low = le_bytes 8 (unat (case u of None \<Rightarrow> 0 | Some x \<Rightarrow> getU (uuid_Low x)));
          high = le_bytes 8 (unat (case u of None \<Rightarrow> 0 | Some x \<Rightarrow> getU (uuid_High x)))
      in hex_encode (slice 0 4 low) @ ''-'' @ hex_encode (slice 4 6 low) @ ''-'' @
         hex_encode (drop 6 low) @ ''-'' @ hex_encode (slice 0 2 high) @ ''-'' @
         hex_encode (drop 2 high))"

definition convertAppUUID :: "uuid option \<Rightarrow> string \<Rightarrow> string" where
  "convertAppUUID appID sourceID =
     (if (case appID of None \<Rightarrow> True | Some u \<Rightarrow> getU (uuid_Low u) = 0 \<and> getU (uuid_High u) = 0)
      then sourceID else uuidToString appID)"

definition convertAppID :: "string \<Rightarrow> string \<Rightarrow> string" where
  "convertAppID appID sourceID = (if appID = [] then sourceID else appID)"

definition convertError ::
    "error_event option \<Rightarrow> bool \<Rightarrow> v2_envelope \<times> tag_heap \<Rightarrow> v2_envelope \<times> tag_heap" where
  "convertError t usePreferredTags st =
     (let src = (case t of None \<Rightarrow> [] | Some x \<Rightarrow> getS (er_Source x));
          code = (case t of None \<Rightarrow> 0 | Some x \<Rightarrow> getI (er_Code x));
          msg = (case t of None \<Rightarrow> [] | Some x \<Rightarrow> getS (er_Message x));
          (v2e, h) = setV2Tag usePreferredTags ''code'' (TagInt code)
                       (setV2Tag usePreferredTags ''source'' (TagString src) st)
      in (v2e\<lparr>e2_Message := Some (Envelope_Log \<lparr>lg_Payload = msg, lg_Type = Log_OUT\<rparr>)\<rparr>, h))"

definition empty_http :: http_start_stop where
  "empty_http = \<lparr>hs_StartTimestamp = None, hs_StopTimestamp = None, hs_RequestId = None,
     hs_ApplicationId = None, hs_PeerType = None, hs_Method = None, hs_Uri = None,
     hs_RemoteAddress = None, hs_UserAgent = None, hs_StatusCode = None,
     hs_ContentLength = None, hs_InstanceIndex = None, hs_InstanceId = None, hs_Forwarded = []\<rparr>"

text \<open>The eleven \<open>setV2Tag\<close> calls of \<open>convertHTTPStartStop\<close>, in order.\<close>

definition http_tags :: "events_pkg \<Rightarrow> http_start_stop \<Rightarrow> (string \<times> tag_value) list" where
  "http_tags pkg t =
     [(''request_id'', TagString (uuidToString (hs_RequestId t))),
      (''peer_type'', TagString (enum_string (PeerType_name pkg)
         (case hs_PeerType t of None \<Rightarrow> default_PeerType pkg | Some i \<Rightarrow> i))),
      (''method'', TagString (enum_string (Method_name pkg)
         (case hs_Method t of None \<Rightarrow> default_Method pkg | Some i \<Rightarrow> i))),
      (''uri'', TagString (getS (hs_Uri t))),
      (''remote_address'', TagString (getS (hs_RemoteAddress t))),
      (''user_agent'', TagString (getS (hs_UserAgent t))),
      (''status_code'', TagInt (getI (hs_StatusCode t))),
      (''content_length'', TagInt (getI (hs_ContentLength t))),
      (''instance_index'', TagInt (getI (hs_InstanceIndex t))),
      (''routing_instance_id'', TagString (getS (hs_InstanceId t))),
      (''forwarded'', TagString (join_with [newline] (hs_Forwarded t)))]"

definition convertHTTPStartStop ::
    "events_pkg \<Rightarrow> http_start_stop option \<Rightarrow> bool \<Rightarrow> v2_envelope \<times> tag_heap \<Rightarrow> v2_envelope \<times> tag_heap" where
  "convertHTTPStartStop pkg t0 usePreferredTags st =
     (let t = (case t0 of None \<Rightarrow> empty_http | Some x \<Rightarrow> x);
          (v2e, h) = st;
          v2e' = v2e\<lparr>
            e2_SourceId := convertAppUUID (hs_ApplicationId t) (e2_SourceId v2e),
            e2_Message := Some (Envelope_Timer \<lparr>
              tm_Name = ''http'',
              tm_Start = getI (hs_StartTimestamp t),
              tm_Stop = getI (hs_StopTimestamp t)\<rparr>)\<rparr>
      in fold (\<lambda>(k, v). setV2Tag usePreferredTags k v) (http_tags pkg t) (v2e', h))"

definition convertLogMessageType :: "log_type \<Rightarrow> log_type_v2" where
  "convertLogMessageType t = Log_Type_value (LogMessage_MessageType_name t)"

definition convertLogMessage ::
    "events_pkg \<Rightarrow> log_message option \<Rightarrow> bool \<Rightarrow> v2_envelope \<times> tag_heap \<Rightarrow> v2_envelope \<times> tag_heap" where
  "convertLogMessage pkg t usePreferredTags st =
     (let (v2e, h) = setV2Tag usePreferredTags ''source_type''
            (TagString (case t of None \<Rightarrow> [] | Some x \<Rightarrow> getS (lm_SourceType x))) st
      in (v2e\<lparr>
            e2_InstanceId := (case t of None \<Rightarrow> [] | Some x \<Rightarrow> getS (lm_SourceInstance x)),
            e2_SourceId := convertAppID (case t of None \<Rightarrow> [] | Some x \<Rightarrow> getS (lm_AppId x)) (e2_SourceId v2e),
            e2_Message := Some (Envelope_Log \<lparr>
              lg_Payload = (case t of None \<Rightarrow> [] | Some x \<Rightarrow> lm_Message x),
              lg_Type = convertLogMessageType
                (case t of None \<Rightarrow> default_MessageType pkg
                 | Some x \<Rightarrow> (case lm_MessageType x of None \<Rightarrow> default_MessageType pkg | Some m \<Rightarrow> m))\<rparr>)\<rparr>,
          h))"

definition convertValueMetric :: "value_metric option \<Rightarrow> v2_envelope \<Rightarrow> v2_envelope" where
  "convertValueMetric t v2e =
     v2e\<lparr>e2_Message := Some (Envelope_Gauge \<lparr>gg_Metrics =
       [(case t of None \<Rightarrow> [] | Some x \<Rightarrow> getS (vm_Name x),
         Some \<lparr>gv_Unit = (case t of None \<Rightarrow> [] | Some x \<Rightarrow> getS (vm_Unit x)),
               gv_Value = (case t of None \<Rightarrow> Finite False 0 | Some x \<Rightarrow> getF (vm_Value x))\<rparr>)]\<rparr>)\<rparr>"

definition convertCounterEvent :: "counter_event option \<Rightarrow> v2_envelope \<Rightarrow> v2_envelope" where
  "convertCounterEvent t v2e =
     v2e\<lparr>e2_Message := Some (Envelope_Counter \<lparr>
       ct_Name = (case t of None \<Rightarrow> [] | Some x \<Rightarrow> getS (ce_Name x)),
       ct_Value = Some (Counter_Total (case t of None \<Rightarrow> 0 | Some x \<Rightarrow> getU (ce_Total x)))\<rparr>)\<rparr>"

definition container_metrics :: "container_metric option \<Rightarrow> (string, gauge_value option) gomap" where
  "container_metrics t =
     (let u = (\<lambda>f. case t of None \<Rightarrow> 0 | Some x \<Rightarrow> getU (f x))
      in [(''instance_index'', Some \<lparr>gv_Unit = ''index'',
             gv_Value = float64_of_int32 (case t of None \<Rightarrow> 0 | Some x \<Rightarrow> getI (cm_InstanceIndex x))\<rparr>),
          (''cpu'', Some \<lparr>gv_Unit = ''percentage'',
             gv_Value = (case t of None \<Rightarrow> Finite False 0 | Some x \<Rightarrow> getF (cm_CpuPercentage x))\<rparr>),
          (''memory'', Some \<lparr>gv_Unit = ''bytes'', gv_Value = float64_of_uint64 (u cm_MemoryBytes)\<rparr>),
          (''disk'', Some \<lparr>gv_Unit = ''bytes'', gv_Value = float64_of_uint64 (u cm_DiskBytes)\<rparr>),
          (''memory_quota'', Some \<lparr>gv_Unit = ''bytes'', gv_Value = float64_of_uint64 (u cm_MemoryBytesQuota)\<rparr>),
          (''disk_quota'', Some \<lparr>gv_Unit = ''bytes'', gv_Value = float64_of_uint64 (u cm_DiskBytesQuota)\<rparr>)])"

definition convertContainerMetric :: "container_metric option \<Rightarrow> v2_envelope \<Rightarrow> v2_envelope" where
  "convertContainerMetric t v2e =
     v2e\<lparr>e2_SourceId := convertAppID (case t of None \<Rightarrow> [] | Some x \<Rightarrow> getS (cm_ApplicationId x)) (e2_SourceId v2e),
         e2_Message := Some (Envelope_Gauge \<lparr>gg_Metrics = container_metrics t\<rparr>)\<rparr>"

text \<open>The part of \<open>ToV2\<close> before its \<open>switch\<close>: the base tags, the source and the instance.\<close>

definition base_tags :: "events_pkg \<Rightarrow> v1_envelope \<Rightarrow> (string \<times> tag_value) list" where
  "base_tags pkg e =
     [(''origin'', TagString (getS (e1_Origin e))),
      (''deployment'', TagString (getS (e1_Deployment e))),
      (''job'', TagString (getS (e1_Job e))),
      (''index'', TagString (getS (e1_Index e))),
      (''ip'', TagString (getS (e1_Ip e))),
      (''__v1_type'', TagString (event_type_string (GetEventType pkg e)))]"

definition baseV2 ::
    "events_pkg \<Rightarrow> v1_envelope \<Rightarrow> bool \<Rightarrow> tag_heap \<Rightarrow> v2_envelope \<times> tag_heap" where
  "baseV2 pkg e usePreferredTags h =
     (let v2e0 = \<lparr>e2_Timestamp = getI (e1_Timestamp e), e2_SourceId = [], e2_InstanceId = [],
                  e2_DeprecatedTags = None, e2_Tags = None, e2_Message = None\<rparr>;
          (v2e1, h1) = fold (\<lambda>(k, v). setV2Tag usePreferredTags k v) (base_tags pkg e)
                         (initTags e usePreferredTags (v2e0, h));
          v2e2 = v2e1\<lparr>e2_SourceId :=
                   (case mget (tags_at h1 (e1_Tags e)) ''source_id'' of
                      Some s \<Rightarrow> s
                    | None \<Rightarrow> getS (e1_Deployment e) @ ''/'' @ getS (e1_Job e))\<rparr>;
          (v2e3, h3) = unsetV2Tag ''source_id'' (v2e2, h1);
          v2e4 = v2e3\<lparr>e2_InstanceId := mget_or [] (tags_at h3 (e1_Tags e)) ''instance_id''\<rparr>
      in unsetV2Tag ''instance_id'' (v2e4, h3))"

definition ToV2 ::
    "events_pkg \<Rightarrow> v1_envelope \<Rightarrow> bool \<Rightarrow> tag_heap \<Rightarrow> v2_envelope \<times> tag_heap" where
  "ToV2 pkg e usePreferredTags h =
     (let (v2e, h1) = baseV2 pkg e usePreferredTags h
      in case GetEventType pkg e of
           Envelope_LogMessage \<Rightarrow> convertLogMessage pkg (e1_LogMessage e) usePreferredTags (v2e, h1)
         | Envelope_HttpStartStop \<Rightarrow> convertHTTPStartStop pkg (e1_HttpStartStop e) usePreferredTags (v2e, h1)
         | Envelope_ValueMetric \<Rightarrow> (convertValueMetric (e1_ValueMetric e) v2e, h1)
         | Envelope_CounterEvent \<Rightarrow> (convertCounterEvent (e1_CounterEvent e) v2e, h1)
         | Envelope_Error \<Rightarrow> convertError (e1_Error e) usePreferredTags (v2e, h1)
         | Envelope_ContainerMetric \<Rightarrow> (convertContainerMetric (e1_ContainerMetric e) v2e, h1)
         | Envelope_Other i \<Rightarrow> (v2e, h1))"

end
