(* ===== verification/Conversion_Round_Trip.thy ===== *)
theory Conversion_Round_Trip
  imports Conversion
begin

text \<open>
  What an envelope converted to the other format and back is. The lemmas first compute what a
  tag lookup yields after each conversion step, for both places that carry tags, and then give
  the round trip for each kind of event; for tags carried in the shared \<open>Tags\<close> map they
  also show what the sharing loses.
\<close>

section \<open>Notions for stating the round trips\<close>

text \<open>
  The tag of a v2 envelope as an option, and the condition under which one of the two maps
  is in use: the one that the flag \<open>usePreferredTags\<close> selects.
\<close>

definition v2tag :: "v2_envelope \<Rightarrow> tag_heap \<Rightarrow> string \<Rightarrow> string option" where
  "v2tag e h k =
     (case e2_Tags e of
        Some r \<Rightarrow> mget (hget h r) k
      | None \<Rightarrow>
          (case mget (deprecated_tags e) k of
             Some (Some d) \<Rightarrow> map_option value_text_of (v2_Data d)
           | _ \<Rightarrow> None))"

definition tags_ready :: "bool \<Rightarrow> v2_envelope \<Rightarrow> tag_heap \<Rightarrow> bool" where
  "tags_ready p e h \<longleftrightarrow>
     (if p then e2_DeprecatedTags e = None \<and> (\<exists>r. e2_Tags e = Some r \<and> r < length h)
      else e2_Tags e = None \<and> (\<exists>m. e2_DeprecatedTags e = Some m \<and> wf_map m))"

definition opt_text :: "string option \<Rightarrow> string" where
  "opt_text x = (case x of None \<Rightarrow> [] | Some s \<Rightarrow> s)"

text \<open>
  A sequence of \<open>setV2Tag\<close> calls: the last value written under a key is the one found. The
  first argument collects what the calls leave alone.
\<close>

definition same_frame :: "v2_envelope \<Rightarrow> tag_heap \<Rightarrow> v2_envelope \<Rightarrow> tag_heap \<Rightarrow> bool" where
  "same_frame e h e' h' \<longleftrightarrow>
     e2_Timestamp e' = e2_Timestamp e \<and> e2_SourceId e' = e2_SourceId e \<and>
     e2_InstanceId e' = e2_InstanceId e \<and> e2_Message e' = e2_Message e \<and>
     e2_Tags e' = e2_Tags e \<and> length h' = length h \<and> (wf_heap h \<longrightarrow> wf_heap h') \<and>
     (\<forall>a. e2_Tags e \<noteq> Some a \<longrightarrow> hget h' a = hget h a)"

text \<open>The source and the instance that the common part of \<open>ToV2\<close> gives an envelope.\<close>

definition base_source :: "v1_envelope \<Rightarrow> tag_heap \<Rightarrow> string" where
  "base_source e h =
     (case mget (tags_at h (e1_Tags e)) ''source_id'' of
        Some s \<Rightarrow> s | None \<Rightarrow> getS (e1_Deployment e) @ ''/'' @ getS (e1_Job e))"

definition base_instance :: "v1_envelope \<Rightarrow> tag_heap \<Rightarrow> string" where
  "base_instance e h = opt_text (mget (tags_at h (e1_Tags e)) ''instance_id'')"

definition dep_text :: "v2_value option option \<Rightarrow> string option" where
  "dep_text x = (case x of Some (Some d) \<Rightarrow> map_option value_text_of (v2_Data d) | _ \<Rightarrow> None)"

text \<open>The envelope that \<open>createBaseV1\<close> fills in, and the address of its tags.\<close>

definition base_v1 :: "v2_envelope \<Rightarrow> tag_heap \<Rightarrow> nat \<Rightarrow> v1_envelope" where
  "base_v1 e h r = empty_v1\<lparr>
     e1_Origin := Some (opt_text (v2tag e h ''origin'')),
     e1_Deployment := Some (opt_text (v2tag e h ''deployment'')),
     e1_Job := Some (opt_text (v2tag e h ''job'')),
     e1_Index := Some (opt_text (v2tag e h ''index'')),
     e1_Timestamp := Some (e2_Timestamp e),
     e1_Ip := Some (opt_text (v2tag e h ''ip'')),
     e1_Tags := Some r\<rparr>"

definition tags_ref :: "v2_envelope \<Rightarrow> tag_heap \<Rightarrow> nat" where
  "tags_ref e h = (case e2_Tags e of Some r \<Rightarrow> r | None \<Rightarrow> length h)"

definition base_lookup :: "v2_envelope \<Rightarrow> tag_heap \<Rightarrow> string \<Rightarrow> string option" where
  "base_lookup e h x =
     (if x = ''instance_id'' \<and> e2_InstanceId e \<noteq> [] then Some (e2_InstanceId e)
      else if x = ''source_id'' \<and> e2_SourceId e \<noteq> [] then Some (e2_SourceId e)
      else if x \<in> set base_tag_names then None
      else v2tag e h x)"

text \<open>The tags, the source and the instance that the branch for the event type adds.\<close>

definition event_tags :: "events_pkg \<Rightarrow> v1_envelope \<Rightarrow> (string \<times> tag_value) list" where
  "event_tags pkg e =
     (case GetEventType pkg e of
        Envelope_LogMessage \<Rightarrow>
          [(''source_type'', TagString (case e1_LogMessage e of None \<Rightarrow> [] | Some x \<Rightarrow> getS (lm_SourceType x)))]
      | Envelope_HttpStartStop \<Rightarrow>
          http_tags pkg (case e1_HttpStartStop e of None \<Rightarrow> empty_http | Some x \<Rightarrow> x)
      | Envelope_Error \<Rightarrow>
          [(''source'', TagString (case e1_Error e of None \<Rightarrow> [] | Some x \<Rightarrow> getS (er_Source x))),
           (''code'', TagInt (case e1_Error e of None \<Rightarrow> 0 | Some x \<Rightarrow> getI (er_Code x)))]
      | _ \<Rightarrow> [])"

definition event_source :: "events_pkg \<Rightarrow> v1_envelope \<Rightarrow> tag_heap \<Rightarrow> string" where
  "event_source pkg e h =
     (case GetEventType pkg e of
        Envelope_LogMessage \<Rightarrow>
          convertAppID (case e1_LogMessage e of None \<Rightarrow> [] | Some x \<Rightarrow> getS (lm_AppId x)) (base_source e h)
      | Envelope_HttpStartStop \<Rightarrow>
          convertAppUUID (hs_ApplicationId (case e1_HttpStartStop e of None \<Rightarrow> empty_http | Some x \<Rightarrow> x))
            (base_source e h)
      | Envelope_ContainerMetric \<Rightarrow>
          convertAppID (case e1_ContainerMetric e of None \<Rightarrow> [] | Some x \<Rightarrow> getS (cm_ApplicationId x))
            (base_source e h)
      | _ \<Rightarrow> base_source e h)"

definition event_instance :: "events_pkg \<Rightarrow> v1_envelope \<Rightarrow> tag_heap \<Rightarrow> string" where
  "event_instance pkg e h =
     (case GetEventType pkg e of
        Envelope_LogMessage \<Rightarrow> (case e1_LogMessage e of None \<Rightarrow> [] | Some x \<Rightarrow> getS (lm_SourceInstance x))
      | _ \<Rightarrow> base_instance e h)"

definition v2_lookup :: "events_pkg \<Rightarrow> v1_envelope \<Rightarrow> tag_heap \<Rightarrow> string \<Rightarrow> string option" where
  "v2_lookup pkg e h x =
     (case map_of (rev (event_tags pkg e)) x of
        Some v \<Rightarrow> Some (format_v v)
      | None \<Rightarrow>
          if x = ''source_id'' \<or> x = ''instance_id'' then None
          else case map_of (rev (base_tags pkg e)) x of
                 Some v \<Rightarrow> Some (format_v v) | None \<Rightarrow> mget (tags_at h (e1_Tags e)) x)"

definition v2_result ::
    "events_pkg \<Rightarrow> v1_envelope \<Rightarrow> bool \<Rightarrow> tag_heap \<Rightarrow> v2_envelope \<Rightarrow> tag_heap \<Rightarrow> bool" where
  "v2_result pkg e p h e' h' \<longleftrightarrow>
     tags_ready p e' h' \<and> wf_heap h' \<and> length h \<le> length h' \<and>
     e2_Timestamp e' = getI (e1_Timestamp e) \<and>
     e2_SourceId e' = event_source pkg e h \<and> e2_InstanceId e' = event_instance pkg e h \<and>
     (\<forall>x. v2tag e' h' x = v2_lookup pkg e h x) \<and>
     (p \<longrightarrow> e2_Tags e' = Some (case e1_Tags e of Some r \<Rightarrow> r | None \<Rightarrow> length h)) \<and>
     (\<forall>a < length h. (p \<longrightarrow> e1_Tags e \<noteq> Some a) \<longrightarrow> hget h' a = hget h a)"

text \<open>
  An envelope converted to v2 and back, as on its way from a v1 client through v2 hops. The
  envelope \<open>v1_base\<close> is what the common part of the way back fills in; \<open>hop_lookup\<close> is
  what a tag of the result is found to be.
\<close>

definition hop ::
    "events_pkg \<Rightarrow> float_impl \<Rightarrow> bool \<Rightarrow> v1_envelope \<Rightarrow> tag_heap \<Rightarrow> v1_envelope list \<times> tag_heap" where
  "hop pkg fi p e h = (let (e2, h2) = ToV2 pkg e p h in ToV1 pkg fi e2 h2)"

definition v1_base :: "v1_envelope \<Rightarrow> nat \<Rightarrow> v1_envelope" where
  "v1_base e r = empty_v1\<lparr>
     e1_Origin := Some (getS (e1_Origin e)), e1_Deployment := Some (getS (e1_Deployment e)),
     e1_Job := Some (getS (e1_Job e)), e1_Index := Some (getS (e1_Index e)),
     e1_Timestamp := Some (getI (e1_Timestamp e)), e1_Ip := Some (getS (e1_Ip e)),
     e1_Tags := Some r\<rparr>"

definition nonempty :: "string \<Rightarrow> string option" where
  "nonempty s = (if s = [] then None else Some s)"

definition hop_lookup :: "events_pkg \<Rightarrow> v1_envelope \<Rightarrow> tag_heap \<Rightarrow> string \<Rightarrow> string option" where
  "hop_lookup pkg e h x =
     (if x = ''instance_id'' then nonempty (event_instance pkg e h)
      else if x = ''source_id'' then nonempty (event_source pkg e h)
      else if x \<in> set base_tag_names \<or> x \<in> fst ` set (event_tags pkg e) then None
      else mget (tags_at h (e1_Tags e)) x)"

text \<open>Repeated runs of \<open>createBaseV1\<close> on one envelope, as the conversion of a gauge makes them.\<close>

definition based :: "bool \<Rightarrow> v2_envelope \<Rightarrow> tag_heap \<Rightarrow> tag_heap \<Rightarrow> bool" where
  "based p e h0 h \<longleftrightarrow> tags_ready p e h \<and> wf_heap h \<and>
     (\<forall>x. v2tag e h x = (if p then base_lookup e h0 x else v2tag e h0 x))"

definition typed_http :: "events_pkg \<Rightarrow> http_start_stop \<Rightarrow> bool" where
  "typed_http pkg t \<longleftrightarrow>
     hs_StartTimestamp t \<noteq> None \<and> hs_StopTimestamp t \<noteq> None \<and>
     (\<exists>l u. hs_RequestId t = Some \<lparr>uuid_Low = Some l, uuid_High = Some u\<rparr>) \<and>
     (\<exists>l u. hs_ApplicationId t = Some \<lparr>uuid_Low = Some l, uuid_High = Some u\<rparr> \<and> (l \<noteq> 0 \<or> u \<noteq> 0)) \<and>
     (\<exists>i \<in> fst ` set (PeerType_name pkg). hs_PeerType t = Some i) \<and>
     (\<exists>i \<in> fst ` set (Method_name pkg). hs_Method t = Some i) \<and>
     hs_Uri t \<noteq> None \<and> hs_RemoteAddress t \<noteq> None \<and> hs_UserAgent t \<noteq> None \<and>
     (\<exists>i. hs_StatusCode t = Some i \<and> is_int32 i) \<and>
     (\<exists>i. hs_ContentLength t = Some i \<and> is_int64 i) \<and>
     (\<exists>i. hs_InstanceIndex t = Some i \<and> is_int32 i) \<and>
     hs_InstanceId t \<noteq> None \<and>
     hs_Forwarded t \<noteq> [] \<and> (\<forall>s \<in> set (hs_Forwarded t). newline \<notin> set s)"

text \<open>
  A gauge makes the base envelope again for each result, each time from the tags as the run
  before left them: without effect for deprecated tags, but not for tags in the shared map.
\<close>

definition bare_v1 :: "v1_envelope \<Rightarrow> nat \<Rightarrow> v1_envelope" where
  "bare_v1 e r = empty_v1\<lparr>
     e1_Origin := Some [], e1_Deployment := Some [], e1_Job := Some [], e1_Index := Some [],
     e1_Timestamp := Some (getI (e1_Timestamp e)), e1_Ip := Some [], e1_Tags := Some r\<rparr>"

definition again_v1 :: "bool \<Rightarrow> v1_envelope \<Rightarrow> nat \<Rightarrow> v1_envelope" where
  "again_v1 p e r = (if p then bare_v1 e r else v1_base e r)"

definition typed_container :: "container_metric \<Rightarrow> bool" where
  "typed_container c \<longleftrightarrow>
     (\<exists>i. cm_InstanceIndex c = Some i \<and> is_int32 i) \<and> cm_CpuPercentage c \<noteq> None \<and>
     (\<exists>w. cm_MemoryBytes c = Some w \<and> unat w < 2 ^ 53) \<and>
     (\<exists>w. cm_DiskBytes c = Some w \<and> unat w < 2 ^ 53) \<and>
     (\<exists>w. cm_MemoryBytesQuota c = Some w \<and> unat w < 2 ^ 53) \<and>
     (\<exists>w. cm_DiskBytesQuota c = Some w \<and> unat w < 2 ^ 53)"

text \<open>Concrete envelopes for the witnesses.\<close>

definition sample_pkg :: events_pkg where
  "sample_pkg = \<lparr>default_EventType = Envelope_HttpStartStop, default_MessageType = LogMessage_OUT,
     default_Method = 1, default_PeerType = 1,
     Method_name = [(1, ''GET''), (2, ''POST'')], Method_value = [(''GET'', 1), (''POST'', 2)],
     PeerType_name = [(1, ''Client''), (2, ''Server'')],
     PeerType_value = [(''Client'', 1), (''Server'', 2)]\<rparr>"

definition sample_impl :: float_impl where
  "sample_impl = \<lparr>impl_uint64 = (\<lambda>_. 0), impl_int32 = (\<lambda>_. 0)\<rparr>"

definition sample_heap :: tag_heap where
  "sample_heap = [[(''zone'', ''z1''), (''instance_id'', ''7'')]]"

definition sample_v1 :: v1_envelope where
  "sample_v1 = empty_v1\<lparr>e1_Origin := Some ''gorouter'', e1_Deployment := Some ''cf'', e1_Job := Some ''router'',
     e1_Timestamp := Some 99, e1_Tags := Some 0\<rparr>"

definition sample_log :: v1_envelope where
  "sample_log = sample_v1\<lparr>e1_EventType := Some Envelope_LogMessage,
     e1_LogMessage := Some \<lparr>lm_Message = ''hello'', lm_MessageType = Some LogMessage_ERR,
       lm_Timestamp = Some 5, lm_AppId = Some ''app'', lm_SourceType = Some ''RTR'', lm_SourceInstance = None\<rparr>\<rparr>"

definition sample_timer :: http_start_stop where
  "sample_timer = \<lparr>hs_StartTimestamp = Some 1, hs_StopTimestamp = Some 2,
     hs_RequestId = Some \<lparr>uuid_Low = Some 7, uuid_High = Some 8\<rparr>,
     hs_ApplicationId = Some \<lparr>uuid_Low = Some 0, uuid_High = Some 9\<rparr>,
     hs_PeerType = Some 2, hs_Method = Some 1, hs_Uri = Some ''/'', hs_RemoteAddress = Some ''ip'',
     hs_UserAgent = Some ''ua'', hs_StatusCode = Some 200, hs_ContentLength = Some (- 1),
     hs_InstanceIndex = Some 3, hs_InstanceId = Some ''i'', hs_Forwarded = [''a'', ''b'']\<rparr>"

definition sample_http :: v1_envelope where
  "sample_http = sample_v1\<lparr>e1_EventType := Some Envelope_HttpStartStop, e1_HttpStartStop := Some sample_timer\<rparr>"

definition sample_error :: v1_envelope where
  "sample_error = sample_v1\<lparr>e1_EventType := Some Envelope_Error,
     e1_Error := Some \<lparr>er_Source = Some ''src'', er_Code = Some (- 5), er_Message = Some ''boom''\<rparr>\<rparr>"

definition sample_counter :: v1_envelope where
  "sample_counter = sample_v1\<lparr>e1_EventType := Some Envelope_CounterEvent,
     e1_CounterEvent := Some \<lparr>ce_Name = Some ''requests'', ce_Delta = Some 3, ce_Total = Some 40\<rparr>\<rparr>"

definition sample_value :: v1_envelope where
  "sample_value = sample_v1\<lparr>e1_EventType := Some Envelope_ValueMetric,
     e1_ValueMetric := Some \<lparr>vm_Name = Some ''load'', vm_Unit = Some ''percent'', vm_Value = Some NaN\<rparr>\<rparr>"

definition sample_container_metric :: container_metric where
  "sample_container_metric = \<lparr>cm_ApplicationId = Some ''app'', cm_InstanceIndex = Some 1,
     cm_CpuPercentage = Some NaN, cm_MemoryBytes = Some 1024, cm_DiskBytes = Some 2048,
     cm_MemoryBytesQuota = Some 4096, cm_DiskBytesQuota = Some 8192\<rparr>"

definition sample_container :: v1_envelope where
  "sample_container = sample_v1\<lparr>e1_EventType := Some Envelope_ContainerMetric,
     e1_ContainerMetric := Some sample_container_metric\<rparr>"

section \<open>Looking up a tag\<close>

lemma opt_text_simps [simp]: "opt_text None = []" "opt_text (Some s) = s"
  by (simp_all add: opt_text_def)

lemma getV2Tag_ready:
  "tags_ready p e h \<Longrightarrow> getV2Tag e h k = opt_text (v2tag e h k)"
  by (auto simp: getV2Tag_def v2tag_def tags_ready_def tags_at_def deprecated_tags_def opt_text_def
           split: option.splits if_splits)

text \<open>A field update that leaves the two maps alone changes no lookup.\<close>

lemma v2tag_cong:
  "e2_Tags e' = e2_Tags e \<Longrightarrow> e2_DeprecatedTags e' = e2_DeprecatedTags e \<Longrightarrow> v2tag e' h k = v2tag e h k"
  by (auto simp: v2tag_def deprecated_tags_def split: option.split)

lemma tags_ready_cong:
  "e2_Tags e' = e2_Tags e \<Longrightarrow> e2_DeprecatedTags e' = e2_DeprecatedTags e
    \<Longrightarrow> tags_ready p e' h = tags_ready p e h"
  by (simp add: tags_ready_def)

section \<open>Setting and unsetting tags\<close>

lemma setV2Tag_ready:
  assumes "tags_ready p e h" and "setV2Tag p k v (e, h) = (e', h')"
  shows "tags_ready p e' h'"
    and "v2tag e' h' x = (if x = k then Some (format_v v) else v2tag e h x)"
    and "e2_Timestamp e' = e2_Timestamp e" and "e2_SourceId e' = e2_SourceId e"
    and "e2_InstanceId e' = e2_InstanceId e" and "e2_Message e' = e2_Message e"
    and "e2_Tags e' = e2_Tags e" and "length h' = length h"
    and "wf_heap h \<Longrightarrow> wf_heap h'"
    and "e2_Tags e \<noteq> Some a \<Longrightarrow> hget h' a = hget h a"
  using assms
  by (auto simp: tags_ready_def setV2Tag_def v2tag_def deprecated_tags_def valueText_def
           split: if_splits)

lemma unsetV2Tag_ready:
  assumes "tags_ready p e h" and "unsetV2Tag k (e, h) = (e', h')"
  shows "tags_ready p e' h'"
    and "v2tag e' h' x = (if x = k then None else v2tag e h x)"
    and "e2_Timestamp e' = e2_Timestamp e" and "e2_SourceId e' = e2_SourceId e"
    and "e2_InstanceId e' = e2_InstanceId e" and "e2_Message e' = e2_Message e"
    and "e2_Tags e' = e2_Tags e" and "length h' = length h"
    and "wf_heap h \<Longrightarrow> wf_heap h'"
    and "e2_Tags e \<noteq> Some a \<Longrightarrow> hget h' a = hget h a"
  using assms
  by (auto simp: tags_ready_def unsetV2Tag_def v2tag_def deprecated_tags_def
           split: if_splits option.splits)

lemma same_frame_refl [simp]: "same_frame e h e h"
  by (simp add: same_frame_def)

lemma same_frame_trans: "same_frame e h e' h' \<Longrightarrow> same_frame e' h' e'' h'' \<Longrightarrow> same_frame e h e'' h''"
  by (simp add: same_frame_def)

lemma setV2Tag_frame:
  "tags_ready p e h \<Longrightarrow> setV2Tag p k v (e, h) = (e', h') \<Longrightarrow> same_frame e h e' h'"
  unfolding same_frame_def by (auto dest: setV2Tag_ready)

lemma unsetV2Tag_frame:
  "tags_ready p e h \<Longrightarrow> unsetV2Tag k (e, h) = (e', h') \<Longrightarrow> same_frame e h e' h'"
  unfolding same_frame_def by (auto dest: unsetV2Tag_ready)

lemma set_tags_ready:
  assumes "tags_ready p e h"
    and "fold (\<lambda>(k, v). setV2Tag p k v) kvs (e, h) = (e', h')"
  shows "tags_ready p e' h' \<and> same_frame e h e' h' \<and>
    (\<forall>x. v2tag e' h' x = (case map_of (rev kvs) x of Some v \<Rightarrow> Some (format_v v) | None \<Rightarrow> v2tag e h x))"
  using assms
proof (induction kvs arbitrary: e h)
  case Nil
  then show ?case by simp
next
  case (Cons kv kvs)
  obtain k v where kv: "kv = (k, v)" by (cases kv)
  obtain e1 h1 where s: "setV2Tag p k v (e, h) = (e1, h1)" by (cases "setV2Tag p k v (e, h)")
  note first = setV2Tag_ready(1,2)[OF Cons.prems(1) s] setV2Tag_frame[OF Cons.prems(1) s]
  have "tags_ready p e' h' \<and> same_frame e1 h1 e' h' \<and>
    (\<forall>x. v2tag e' h' x = (case map_of (rev kvs) x of Some v \<Rightarrow> Some (format_v v) | None \<Rightarrow> v2tag e1 h1 x))"
    using Cons.IH[OF first(1)] Cons.prems(2) by (simp add: kv s)
  with first show ?case
    by (auto simp: kv map_add_def split: option.split intro: same_frame_trans)
qed

section \<open>The common part of \<open>ToV2\<close>\<close>

lemma initTags_ready:
  assumes "wf_heap h" and "wf_ref h (e1_Tags e)"
    and "e2_DeprecatedTags e0 = None" and "e2_Tags e0 = None"
    and "initTags e p (e0, h) = (e', h')"
  shows "tags_ready p e' h'" and "v2tag e' h' x = mget (tags_at h (e1_Tags e)) x"
    and "e2_Timestamp e' = e2_Timestamp e0" and "wf_heap h'"
    and "p \<Longrightarrow> e1_Tags e = Some r \<Longrightarrow> e2_Tags e' = Some r"
    and "a < length h \<Longrightarrow> hget h' a = hget h a" and "length h \<le> length h'"
    and "p \<Longrightarrow> e1_Tags e = None \<Longrightarrow> e2_Tags e' = Some (length h)"
proof -
  define e0' where "e0' = e0\<lparr>e2_DeprecatedTags := Some []\<rparr>"
  define kvs where "kvs = map (\<lambda>(k, v). (k, TagString v)) (tags_at h (e1_Tags e))"
  have fold_eq: "fold (\<lambda>(k, v). setV2Tag False k (TagString v)) (tags_at h (e1_Tags e)) st =
      fold (\<lambda>(k, v). setV2Tag False k v) kvs st" for st
    by (simp add: kvs_def fold_map comp_def case_prod_unfold)
  have r0: "tags_ready False e0' h" and v0: "v2tag e0' h x = None" and t0: "e2_Tags e0' = None"
    using assms(4) by (simp_all add: e0'_def tags_ready_def v2tag_def deprecated_tags_def)
  have look: "(case map_of (rev kvs) x of Some v \<Rightarrow> Some (format_v v) | None \<Rightarrow> None) =
      mget (tags_at h (e1_Tags e)) x"
  proof -
    have wf: "wf_map kvs"
      using wf_tags_at[OF assms(1)] by (simp add: kvs_def comp_def case_prod_unfold)
    have "map_of (rev kvs) x = map_option TagString (mget (tags_at h (e1_Tags e)) x)"
      using wf by (simp add: mget_rev) (simp add: kvs_def map_of_map)
    then show ?thesis by (simp split: option.split)
  qed
  have F: "fold (\<lambda>(k, v). setV2Tag False k v) kvs (e0', h) = (e', h')" if "\<not> p"
    using assms(5) that by (simp add: initTags_def fold_eq e0'_def)
  note F' = set_tags_ready[OF r0 F]
  show "tags_ready p e' h'"
    using F' assms by (cases p) (auto simp: initTags_def tags_ready_def wf_ref_def hmake_def split: option.splits)
  show "v2tag e' h' x = mget (tags_at h (e1_Tags e)) x"
    using F' assms look v0
    by (cases p) (auto simp: initTags_def v2tag_def hmake_def tags_at_def split: option.splits)
  show "e2_Timestamp e' = e2_Timestamp e0" and "wf_heap h'"
    using F' assms by (cases p; auto simp: initTags_def same_frame_def hmake_def e0'_def split: option.splits)+
  show "a < length h \<Longrightarrow> hget h' a = hget h a"
    using F' assms t0 by (cases p) (auto simp: initTags_def same_frame_def hmake_def split: option.splits)
  show "length h \<le> length h'"
    using F' assms by (cases p) (auto simp: initTags_def same_frame_def hmake_def split: option.splits)
  show "p \<Longrightarrow> e1_Tags e = Some r \<Longrightarrow> e2_Tags e' = Some r"
    "p \<Longrightarrow> e1_Tags e = None \<Longrightarrow> e2_Tags e' = Some (length h)"
    using assms(5) by (auto simp: initTags_def hmake_def)
qed

lemma v2tag_updates [simp]:
  "v2tag (e\<lparr>e2_SourceId := s\<rparr>) h k = v2tag e h k"
  "v2tag (e\<lparr>e2_InstanceId := s\<rparr>) h k = v2tag e h k"
  "v2tag (e\<lparr>e2_Message := m\<rparr>) h k = v2tag e h k"
  by (auto intro: v2tag_cong)

lemma tags_ready_updates [simp]:
  "tags_ready p (e\<lparr>e2_SourceId := s\<rparr>) h = tags_ready p e h"
  "tags_ready p (e\<lparr>e2_InstanceId := s\<rparr>) h = tags_ready p e h"
  "tags_ready p (e\<lparr>e2_Message := m\<rparr>) h = tags_ready p e h"
  by (simp_all add: tags_ready_def)

lemma v1_tags_after:
  assumes "p \<Longrightarrow> e1_Tags e = Some r \<Longrightarrow> e2_Tags e2 = Some r" and "\<not> p \<Longrightarrow> e2_Tags e2 = None"
    and "\<not> p \<Longrightarrow> e1_Tags e = Some r \<Longrightarrow> hget h' r = hget h r"
    and "v2tag e2 h' k = mget (tags_at h (e1_Tags e)) k"
    and "e1_Tags e = Some r \<or> e1_Tags e = None"
  shows "mget (tags_at h' (e1_Tags e)) k = mget (tags_at h (e1_Tags e)) k"
  using assms by (cases p) (auto simp: tags_at_def v2tag_def split: option.splits)

lemma base_tags_lookup:
  "map_of (rev (base_tags pkg e)) k =
     (if k = ''origin'' then Some (TagString (getS (e1_Origin e)))
      else if k = ''deployment'' then Some (TagString (getS (e1_Deployment e)))
      else if k = ''job'' then Some (TagString (getS (e1_Job e)))
      else if k = ''index'' then Some (TagString (getS (e1_Index e)))
      else if k = ''ip'' then Some (TagString (getS (e1_Ip e)))
      else if k = ''__v1_type'' then Some (TagString (event_type_string (GetEventType pkg e)))
      else None)"
  by (simp add: base_tags_def)

lemma baseV2_ready:
  assumes wf: "wf_heap h" "wf_ref h (e1_Tags e)" and run: "baseV2 pkg e p h = (e', h')"
  shows "tags_ready p e' h' \<and> wf_heap h' \<and> length h \<le> length h' \<and>
    e2_Timestamp e' = getI (e1_Timestamp e) \<and>
    e2_SourceId e' = base_source e h \<and> e2_InstanceId e' = base_instance e h \<and>
    (\<forall>x. v2tag e' h' x =
       (if x = ''source_id'' \<or> x = ''instance_id'' then None
        else case map_of (rev (base_tags pkg e)) x of
               Some v \<Rightarrow> Some (format_v v) | None \<Rightarrow> mget (tags_at h (e1_Tags e)) x)) \<and>
    (p \<longrightarrow> e2_Tags e' = Some (case e1_Tags e of Some r \<Rightarrow> r | None \<Rightarrow> length h)) \<and>
    (\<forall>a < length h. (p \<longrightarrow> e1_Tags e \<noteq> Some a) \<longrightarrow> hget h' a = hget h a)"
proof -
  define e0 where "e0 = \<lparr>e2_Timestamp = getI (e1_Timestamp e), e2_SourceId = [], e2_InstanceId = [],
                  e2_DeprecatedTags = None, e2_Tags = None, e2_Message = None\<rparr>"
  obtain ei hi where I: "initTags e p (e0, h) = (ei, hi)" by (cases "initTags e p (e0, h)")
  obtain e1 h1 where S: "fold (\<lambda>(k, v). setV2Tag p k v) (base_tags pkg e) (ei, hi) = (e1, h1)"
    by (cases "fold (\<lambda>(k, v). setV2Tag p k v) (base_tags pkg e) (ei, hi)")
  define e2 where "e2 = e1\<lparr>e2_SourceId := (case mget (tags_at h1 (e1_Tags e)) ''source_id'' of
      Some s \<Rightarrow> s | None \<Rightarrow> getS (e1_Deployment e) @ ''/'' @ getS (e1_Job e))\<rparr>"
  obtain e3 h3 where U: "unsetV2Tag ''source_id'' (e2, h1) = (e3, h3)"
    by (cases "unsetV2Tag ''source_id'' (e2, h1)")
  define e4 where "e4 = e3\<lparr>e2_InstanceId := mget_or [] (tags_at h3 (e1_Tags e)) ''instance_id''\<rparr>"
  have R: "unsetV2Tag ''instance_id'' (e4, h3) = (e', h')"
    using run unfolding baseV2_def Let_def e0_def[symmetric] I S prod.case e2_def[symmetric] U e4_def[symmetric]
    by (simp only: e4_def)
  have z: "e2_DeprecatedTags e0 = None" "e2_Tags e0 = None" "e2_Timestamp e0 = getI (e1_Timestamp e)"
    by (simp_all add: e0_def)
  note i = initTags_ready[OF wf z(1,2) I, unfolded z(3)]
  note s = set_tags_ready[OF i(1) S]
  have t2: "tags_ready p e2 h1" and l2: "\<And>x. v2tag e2 h1 x = v2tag e1 h1 x"
    using conjunct1[OF s] by (simp_all add: e2_def)
  note u = unsetV2Tag_ready[OF t2 U]
  have t4: "tags_ready p e4 h3" and l4: "\<And>x. v2tag e4 h3 x = v2tag e3 h3 x"
    using u(1) by (simp_all add: e4_def)
  note w = unsetV2Tag_ready[OF t4 R]
  have tags: "e2_Tags e1 = e2_Tags ei" "e2_Tags e2 = e2_Tags ei" "e2_Tags e3 = e2_Tags ei"
      "e2_Tags e4 = e2_Tags ei" "e2_Tags e' = e2_Tags ei"
    using s u(7) w(7) by (simp_all add: same_frame_def e2_def e4_def)
  have shared: "p \<Longrightarrow> e1_Tags e = Some r \<Longrightarrow> e2_Tags ei = Some r" for r
    by (rule i(5))
  have nil: "\<not> p \<Longrightarrow> e2_Tags ei = None"
    using i(1) by (simp add: tags_ready_def)
  have keep: "hget h1 a = hget h a" "hget h3 a = hget h a" "hget h' a = hget h a"
    if "a < length h" and "p \<longrightarrow> e1_Tags e \<noteq> Some a" for a
  proof -
    have ne: "e2_Tags ei \<noteq> Some a"
      using that i(8) shared nil by (cases p; cases "e1_Tags e") auto
    show "hget h1 a = hget h a"
      using s i(6)[OF that(1)] ne by (simp add: same_frame_def)
    with u(10)[of a] ne show "hget h3 a = hget h a" by (simp add: tags)
    with w(10)[of a] ne show "hget h' a = hget h a" by (simp add: tags)
  qed
  have one: "v2tag e1 h1 x = mget (tags_at h (e1_Tags e)) x"
      if "x = ''source_id'' \<or> x = ''instance_id''" for x
    using s i(2) that by (auto simp: base_tags_lookup)
  have ref: "e1_Tags e = Some r \<Longrightarrow> r < length h" for r
    using wf(2) by (simp add: wf_ref_def)
  have src: "mget (tags_at h1 (e1_Tags e)) ''source_id'' = mget (tags_at h (e1_Tags e)) ''source_id''"
    by (rule v1_tags_after[where p = p and ?e2.0 = e1 and r = "the (e1_Tags e)"])
       (auto simp: tags shared nil keep ref one)
  have inst: "mget (tags_at h3 (e1_Tags e)) ''instance_id'' = mget (tags_at h (e1_Tags e)) ''instance_id''"
    by (rule v1_tags_after[where p = p and ?e2.0 = e3 and r = "the (e1_Tags e)"])
       (auto simp: tags shared nil keep ref one u(2) l2)
  show ?thesis
    using w s u i src inst keep shared
    by (auto simp: same_frame_def e2_def e4_def base_source_def base_instance_def tags l2 l4
             mget_or_def opt_text_def base_tags_lookup split: option.split)
qed


section \<open>The common part of \<open>ToV1\<close>\<close>

lemma length_put_deprecated [simp]: "length (fold (put_deprecated r) D h) = length h"
  by (induction D arbitrary: h) (auto simp: put_deprecated_def split: option.split)

lemma hget_put_deprecated_other [simp]:
  "a \<noteq> r \<Longrightarrow> hget (fold (put_deprecated r) D h) a = hget h a"
  by (induction D arbitrary: h) (auto simp: put_deprecated_def split: option.split)

lemma wf_put_deprecated [simp]: "wf_heap h \<Longrightarrow> wf_heap (fold (put_deprecated r) D h)"
  by (induction D arbitrary: h) (auto simp: put_deprecated_def split: option.split)

lemma mget_put_deprecated:
  assumes "r < length h" and "wf_map D"
  shows "mget (hget (fold (put_deprecated r) D h) r) k =
    (case dep_text (mget D k) of Some s \<Rightarrow> Some s | None \<Rightarrow> mget (hget h r) k)"
  using assms
proof (induction D arbitrary: h)
  case Nil
  then show ?case by (simp add: dep_text_def)
next
  case (Cons kv D)
  obtain k' v where kv: "kv = (k', v)" by (cases kv)
  have len: "length (put_deprecated r kv h) = length h"
    by (simp add: put_deprecated_def split: option.split)
  have none: "mget D k' = None"
    using Cons.prems(2) by (simp add: kv map_of_eq_None_iff)
  have step: "mget (hget (put_deprecated r kv h) r) k =
      (if k = k' then (case dep_text (Some v) of Some s \<Rightarrow> Some s | None \<Rightarrow> mget (hget h r) k)
       else mget (hget h r) k)"
    using Cons.prems(1) by (auto simp: put_deprecated_def kv dep_text_def split: option.split)
  show ?case
    using Cons.IH[of "put_deprecated r kv h"] Cons.prems none step len
    by (cases "k = k'") (auto simp: kv dep_text_def split: option.split)
qed

lemma convertTags_ready:
  assumes "tags_ready p e h" and "wf_heap h" and "convertTags e h = (r, h')"
  shows "r = tags_ref e h" and "r < length h'" and "mget (hget h' r) x = v2tag e h x"
    and "wf_heap h'" and "a < length h \<Longrightarrow> a \<noteq> r \<Longrightarrow> hget h' a = hget h a" and "length h \<le> length h'"
  using assms
  by (auto simp: convertTags_def tags_ref_def tags_ready_def hmake_def v2tag_def deprecated_tags_def
        mget_put_deprecated dep_text_def split: option.splits if_splits)

lemma createBaseV1_ready:
  assumes ready: "tags_ready p e h" and wf: "wf_heap h" and run: "createBaseV1 e h = (v, h')"
  shows "v = base_v1 e h (tags_ref e h) \<and> tags_ref e h < length h' \<and> wf_heap h' \<and>
    length h \<le> length h' \<and>
    (\<forall>x. mget (hget h' (tags_ref e h)) x = base_lookup e h x) \<and>
    (\<forall>a < length h. a \<noteq> tags_ref e h \<longrightarrow> hget h' a = hget h a) \<and>
    tags_ready p e h' \<and>
    (\<forall>x. v2tag e h' x = (if p then base_lookup e h x else v2tag e h x))"
proof -
  obtain r h1 where C: "convertTags e h = (r, h1)" by (cases "convertTags e h")
  note c = convertTags_ready[OF ready wf C]
  have names: "''instance_id'' \<notin> set base_tag_names" "''source_id'' \<notin> set base_tag_names"
    by (simp_all add: base_tag_names_def)
  have v: "v = base_v1 e h (tags_ref e h)"
    using run by (auto simp: createBaseV1_def Let_def C base_v1_def getV2Tag_ready[OF ready] c(1))
  have r': "tags_ref e h < length h'" and w': "wf_heap h'" and l': "length h \<le> length h'"
    using run c by (auto simp: createBaseV1_def Let_def C)
  have look: "mget (hget h' (tags_ref e h)) x = base_lookup e h x" for x
    using run c names
    by (auto simp: createBaseV1_def Let_def C base_lookup_def mget_hdel_all)
  have other: "a < length h \<Longrightarrow> a \<noteq> tags_ref e h \<Longrightarrow> hget h' a = hget h a" for a
    using run c by (auto simp: createBaseV1_def Let_def C)
  have rd: "tags_ready p e h'"
    using ready r' by (auto simp: tags_ready_def tags_ref_def split: if_splits)
  have "v2tag e h' x = (if p then base_lookup e h x else v2tag e h x)" for x
    using ready look[of x]
    by (auto simp: tags_ready_def tags_ref_def v2tag_def split: if_splits option.splits)
  with v r' w' l' look other rd show ?thesis by blast
qed



section \<open>What \<open>ToV2\<close> produces\<close>

lemma v2_result_tags:
  assumes wf: "wf_heap h" "wf_ref h (e1_Tags e)" and B: "baseV2 pkg e p h = (eb, hb)"
    and upd: "e2_Tags eb' = e2_Tags eb" "e2_DeprecatedTags eb' = e2_DeprecatedTags eb"
    and S: "fold (\<lambda>(k, v). setV2Tag p k v) (event_tags pkg e) (eb', hb) = (es, h')"
    and upd': "e2_Tags e' = e2_Tags es" "e2_DeprecatedTags e' = e2_DeprecatedTags es"
    and fields: "e2_Timestamp e' = e2_Timestamp eb"
      "e2_SourceId e' = event_source pkg e h" "e2_InstanceId e' = event_instance pkg e h"
  shows "v2_result pkg e p h e' h'"
proof -
  note b = baseV2_ready[OF wf B]
  have rb: "tags_ready p eb' hb" and lb: "\<And>x. v2tag eb' hb x = v2tag eb hb x"
    using b tags_ready_cong[OF upd, of p hb] v2tag_cong[OF upd, of hb] by auto
  note s = set_tags_ready[OF rb S]
  have re: "tags_ready p e' h'" and le: "\<And>x. v2tag e' h' x = v2tag es h' x"
    using s tags_ready_cong[OF upd', of p h'] v2tag_cong[OF upd', of h'] by auto
  have other: "hget h' a = hget h a" if "a < length h" "p \<longrightarrow> e1_Tags e \<noteq> Some a" for a
  proof -
    have ne: "e2_Tags eb' \<noteq> Some a"
      using b upd that by (auto simp: tags_ready_def split: option.splits if_splits)
    show ?thesis using s b that ne by (simp add: same_frame_def)
  qed
  show ?thesis
    unfolding v2_result_def
    using s b re other upd upd' fields
    by (auto simp: same_frame_def le lb v2_lookup_def split: option.split)
qed

lemma ToV2_result:
  assumes wf: "wf_heap h" "wf_ref h (e1_Tags e)" and run: "ToV2 pkg e p h = (e', h')"
  shows "v2_result pkg e p h e' h'"
proof -
  obtain eb hb where B: "baseV2 pkg e p h = (eb, hb)" by (cases "baseV2 pkg e p h")
  note b = baseV2_ready[OF wf B]
  obtain es hs where S: "fold (\<lambda>(k, v). setV2Tag p k v) (event_tags pkg e) (eb, hb) = (es, hs)"
    by (cases "fold (\<lambda>(k, v). setV2Tag p k v) (event_tags pkg e) (eb, hb)")
  have rb: "tags_ready p eb hb" using b by simp
  note s = set_tags_ready[OF rb S]
  show ?thesis
  proof (cases "GetEventType pkg e = Envelope_HttpStartStop")
    case True
    define t where "t = (case e1_HttpStartStop e of None \<Rightarrow> empty_http | Some x \<Rightarrow> x)"
    define eb' where "eb' = eb\<lparr>
      e2_SourceId := convertAppUUID (hs_ApplicationId t) (e2_SourceId eb),
      e2_Message := Some (Envelope_Timer \<lparr>tm_Name = ''http'',
        tm_Start = getI (hs_StartTimestamp t), tm_Stop = getI (hs_StopTimestamp t)\<rparr>)\<rparr>"
    have S': "fold (\<lambda>(k, v). setV2Tag p k v) (event_tags pkg e) (eb', hb) = (e', h')"
      using run True by (simp add: ToV2_def B convertHTTPStartStop_def event_tags_def t_def eb'_def Let_def)
    have "tags_ready p eb' hb" using rb by (simp add: eb'_def)
    note s' = set_tags_ready[OF this S']
    have upd: "e2_Tags eb' = e2_Tags eb" "e2_DeprecatedTags eb' = e2_DeprecatedTags eb"
      by (simp_all add: eb'_def)
    show ?thesis
      by (rule v2_result_tags[OF wf B upd S' refl refl])
         (use s' b True in \<open>simp_all add: same_frame_def eb'_def event_source_def event_instance_def t_def\<close>)
  next
    case False
    have f: "h' = hs \<and> e2_Tags e' = e2_Tags es \<and> e2_DeprecatedTags e' = e2_DeprecatedTags es \<and>
        e2_Timestamp e' = e2_Timestamp es \<and>
        (e2_SourceId es = base_source e h \<longrightarrow> e2_SourceId e' = event_source pkg e h) \<and>
        (e2_InstanceId es = base_instance e h \<longrightarrow> e2_InstanceId e' = event_instance pkg e h)"
      using run S False
      by (cases "GetEventType pkg e")
         (auto simp: ToV2_def B convertLogMessage_def convertError_def convertCounterEvent_def
               convertValueMetric_def convertContainerMetric_def event_tags_def event_source_def
               event_instance_def Let_def)
    show ?thesis
      by (rule v2_result_tags[OF wf B refl refl, of es])
         (use f s b S in \<open>auto simp: same_frame_def\<close>)
  qed
qed

section \<open>There and back\<close>

lemma event_tags_keys:
  "fst ` set (event_tags pkg e) \<subseteq> set timer_tag_names \<union> {''source_type'', ''source'', ''code''}"
  by (auto simp: event_tags_def http_tags_def timer_tag_names_def split: event_type.splits)

lemma event_tags_none:
  assumes "x \<in> set base_tag_names \<or> x = ''source_id'' \<or> x = ''instance_id''"
  shows "map_of (rev (event_tags pkg e)) x = None"
proof -
  have "x \<notin> set timer_tag_names \<union> {''source_type'', ''source'', ''code''}"
    using assms by (auto simp: base_tag_names_def timer_tag_names_def)
  then show ?thesis
    using event_tags_keys[of pkg e] by (auto simp: map_of_eq_None_iff)
qed

lemma v2_lookup_base [simp]:
  "v2_lookup pkg e h ''origin'' = Some (getS (e1_Origin e))"
  "v2_lookup pkg e h ''deployment'' = Some (getS (e1_Deployment e))"
  "v2_lookup pkg e h ''job'' = Some (getS (e1_Job e))"
  "v2_lookup pkg e h ''index'' = Some (getS (e1_Index e))"
  "v2_lookup pkg e h ''ip'' = Some (getS (e1_Ip e))"
  "v2_lookup pkg e h ''__v1_type'' = Some (event_type_string (GetEventType pkg e))"
  "v2_lookup pkg e h ''source_id'' = None"
  "v2_lookup pkg e h ''instance_id'' = None"
  by (simp_all add: v2_lookup_def event_tags_none base_tag_names_def base_tags_lookup)

lemma createBaseV1_first:
  "tags_ready p e h \<Longrightarrow> wf_heap h \<Longrightarrow> createBaseV1 e h = (v, h') \<Longrightarrow>
     based p e h h' \<and> v = base_v1 e h (tags_ref e h) \<and>
     tags_ref e h < length h' \<and> (\<forall>x. mget (hget h' (tags_ref e h)) x = base_lookup e h x)"
  by (drule (2) createBaseV1_ready) (auto simp: based_def)

lemma base_lookup_based:
  "based p e h0 h \<Longrightarrow> base_lookup e h x = base_lookup e h0 x"
  by (auto simp: based_def base_lookup_def)

lemma createBaseV1_again:
  assumes "based p e h0 h" and "createBaseV1 e h = (v, h')"
  shows "based p e h0 h' \<and> v = base_v1 e h (tags_ref e h) \<and>
     tags_ref e h < length h' \<and> (\<forall>x. mget (hget h' (tags_ref e h)) x = base_lookup e h0 x)"
  using createBaseV1_ready[of p e h v h'] assms base_lookup_based[OF assms(1)]
  by (simp add: based_def)

lemma base_lookup_after:
  assumes "v2_result pkg e p h e2 h2"
  shows "base_lookup e2 h2 x =
    (if x = ''instance_id'' then nonempty (event_instance pkg e h)
     else if x = ''source_id'' then nonempty (event_source pkg e h)
     else if x \<in> set base_tag_names then None else v2_lookup pkg e h x)"
  using assms by (auto simp: base_lookup_def v2_result_def nonempty_def)

lemma base_v1_after:
  "v2_result pkg e p h e2 h2 \<Longrightarrow> base_v1 e2 h2 r = v1_base e r"
  by (simp add: base_v1_def v1_base_def v2_result_def)

text \<open>Deleting the tags of the event from the result leaves \<open>hop_lookup\<close>.\<close>

lemma hop_lookup_del:
  assumes "\<forall>x. mget (hget h3 r) x = base_lookup e2 h2 x" and "v2_result pkg e p h e2 h2"
    and "set ks = fst ` set (event_tags pkg e)"
  shows "mget (hget (hdel_all r ks h3) r) x = hop_lookup pkg e h x"
proof (cases "x = ''source_id'' \<or> x = ''instance_id'' \<or> x \<in> set base_tag_names")
  case True
  then have "x \<notin> set ks \<or> x \<in> set base_tag_names"
    using event_tags_none[of x pkg e] assms(3) by (auto simp: map_of_eq_None_iff)
  with True assms(1) event_tags_none[of x pkg e] show ?thesis
    by (auto simp: mget_hdel_all base_lookup_after[OF assms(2)] hop_lookup_def assms(3)
          base_tag_names_def map_of_eq_None_iff)
next
  case False
  moreover have "map_of (rev (base_tags pkg e)) x = None"
    using False by (auto simp: base_tags_lookup base_tag_names_def)
  moreover have "x \<notin> set ks \<Longrightarrow> map_of (rev (event_tags pkg e)) x = None"
    by (simp add: map_of_eq_None_iff assms(3))
  ultimately show ?thesis
    using assms(1)
    by (auto simp: mget_hdel_all base_lookup_after[OF assms(2)] hop_lookup_def assms(3) v2_lookup_def)
qed


lemma ToV2_then_base:
  assumes "wf_heap h" "wf_ref h (e1_Tags e)" and "ToV2 pkg e p h = (e2, h2)"
    and "createBaseV1 e2 h2 = (v, h3)"
  shows "v2_result pkg e p h e2 h2" and "v = v1_base e (tags_ref e2 h2)"
    and "based p e2 h2 h3" and "tags_ref e2 h2 < length h3"
    and "\<forall>x. mget (hget h3 (tags_ref e2 h2)) x = base_lookup e2 h2 x"
proof -
  show r: "v2_result pkg e p h e2 h2" by (rule ToV2_result[OF assms(1-3)])
  then have "tags_ready p e2 h2" "wf_heap h2" by (simp_all add: v2_result_def)
  from createBaseV1_first[OF this assms(4)] base_v1_after[OF r]
  show "v = v1_base e (tags_ref e2 h2)" "based p e2 h2 h3" "tags_ref e2 h2 < length h3"
    "\<forall>x. mget (hget h3 (tags_ref e2 h2)) x = base_lookup e2 h2 x" by simp_all
qed

lemma v1_base_Tags [simp]: "e1_Tags (v1_base e r) = Some r"
  by (simp add: v1_base_def)

lemma v2_result_fields:
  assumes "v2_result pkg e p h e2 h2"
  shows "e2_Timestamp e2 = getI (e1_Timestamp e)" "e2_SourceId e2 = event_source pkg e h"
    "e2_InstanceId e2 = event_instance pkg e h"
  using assms by (simp_all add: v2_result_def)

text \<open>A tag of the event, read while the base envelope is already made.\<close>

lemma event_tag_after:
  assumes "v2_result pkg e p h e2 h2" and "based p e2 h2 h3"
    and "x \<notin> set base_tag_names" and "x \<noteq> ''source_id''" and "x \<noteq> ''instance_id''"
  shows "getV2Tag e2 h3 x = opt_text (v2_lookup pkg e h x)"
proof -
  have "tags_ready p e2 h3" using assms(2) by (simp add: based_def)
  then have "getV2Tag e2 h3 x = opt_text (v2tag e2 h3 x)" by (rule getV2Tag_ready)
  also have "v2tag e2 h3 x = v2_lookup pkg e h x"
    using assms base_lookup_after[OF assms(1), of x] by (simp add: based_def v2_result_def)
  finally show ?thesis .
qed

lemma v1_type_after:
  assumes "v2_result pkg e p h e2 h2" and "based p e2 h2 h3"
  shows "getV2Tag e2 h3 ''__v1_type'' = (if p then [] else event_type_string (GetEventType pkg e))"
proof -
  have "tags_ready p e2 h3" using assms(2) by (simp add: based_def)
  then have "getV2Tag e2 h3 ''__v1_type'' = opt_text (v2tag e2 h3 ''__v1_type'')" by (rule getV2Tag_ready)
  then show ?thesis
    using assms base_lookup_after[OF assms(1), of "''__v1_type''"]
    by (simp add: based_def base_tag_names_def v2_result_def)
qed

lemma ToV2_message:
  assumes "ToV2 pkg e p h = (e2, h2)"
  shows "GetEventType pkg e = Envelope_LogMessage \<Longrightarrow> e1_LogMessage e = Some m \<Longrightarrow>
      lm_MessageType m = Some t \<Longrightarrow>
      e2_Message e2 = Some (Envelope_Log \<lparr>lg_Payload = lm_Message m, lg_Type = convertLogMessageType t\<rparr>)"
    and "GetEventType pkg e = Envelope_Error \<Longrightarrow> e1_Error e = Some er \<Longrightarrow>
      e2_Message e2 = Some (Envelope_Log \<lparr>lg_Payload = getS (er_Message er), lg_Type = Log_OUT\<rparr>)"
    and "GetEventType pkg e = Envelope_CounterEvent \<Longrightarrow> e1_CounterEvent e = Some c \<Longrightarrow>
      e2_Message e2 = Some (Envelope_Counter \<lparr>ct_Name = getS (ce_Name c),
        ct_Value = Some (Counter_Total (getU (ce_Total c)))\<rparr>)"
    and "GetEventType pkg e = Envelope_ValueMetric \<Longrightarrow> e1_ValueMetric e = Some vm \<Longrightarrow>
      e2_Message e2 = Some (Envelope_Gauge \<lparr>gg_Metrics = [(getS (vm_Name vm),
        Some \<lparr>gv_Unit = getS (vm_Unit vm), gv_Value = getF (vm_Value vm)\<rparr>)]\<rparr>)"
    and "GetEventType pkg e = Envelope_ContainerMetric \<Longrightarrow>
      e2_Message e2 = Some (Envelope_Gauge \<lparr>gg_Metrics = container_metrics (e1_ContainerMetric e)\<rparr>)"
  using assms
  by (auto simp: ToV2_def convertLogMessage_def convertError_def convertCounterEvent_def
        convertValueMetric_def convertContainerMetric_def Let_def split: prod.splits)

lemma ToV2_timer:
  assumes "wf_heap h" "wf_ref h (e1_Tags e)" and "ToV2 pkg e p h = (e2, h2)"
    and "GetEventType pkg e = Envelope_HttpStartStop" and "e1_HttpStartStop e = Some t"
  shows "e2_Message e2 = Some (Envelope_Timer \<lparr>tm_Name = ''http'',
    tm_Start = getI (hs_StartTimestamp t), tm_Stop = getI (hs_StopTimestamp t)\<rparr>)"
proof -
  obtain eb hb where B: "baseV2 pkg e p h = (eb, hb)" by (cases "baseV2 pkg e p h")
  define eb' where "eb' = eb\<lparr>
      e2_SourceId := convertAppUUID (hs_ApplicationId t) (e2_SourceId eb),
      e2_Message := Some (Envelope_Timer \<lparr>tm_Name = ''http'',
        tm_Start = getI (hs_StartTimestamp t), tm_Stop = getI (hs_StopTimestamp t)\<rparr>)\<rparr>"
  have "fold (\<lambda>(k, v). setV2Tag p k v) (http_tags pkg t) (eb', hb) = (e2, h2)"
    using assms(3-5) by (simp add: ToV2_def B convertHTTPStartStop_def eb'_def Let_def)
  moreover have "tags_ready p eb' hb"
    using baseV2_ready[OF assms(1,2) B] by (simp add: eb'_def)
  ultimately have "same_frame eb' hb e2 h2" using set_tags_ready by blast
  then show ?thesis by (simp add: same_frame_def eb'_def)
qed

lemma message_type_roundtrip:
  "t = LogMessage_OUT \<or> t = LogMessage_ERR \<Longrightarrow>
    messageType \<lparr>lg_Payload = b, lg_Type = convertLogMessageType t\<rparr> = t"
  by (auto simp: messageType_def convertLogMessageType_def Log_Type_value_def)

text \<open>
  C23: a log message converted to v2 and back, through either kind of tags, is the message with
  its payload, type, source type and instance, under the same origin, deployment, job, index, ip
  and timestamp; its own timestamp becomes that of the envelope, an empty application id becomes
  the source of the envelope, and every other tag is kept.
\<close>

theorem log_round_trip:
  assumes wf: "wf_heap h" "wf_ref h (e1_Tags e)"
    and "GetEventType pkg e = Envelope_LogMessage" and "e1_LogMessage e = Some m"
    and "lm_MessageType m = Some t" and "t = LogMessage_OUT \<or> t = LogMessage_ERR"
  shows "\<exists>r h'. hop pkg fi p e h =
      ([(v1_base e r)\<lparr>
          e1_EventType := Some Envelope_LogMessage,
          e1_LogMessage := Some \<lparr>
            lm_Message = lm_Message m, lm_MessageType = Some t,
            lm_Timestamp = Some (getI (e1_Timestamp e)),
            lm_AppId = Some (convertAppID (getS (lm_AppId m)) (base_source e h)),
            lm_SourceType = Some (getS (lm_SourceType m)),
            lm_SourceInstance = Some (getS (lm_SourceInstance m))\<rparr>\<rparr>], h') \<and>
      r < length h' \<and> (\<forall>x. mget (hget h' r) x = hop_lookup pkg e h x)"
proof -
  obtain e2 h2 where T: "ToV2 pkg e p h = (e2, h2)" by (cases "ToV2 pkg e p h")
  obtain v h3 where B: "createBaseV1 e2 h2 = (v, h3)" by (cases "createBaseV1 e2 h2")
  note b = ToV2_then_base[OF wf T B]
  have src: "getV2Tag e2 h3 ''source_type'' = getS (lm_SourceType m)"
    using assms by (simp add: event_tag_after[OF b(1,3)] base_tag_names_def v2_lookup_def event_tags_def)
  have del: "\<forall>x. mget (hget (hdel_all (tags_ref e2 h2) [''source_type''] h3) (tags_ref e2 h2)) x = hop_lookup pkg e h x"
    using hop_lookup_del[OF b(5,1), of "[''source_type'']"] assms(3) by (simp add: event_tags_def)
  have run: "hop pkg fi p e h = (let (v', h') = convertLog v e2 \<lparr>lg_Payload = lm_Message m,
      lg_Type = convertLogMessageType t\<rparr> h3 in ([v'], h'))"
    by (simp add: hop_def T ToV1_def B ToV2_message(1)[OF T assms(3-5)])
  show ?thesis
    unfolding run using assms(3,4,6) b(4) src del
    by (intro exI[of _ "tags_ref e2 h2"] exI[of _ "hdel_all (tags_ref e2 h2) [''source_type''] h3"])
       (auto simp: convertLog_def v1_type_after[OF b(1,3)] message_type_roundtrip b(2)
          delete_tags_def v2_result_fields[OF b(1)] event_source_def event_instance_def)
qed

theorem log_round_trip_witness:
  "map e1_LogMessage (fst (hop sample_pkg sample_impl True sample_log sample_heap)) =
     [Some \<lparr>lm_Message = ''hello'', lm_MessageType = Some LogMessage_ERR, lm_Timestamp = Some 99,
        lm_AppId = Some ''app'', lm_SourceType = Some ''RTR'', lm_SourceInstance = Some []\<rparr>]"
  using log_round_trip[of sample_heap sample_log sample_pkg _ LogMessage_ERR sample_impl True]
  by (auto simp: sample_log_def convertAppID_def getS_def sample_heap_def sample_v1_def empty_v1_def wf_heap_def wf_ref_def GetEventType_def)

text \<open>
  A counter event converted to v2 and back keeps its name and total, its delta is 0,
  and the base fields and the tags of the envelope are kept.
\<close>

theorem counter_round_trip:
  assumes wf: "wf_heap h" "wf_ref h (e1_Tags e)"
    and "GetEventType pkg e = Envelope_CounterEvent" and "e1_CounterEvent e = Some c"
  shows "\<exists>r h'. hop pkg fi p e h =
      ([(v1_base e r)\<lparr>
          e1_EventType := Some Envelope_CounterEvent,
          e1_CounterEvent := Some \<lparr>ce_Name = Some (getS (ce_Name c)), ce_Delta = Some 0,
            ce_Total = Some (getU (ce_Total c))\<rparr>\<rparr>], h') \<and>
      r < length h' \<and> (\<forall>x. mget (hget h' r) x = hop_lookup pkg e h x)"
proof -
  obtain e2 h2 where T: "ToV2 pkg e p h = (e2, h2)" by (cases "ToV2 pkg e p h")
  obtain v h3 where B: "createBaseV1 e2 h2 = (v, h3)" by (cases "createBaseV1 e2 h2")
  note b = ToV2_then_base[OF wf T B]
  have look: "\<forall>x. mget (hget h3 (tags_ref e2 h2)) x = hop_lookup pkg e h x"
    using hop_lookup_del[OF b(5,1), of "[]"] assms(3) by (simp add: event_tags_def hdel_all_def)
  show ?thesis
    using b(4) look
    by (intro exI[of _ "tags_ref e2 h2"] exI[of _ h3])
       (simp add: hop_def T ToV1_def B ToV2_message(3)[OF T assms(3,4)] convertCounter_def b(2))
qed

theorem counter_round_trip_witness:
  "map e1_CounterEvent (fst (hop sample_pkg sample_impl False sample_counter sample_heap)) =
     [Some \<lparr>ce_Name = Some ''requests'', ce_Delta = Some 0, ce_Total = Some 40\<rparr>]"
  using counter_round_trip[of sample_heap sample_counter sample_pkg _ sample_impl False]
  by (auto simp: sample_counter_def sample_heap_def sample_v1_def empty_v1_def wf_heap_def wf_ref_def GetEventType_def)

lemma error_after:
  assumes wf: "wf_heap h" "wf_ref h (e1_Tags e)"
    and "GetEventType pkg e = Envelope_Error" and "e1_Error e = Some er"
    and T: "ToV2 pkg e p h = (e2, h2)" and B: "createBaseV1 e2 h2 = (v, h3)"
  shows "getV2Tag e2 h3 ''source'' = getS (er_Source er)"
    and "getV2Tag e2 h3 ''code'' = itoa (getI (er_Code er))"
    and "hop pkg fi p e h = (let (v', h') = convertLog v e2 \<lparr>lg_Payload = getS (er_Message er),
      lg_Type = Log_OUT\<rparr> h3 in ([v'], h'))"
proof -
  note b = ToV2_then_base[OF wf T B]
  show "getV2Tag e2 h3 ''source'' = getS (er_Source er)"
    "getV2Tag e2 h3 ''code'' = itoa (getI (er_Code er))"
    using assms(3,4)
    by (simp_all add: event_tag_after[OF b(1,3)] base_tag_names_def v2_lookup_def event_tags_def)
  show "hop pkg fi p e h = (let (v', h') = convertLog v e2 \<lparr>lg_Payload = getS (er_Message er),
      lg_Type = Log_OUT\<rparr> h3 in ([v'], h'))"
    by (simp add: hop_def T ToV1_def B ToV2_message(2)[OF T assms(3-4)])
qed

text \<open>
  An error event with tags in the deprecated map, which travels as a v2 log, comes back
  as the same error event.
\<close>

theorem error_round_trip:
  assumes wf: "wf_heap h" "wf_ref h (e1_Tags e)"
    and "GetEventType pkg e = Envelope_Error" and "e1_Error e = Some er"
    and "is_int32 (getI (er_Code er))"
  shows "\<exists>r h'. hop pkg fi False e h =
      ([(v1_base e r)\<lparr>
          e1_EventType := Some Envelope_Error,
          e1_Error := Some \<lparr>er_Source = Some (getS (er_Source er)), er_Code = Some (getI (er_Code er)),
            er_Message = Some (getS (er_Message er))\<rparr>\<rparr>], h') \<and>
      r < length h' \<and> (\<forall>x. mget (hget h' r) x = hop_lookup pkg e h x)"
proof -
  obtain e2 h2 where T: "ToV2 pkg e False h = (e2, h2)" by (cases "ToV2 pkg e False h")
  obtain v h3 where B: "createBaseV1 e2 h2 = (v, h3)" by (cases "createBaseV1 e2 h2")
  note b = ToV2_then_base[OF wf T B]
  note er = error_after[OF wf assms(3,4) T B]
  have look: "\<forall>x. mget (hget (hdel_all (tags_ref e2 h2) [''source'', ''code''] h3) (tags_ref e2 h2)) x =
      hop_lookup pkg e h x"
    using hop_lookup_del[OF b(5,1), of "[''source'', ''code'']"] assms(3) by (simp add: event_tags_def)
  have code: "atoi (itoa (getI (er_Code er))) = getI (er_Code er)"
    using assms(5) by (simp add: atoi_def parseInt_itoa is_int32_int64)
  show ?thesis
    unfolding er(3) using b(4) look assms(3)
    by (intro exI[of _ "tags_ref e2 h2"] exI[of _ "hdel_all (tags_ref e2 h2) [''source'', ''code''] h3"])
       (simp add: convertLog_def recoverError_def v1_type_after[OF b(1,3)] b(2) er(1,2) delete_tags_def
          code assms(5))
qed

theorem error_round_trip_witness:
  "map e1_Error (fst (hop sample_pkg sample_impl False sample_error sample_heap)) =
     [Some \<lparr>er_Source = Some ''src'', er_Code = Some (- 5), er_Message = Some ''boom''\<rparr>]"
  using error_round_trip[of sample_heap sample_error sample_pkg _ sample_impl]
  by (auto simp: sample_error_def is_int32_def sample_heap_def sample_v1_def empty_v1_def wf_heap_def wf_ref_def GetEventType_def)

text \<open>
  With the shared \<open>Tags\<close> map the marker \<open>__v1_type\<close> is deleted before
  \<open>convertLog\<close> reads it: every error event comes back as a log message.
\<close>

theorem error_preferred:
  assumes wf: "wf_heap h" "wf_ref h (e1_Tags e)"
    and "GetEventType pkg e = Envelope_Error" and "e1_Error e = Some er"
  shows "\<exists>e' h'. hop pkg fi True e h = ([e'], h') \<and> e1_EventType e' = Some Envelope_LogMessage \<and> e1_Error e' = None"
proof -
  obtain e2 h2 where T: "ToV2 pkg e True h = (e2, h2)" by (cases "ToV2 pkg e True h")
  obtain v h3 where B: "createBaseV1 e2 h2 = (v, h3)" by (cases "createBaseV1 e2 h2")
  note b = ToV2_then_base[OF wf T B]
  note er = error_after[OF wf assms(3,4) T B]
  show ?thesis
    unfolding er(3)
    by (simp add: convertLog_def v1_type_after[OF b(1,3)] b(2) v1_base_def empty_v1_def)
qed

theorem error_preferred_witness:
  "map e1_EventType (fst (hop sample_pkg sample_impl True sample_error sample_heap)) =
     [Some Envelope_LogMessage]"
  using error_preferred[of sample_heap sample_error sample_pkg _ sample_impl]
  by (auto simp: sample_error_def sample_heap_def sample_v1_def empty_v1_def wf_heap_def wf_ref_def GetEventType_def)

section \<open>UUIDs\<close>

text \<open>The hyphens that \<open>uuidToString\<close> puts in are where \<open>parseUUID\<close> leaves them out.\<close>

lemma parse_uuid_parts:
  assumes "length a = 4" "length b = 2" "length c = 2" "length d = 2" "length f = 6"
  shows "parseUUID (hex_encode a @ ''-'' @ hex_encode b @ ''-'' @ hex_encode c @ ''-'' @
    hex_encode d @ ''-'' @ hex_encode f) = Some (a @ b @ c @ d @ f)"
proof -
  let ?s = "hex_encode a @ ''-'' @ hex_encode b @ ''-'' @ hex_encode c @ ''-'' @ hex_encode d @ ''-'' @ hex_encode f"
  have "length ?s = 36" using assms by simp
  moreover have "slice 0 8 ?s @ slice 9 13 ?s @ slice 14 18 ?s @ slice 19 23 ?s @ drop 24 ?s =
      hex_encode (a @ b @ c @ d @ f)"
    using assms by (simp add: slice_def)
  ultimately show ?thesis by (simp only: parseUUID_def hex_decode_encode) simp
qed

lemma slices_8: "slice 0 4 xs @ slice 4 6 xs @ drop 6 xs = xs"
  using append_take_drop_id[of 4 xs] append_take_drop_id[of 2 "drop 4 xs"] by (simp add: slice_def)

lemma uuid_round_trip:
  "convertUUID (parseUUID (uuidToString (Some \<lparr>uuid_Low = Some l, uuid_High = Some u\<rparr>))) =
     \<lparr>uuid_Low = Some l, uuid_High = Some u\<rparr>"
proof -
  let ?l = "le_bytes 8 (unat l)" and ?u = "le_bytes 8 (unat u)"
  have "parseUUID (uuidToString (Some \<lparr>uuid_Low = Some l, uuid_High = Some u\<rparr>)) = Some (?l @ ?u)"
    using parse_uuid_parts[of "slice 0 4 ?l" "slice 4 6 ?l" "drop 6 ?l" "slice 0 2 ?u" "drop 2 ?u"]
      slices_8[of ?l]
    by (simp add: uuidToString_def Let_def slice_def)
  then show ?thesis by (simp add: convertUUID_def)
qed

section \<open>Timers\<close>

lemma http_tag_after:
  assumes "v2_result pkg e p h e2 h2" and "based p e2 h2 h3"
    and "GetEventType pkg e = Envelope_HttpStartStop" and "e1_HttpStartStop e = Some t"
    and "map_of (rev (http_tags pkg t)) x = Some v"
  shows "getV2Tag e2 h3 x = format_v v"
proof -
  have look: "map_of (rev (event_tags pkg e)) x = Some v"
    using assms(3-5) by (simp add: event_tags_def)
  then have "x \<notin> set base_tag_names" "x \<noteq> ''source_id''" "x \<noteq> ''instance_id''"
    using event_tags_none[of x pkg e] by auto
  from event_tag_after[OF assms(1,2) this] look show ?thesis by (simp add: v2_lookup_def)
qed

lemma atoi_itoa [simp]: "is_int64 i \<Longrightarrow> atoi (itoa i) = i"
  by (simp add: atoi_def parseInt_itoa)

lemma getS_known [simp]: "x \<noteq> None \<Longrightarrow> Some (getS x) = x"
  by (auto simp: getS_def)

lemma getI_known [simp]: "x \<noteq> None \<Longrightarrow> Some (getI x) = x"
  by (auto simp: getI_def)

lemma convertTimer_http:
  assumes "v2_result pkg e p h e2 h2" and "based p e2 h2 h3"
    and "GetEventType pkg e = Envelope_HttpStartStop" and "e1_HttpStartStop e = Some t"
    and "typed_http pkg t" and "enum_tables (Method_name pkg) (Method_value pkg)"
    and "enum_tables (PeerType_name pkg) (PeerType_value pkg)"
  shows "fst (convertTimer pkg v e2 \<lparr>tm_Name = ''http'', tm_Start = getI (hs_StartTimestamp t),
      tm_Stop = getI (hs_StopTimestamp t)\<rparr> h3) =
    v\<lparr>e1_EventType := Some Envelope_HttpStartStop, e1_HttpStartStop := Some t\<rparr>"
proof -
  note tag = http_tag_after[OF assms(1-4)]
  obtain rl rh al ah pt mt sc cl ii where t:
    "hs_RequestId t = Some \<lparr>uuid_Low = Some rl, uuid_High = Some rh\<rparr>"
    "hs_ApplicationId t = Some \<lparr>uuid_Low = Some al, uuid_High = Some ah\<rparr>" "al \<noteq> 0 \<or> ah \<noteq> 0"
    "hs_PeerType t = Some pt" "pt \<in> fst ` set (PeerType_name pkg)"
    "hs_Method t = Some mt" "mt \<in> fst ` set (Method_name pkg)"
    "hs_StatusCode t = Some sc" "is_int32 sc" "hs_ContentLength t = Some cl" "is_int64 cl"
    "hs_InstanceIndex t = Some ii" "is_int32 ii"
    using assms(5) unfolding typed_http_def by blast
  have o: "hs_StartTimestamp t \<noteq> None" "hs_StopTimestamp t \<noteq> None" "hs_Uri t \<noteq> None"
    "hs_RemoteAddress t \<noteq> None" "hs_UserAgent t \<noteq> None" "hs_InstanceId t \<noteq> None"
    "hs_Forwarded t \<noteq> []" "\<forall>s \<in> set (hs_Forwarded t). newline \<notin> set s"
    using assms(5) by (auto simp: typed_http_def)
  have src: "e2_SourceId e2 = uuidToString (hs_ApplicationId t)"
    using assms(3,4) t(2,3)
    by (auto simp: v2_result_fields[OF assms(1)] event_source_def convertAppUUID_def)
  have tags:
    "getV2Tag e2 h3 ''request_id'' = uuidToString (hs_RequestId t)"
    "getV2Tag e2 h3 ''peer_type'' = enum_string (PeerType_name pkg) pt"
    "getV2Tag e2 h3 ''method'' = enum_string (Method_name pkg) mt"
    "getV2Tag e2 h3 ''uri'' = getS (hs_Uri t)"
    "getV2Tag e2 h3 ''remote_address'' = getS (hs_RemoteAddress t)"
    "getV2Tag e2 h3 ''user_agent'' = getS (hs_UserAgent t)"
    "getV2Tag e2 h3 ''status_code'' = itoa sc"
    "getV2Tag e2 h3 ''content_length'' = itoa cl"
    "getV2Tag e2 h3 ''instance_index'' = itoa ii"
    "getV2Tag e2 h3 ''routing_instance_id'' = getS (hs_InstanceId t)"
    "getV2Tag e2 h3 ''forwarded'' = join_with [newline] (hs_Forwarded t)"
    by (rule trans[OF tag], simp add: http_tags_def t, simp add: t)+
  show ?thesis
    unfolding convertTimer_def Let_def fst_conv
    by (simp add: tags src t uuid_round_trip enum_roundtrip[OF assms(6)] enum_roundtrip[OF assms(7)]
        is_int32_int64 split_join o)
qed

lemma timer_tags: "snd (convertTimer pkg v e2 tm h) = delete_tags v timer_tag_names h"
  by (simp add: convertTimer_def Let_def)

text \<open>
  C15: a complete HTTP start/stop event, which travels as a v2 timer with eleven tags, comes
  back unchanged through either kind of tags, and the tags it used are gone.
\<close>

theorem http_round_trip:
  assumes wf: "wf_heap h" "wf_ref h (e1_Tags e)"
    and "GetEventType pkg e = Envelope_HttpStartStop" and "e1_HttpStartStop e = Some t"
    and "typed_http pkg t" and "enum_tables (Method_name pkg) (Method_value pkg)"
    and "enum_tables (PeerType_name pkg) (PeerType_value pkg)"
  shows "\<exists>r h'. hop pkg fi p e h =
      ([(v1_base e r)\<lparr>e1_EventType := Some Envelope_HttpStartStop, e1_HttpStartStop := Some t\<rparr>], h') \<and>
      r < length h' \<and> (\<forall>x. mget (hget h' r) x = hop_lookup pkg e h x)"
proof -
  obtain e2 h2 where T: "ToV2 pkg e p h = (e2, h2)" by (cases "ToV2 pkg e p h")
  obtain v h3 where B: "createBaseV1 e2 h2 = (v, h3)" by (cases "createBaseV1 e2 h2")
  note b = ToV2_then_base[OF wf T B]
  have look: "\<forall>x. mget (hget (hdel_all (tags_ref e2 h2) timer_tag_names h3) (tags_ref e2 h2)) x =
      hop_lookup pkg e h x"
    using hop_lookup_del[OF b(5,1), of timer_tag_names] assms(3,4)
    by (simp add: event_tags_def http_tags_def timer_tag_names_def insert_commute)
  let ?tm = "\<lparr>tm_Name = ''http'', tm_Start = getI (hs_StartTimestamp t), tm_Stop = getI (hs_StopTimestamp t)\<rparr>"
  have "hop pkg fi p e h = (let (v', h') = convertTimer pkg v e2 ?tm h3 in ([v'], h'))"
    by (simp add: hop_def T ToV1_def B ToV2_timer[OF wf T assms(3,4)])
  also have "convertTimer pkg v e2 ?tm h3 =
     (v\<lparr>e1_EventType := Some Envelope_HttpStartStop, e1_HttpStartStop := Some t\<rparr>,
      hdel_all (tags_ref e2 h2) timer_tag_names h3)"
    using convertTimer_http[OF b(1,3) assms(3-7), of v] timer_tags[of pkg v e2 ?tm h3]
    by (simp add: prod_eq_iff delete_tags_def b(2))
  finally show ?thesis
    using b(4) look by (auto simp: b(2))
qed

lemma sample_http_typed:
  "typed_http sample_pkg sample_timer"
  "enum_tables (Method_name sample_pkg) (Method_value sample_pkg)"
  "enum_tables (PeerType_name sample_pkg) (PeerType_value sample_pkg)"
  by (auto simp: sample_timer_def typed_http_def sample_pkg_def enum_tables_def
        is_int32_def is_int64_def newline_def split: if_splits)

theorem http_round_trip_witness:
  "map e1_HttpStartStop (fst (hop sample_pkg sample_impl True sample_http sample_heap)) = [Some sample_timer]"
  using http_round_trip[of sample_heap sample_http sample_pkg sample_timer sample_impl True, OF _ _ _ _ sample_http_typed]
  by (auto simp: sample_http_def sample_heap_def sample_v1_def wf_heap_def wf_ref_def GetEventType_def)

section \<open>Gauges\<close>

lemma base_v1_based:
  assumes "v2_result pkg e p h e2 h2" and "based p e2 h2 h3"
  shows "base_v1 e2 h3 r = again_v1 p e r"
proof -
  have "base_lookup e2 h2 x = None" if "x \<in> set base_tag_names" for x
    using that by (auto simp: base_lookup_after[OF assms(1)] base_tag_names_def)
  then show ?thesis
    using assms by (simp add: base_v1_def again_v1_def v1_base_def bare_v1_def based_def
        v2_result_def base_tag_names_def)
qed

lemma gauge_base_again:
  assumes "v2_result pkg e p h e2 h2" and "based p e2 h2 h3" and "createBaseV1 e2 h3 = (v, h4)"
  shows "v = again_v1 p e (tags_ref e2 h3)" and "based p e2 h2 h4" and "tags_ref e2 h3 < length h4"
    and "\<forall>x. mget (hget h4 (tags_ref e2 h3)) x = base_lookup e2 h2 x"
  using createBaseV1_again[OF assms(2,3)] base_v1_based[OF assms(1,2)] by simp_all

text \<open>
  A value metric converted to v2 and back keeps its name, unit and value. With
  deprecated tags the envelope keeps its base fields; with the shared map the first base envelope
  that \<open>ToV1\<close> makes has deleted the tags, and origin, deployment, job, index and ip come back
  empty.
\<close>

theorem value_round_trip:
  assumes wf: "wf_heap h" "wf_ref h (e1_Tags e)"
    and ev: "GetEventType pkg e = Envelope_ValueMetric" "e1_ValueMetric e = Some vm"
  shows "\<exists>r h'. hop pkg fi p e h =
      ([(again_v1 p e r)\<lparr>
          e1_EventType := Some Envelope_ValueMetric,
          e1_ValueMetric := Some \<lparr>vm_Name = Some (getS (vm_Name vm)), vm_Unit = Some (getS (vm_Unit vm)),
            vm_Value = Some (getF (vm_Value vm))\<rparr>\<rparr>], h') \<and>
      r < length h' \<and> (\<forall>x. mget (hget h' r) x = hop_lookup pkg e h x)"
proof -
  obtain e2 h2 where T: "ToV2 pkg e p h = (e2, h2)" by (cases "ToV2 pkg e p h")
  obtain v h3 where B: "createBaseV1 e2 h2 = (v, h3)" by (cases "createBaseV1 e2 h2")
  obtain v4 h4 where B4: "createBaseV1 e2 h3 = (v4, h4)" by (cases "createBaseV1 e2 h3")
  obtain v5 h5 where B5: "createBaseV1 e2 h4 = (v5, h5)" by (cases "createBaseV1 e2 h4")
  note b = ToV2_then_base[OF wf T B]
  note b4 = gauge_base_again[OF b(1,3) B4]
  note b5 = gauge_base_again[OF b(1) b4(2) B5]
  have look: "\<forall>x. mget (hget h5 (tags_ref e2 h4)) x = hop_lookup pkg e h x"
    using hop_lookup_del[OF b5(4) b(1), of "[]"] ev(1) by (simp add: event_tags_def hdel_all_def)
  show ?thesis
    using b5(3) look
    by (intro exI[of _ "tags_ref e2 h4"] exI[of _ h5])
       (simp add: hop_def T ToV1_def B ToV2_message(4)[OF T ev] convertGauge_def
          tryConvertContainerMetric_def B4 B5 extractGaugeValues_def b5(1))
qed

theorem value_round_trip_witness:
  "map e1_Origin (fst (hop sample_pkg sample_impl True sample_value sample_heap)) = [Some []] \<and>
   map e1_Origin (fst (hop sample_pkg sample_impl False sample_value sample_heap)) = [Some ''gorouter'']"
  using value_round_trip[of sample_heap sample_value sample_pkg _ sample_impl True]
    value_round_trip[of sample_heap sample_value sample_pkg _ sample_impl False]
  by (auto simp: sample_value_def again_v1_def bare_v1_def v1_base_def sample_heap_def sample_v1_def empty_v1_def wf_heap_def wf_ref_def GetEventType_def)

lemma container_values:
  assumes "typed_container c"
  shows "\<lparr>cm_ApplicationId = a,
    cm_InstanceIndex = Some (int32_of_float64 im (metric_value \<lparr>gg_Metrics = container_metrics (Some c)\<rparr> ''instance_index'')),
    cm_CpuPercentage = Some (metric_value \<lparr>gg_Metrics = container_metrics (Some c)\<rparr> ''cpu''),
    cm_MemoryBytes = Some (uint64_of_float64 iu (metric_value \<lparr>gg_Metrics = container_metrics (Some c)\<rparr> ''memory'')),
    cm_DiskBytes = Some (uint64_of_float64 iu (metric_value \<lparr>gg_Metrics = container_metrics (Some c)\<rparr> ''disk'')),
    cm_MemoryBytesQuota = Some (uint64_of_float64 iu (metric_value \<lparr>gg_Metrics = container_metrics (Some c)\<rparr> ''memory_quota'')),
    cm_DiskBytesQuota = Some (uint64_of_float64 iu (metric_value \<lparr>gg_Metrics = container_metrics (Some c)\<rparr> ''disk_quota''))\<rparr>
    = c\<lparr>cm_ApplicationId := a\<rparr>"
  using assms
  by (cases c) (auto simp: typed_container_def container_metrics_def metric_value_def
      uint64_float64_exact int32_float64_exact)

text \<open>
  A container metric whose byte counts are below \<open>2^53\<close> survives the way through
  the six floating-point gauges, quotas included; the base fields are kept or lost as for a value
  metric.
\<close>

theorem container_round_trip:
  assumes wf: "wf_heap h" "wf_ref h (e1_Tags e)"
    and ev: "GetEventType pkg e = Envelope_ContainerMetric" "e1_ContainerMetric e = Some c"
    and ty: "typed_container c"
  shows "\<exists>r h'. hop pkg fi p e h =
      ([(again_v1 p e r)\<lparr>
          e1_EventType := Some Envelope_ContainerMetric,
          e1_ContainerMetric := Some (c\<lparr>cm_ApplicationId :=
            Some (convertAppID (getS (cm_ApplicationId c)) (base_source e h))\<rparr>)\<rparr>], h') \<and>
      r < length h' \<and> (\<forall>x. mget (hget h' r) x = hop_lookup pkg e h x)"
proof -
  obtain e2 h2 where T: "ToV2 pkg e p h = (e2, h2)" by (cases "ToV2 pkg e p h")
  obtain v h3 where B: "createBaseV1 e2 h2 = (v, h3)" by (cases "createBaseV1 e2 h2")
  obtain v4 h4 where B4: "createBaseV1 e2 h3 = (v4, h4)" by (cases "createBaseV1 e2 h3")
  note b = ToV2_then_base[OF wf T B]
  note b4 = gauge_base_again[OF b(1,3) B4]
  have look: "\<forall>x. mget (hget h4 (tags_ref e2 h3)) x = hop_lookup pkg e h x"
    using hop_lookup_del[OF b4(4) b(1), of "[]"] ev(1) by (simp add: event_tags_def hdel_all_def)
  have req: "\<not> (\<exists>req \<in> set required_metrics. mget (container_metrics (Some c)) req \<in> {None, Some None})"
    and len: "length (container_metrics (Some c)) \<noteq> 1"
    by (simp_all add: required_metrics_def container_metrics_def)
  have src: "e2_SourceId e2 = convertAppID (getS (cm_ApplicationId c)) (base_source e h)"
    using ev by (simp add: v2_result_fields[OF b(1)] event_source_def)
  have run: "tryConvertContainerMetric fi e2 \<lparr>gg_Metrics = container_metrics (Some c)\<rparr> h3 =
    (Some ((again_v1 p e (tags_ref e2 h3))\<lparr>
          e1_EventType := Some Envelope_ContainerMetric,
          e1_ContainerMetric := Some (c\<lparr>cm_ApplicationId := Some (e2_SourceId e2)\<rparr>)\<rparr>), h4)"
    using req len
    by (simp add: tryConvertContainerMetric_def B4 b4(1) container_values[OF ty] del: bex_simps)
  show ?thesis
    using b4(3) look
    by (intro exI[of _ "tags_ref e2 h3"] exI[of _ h4])
       (simp add: hop_def T ToV1_def B ToV2_message(5)[OF T ev(1)] ev(2) convertGauge_def run src)
qed

theorem container_round_trip_witness:
  "map e1_ContainerMetric (fst (hop sample_pkg sample_impl False sample_container sample_heap)) =
     [Some sample_container_metric]"
  using container_round_trip[of sample_heap sample_container sample_pkg sample_container_metric sample_impl False]
  by (auto simp: sample_container_def sample_container_metric_def typed_container_def is_int32_def
        convertAppID_def sample_heap_def sample_v1_def empty_v1_def wf_heap_def wf_ref_def GetEventType_def)

end
