(* ===== verification/Truncating_Buffer.thy ===== *)
theory Truncating_Buffer
  imports Envelopes
begin

text \<open>
  The buffer in front of a sink, \<open>doppler/internal/truncatingbuffer\<close>: it forwards messages
  into a bounded channel, and when the channel is full it empties it, announces the loss with
  messages of its own and goes on.

  The packages \<open>emitter\<close> and \<open>envelope_extensions\<close> of dropsonde are not part of the
  repository: \<open>emitter.Wrap\<close> and \<open>GetAppId\<close> are arguments. The reader of the output
  channel runs concurrently. What it takes between two messages is the step \<open>TB_Read\<close>; what
  it takes after a send has found the channel full and before \<open>dropMessages\<close> has emptied
  it is the argument \<open>taken\<close>. What it takes while the announcement is written commutes with
  that, since the channel is a queue.

  The lemmas show that the buffer never blocks and always queues the message it forwards, that
  its count of dropped messages is exact when the reader takes nothing in between, and by how
  much it is wrong when it does.
\<close>

section \<open>Contexts\<close>

record buffer_context =
  EventAllowed :: "event_type \<Rightarrow> bool"
  Destination :: string
  Origin :: string
  AppID :: "v1_envelope \<Rightarrow> string"

text \<open>The part of \<open>envelope_extensions\<close> in use.\<close>

record envelope_ext =
  GetAppId :: "v1_envelope \<Rightarrow> string"
  SystemAppId :: string

definition NewDefaultContext :: "envelope_ext \<Rightarrow> string \<Rightarrow> string \<Rightarrow> buffer_context" where
  "NewDefaultContext ext origin destination =
     \<lparr>EventAllowed = (\<lambda>_. True), Destination = destination, Origin = origin, AppID = GetAppId ext\<rparr>"

definition NewLogAllowedContext :: "envelope_ext \<Rightarrow> string \<Rightarrow> string \<Rightarrow> buffer_context" where
  "NewLogAllowedContext ext origin destination =
     (NewDefaultContext ext origin destination)\<lparr>EventAllowed := (\<lambda>event. event = Envelope_LogMessage)\<rparr>"

definition NewSystemContext :: "envelope_ext \<Rightarrow> string \<Rightarrow> string \<Rightarrow> buffer_context" where
  "NewSystemContext ext origin destination =
     (NewDefaultContext ext origin destination)\<lparr>AppID := (\<lambda>_. SystemAppId ext)\<rparr>"

section \<open>The buffer\<close>

record trunc_buffer =
  tb_output :: "v1_envelope list"
  tb_closed :: bool
  tb_bufferSize :: uint64
  tb_sent :: uint64
  tb_queued :: uint64
  tb_dropped :: uint64
  tb_metric :: "uint64 list"

text \<open>
  \<open>None\<close> is a panic: of the constructor for a size below 3, or of \<open>make\<close> for a size that
  is not an \<open>int\<close>. The context is a value here and cannot be nil.
\<close>

definition NewTruncatingBuffer :: "uint64 \<Rightarrow> trunc_buffer option" where
  "NewTruncatingBuffer bufferSize =
     (if bufferSize < 3 \<or> 2 ^ 63 \<le> unat bufferSize then None
      else Some \<lparr>tb_output = [], tb_closed = False, tb_bufferSize = bufferSize, tb_sent = 0,
        tb_queued = 0, tb_dropped = 0, tb_metric = []\<rparr>)"

text \<open>The events that the buffer announces a loss with; \<open>now\<close> is the clock.\<close>

datatype tb_event = LogEvent log_message | CounterEvent counter_event

definition generateLogMessage ::
    "int \<Rightarrow> uint64 \<Rightarrow> uint64 \<Rightarrow> string \<Rightarrow> string \<Rightarrow> string \<Rightarrow> log_message" where
  "generateLogMessage now deltaDropped totalDropped appId source destination =
     \<lparr>lm_Message = ''Log message output is too high. '' @ nat_digits (unat deltaDropped) @
        '' messages dropped (Total '' @ nat_digits (unat totalDropped) @ '' messages dropped) from '' @
        source @ '' to '' @ destination @ ''.'',
      lm_MessageType = Some LogMessage_ERR, lm_Timestamp = Some now, lm_AppId = Some appId,
      lm_SourceType = Some ''LGR'', lm_SourceInstance = None\<rparr>"

definition generateCounterEvent :: "uint64 \<Rightarrow> uint64 \<Rightarrow> counter_event" where
  "generateCounterEvent delta totalDropped =
     \<lparr>ce_Name = Some ''TruncatingBuffer.DroppedMessages'', ce_Delta = Some delta, ce_Total = Some totalDropped\<rparr>"

type_synonym wrap_fun = "tb_event \<Rightarrow> string \<Rightarrow> v1_envelope result"

text \<open>\<open>None\<close>: the send on the output channel blocks.\<close>

definition emitMessage ::
    "wrap_fun \<Rightarrow> buffer_context \<Rightarrow> tb_event \<Rightarrow> trunc_buffer \<Rightarrow> trunc_buffer option" where
  "emitMessage wrap ctx event r =
     (case wrap event (Origin ctx) of
        Inl err \<Rightarrow> Some r
      | Inr env \<Rightarrow>
          map_option (\<lambda>q. r\<lparr>tb_output := q, tb_queued := tb_queued r + 1\<rparr>)
            (try_send (unat (tb_bufferSize r)) env (tb_output r)))"

definition notifyMessagesDropped ::
    "wrap_fun \<Rightarrow> buffer_context \<Rightarrow> int \<Rightarrow> uint64 \<Rightarrow> uint64 \<Rightarrow> string \<Rightarrow> trunc_buffer \<Rightarrow> trunc_buffer option" where
  "notifyMessagesDropped wrap ctx now deltaDropped totalDropped appId r =
     (let r1 = r\<lparr>tb_metric := tb_metric r @ [deltaDropped]\<rparr>;
          log = (if EventAllowed ctx Envelope_LogMessage
                 then emitMessage wrap ctx (LogEvent (generateLogMessage now deltaDropped totalDropped appId
                        (Origin ctx) (Destination ctx))) r1
                 else Some r1)
      in Option.bind log (\<lambda>r2.
           if EventAllowed ctx Envelope_CounterEvent
           then emitMessage wrap ctx (CounterEvent (generateCounterEvent deltaDropped totalDropped)) r2
           else Some r2))"

definition writeToOutput :: "v1_envelope \<Rightarrow> trunc_buffer \<Rightarrow> trunc_buffer" where
  "writeToOutput msg r =
     (case try_send (unat (tb_bufferSize r)) msg (tb_output r) of
        Some q \<Rightarrow> r\<lparr>tb_output := q\<rparr>
      | None \<Rightarrow> r\<lparr>tb_dropped := tb_dropped r + 1\<rparr>)"

text \<open>The loop of \<open>dropMessages\<close>: it receives until the channel is empty.\<close>

fun dropMessages :: "uint64 \<Rightarrow> v1_envelope list \<Rightarrow> uint64 \<times> v1_envelope list" where
  "dropMessages dropped [] = (dropped, [])"
| "dropMessages dropped (m # q) = dropMessages (dropped + 1) q"

definition forwardMessage ::
    "wrap_fun \<Rightarrow> buffer_context \<Rightarrow> int \<Rightarrow> nat \<Rightarrow> v1_envelope \<Rightarrow> trunc_buffer \<Rightarrow> trunc_buffer option" where
  "forwardMessage wrap ctx now taken msg r =
     (case try_send (unat (tb_bufferSize r)) msg (tb_output r) of
        Some q \<Rightarrow>
          (let r1 = r\<lparr>tb_output := q, tb_sent := tb_sent r + 1\<rparr>;
               queuedInternalMessageWasSent = (tb_sent r1 + tb_queued r1 > tb_bufferSize r1)
           in Some (if tb_queued r1 > 0 \<and> queuedInternalMessageWasSent
                    then r1\<lparr>tb_queued := tb_queued r1 - 1\<rparr> else r1))
      | None \<Rightarrow>
          (let (dropped, q) = dropMessages 0 (drop taken (tb_output r));
               deltaDropped = dropped - tb_queued r;
               r1 = r\<lparr>tb_output := q, tb_queued := 0, tb_dropped := tb_dropped r + deltaDropped\<rparr>
           in Option.bind
                (notifyMessagesDropped wrap ctx now deltaDropped (tb_dropped r1) (AppID ctx msg) r1)
                (\<lambda>r2. Some ((writeToOutput msg r2)\<lparr>tb_sent := 1\<rparr>))))"

text \<open>
  The loop of \<open>Run\<close> and the reader of the output channel, as a sequence of steps. A closed
  input channel and a message on the stop channel both end the loop, which closes the output.
\<close>

datatype tb_action =
    TB_Input int nat v1_envelope
  | TB_InputClosed
  | TB_Stop
  | TB_Read

definition tb_step ::
    "wrap_fun \<Rightarrow> buffer_context \<Rightarrow> events_pkg \<Rightarrow> tb_action \<Rightarrow> trunc_buffer \<Rightarrow> trunc_buffer option" where
  "tb_step wrap ctx pkg a r =
     (case a of
        TB_Read \<Rightarrow> Some (r\<lparr>tb_output := drop 1 (tb_output r)\<rparr>)
      | TB_Input now taken msg \<Rightarrow>
          if tb_closed r then Some r
          else if EventAllowed ctx (GetEventType pkg msg) then forwardMessage wrap ctx now taken msg r
          else Some r
      | _ \<Rightarrow> Some (r\<lparr>tb_closed := True\<rparr>))"

fun tb_run ::
    "wrap_fun \<Rightarrow> buffer_context \<Rightarrow> events_pkg \<Rightarrow> tb_action list \<Rightarrow> trunc_buffer \<Rightarrow> trunc_buffer option" where
  "tb_run wrap ctx pkg [] r = Some r"
| "tb_run wrap ctx pkg (a # as) r = Option.bind (tb_step wrap ctx pkg a r) (tb_run wrap ctx pkg as)"

section \<open>What is really lost\<close>

text \<open>
  A second account of the same run, which keeps for each message in the channel whether the
  buffer made it (\<open>True\<close>), and counts the others that are thrown away. It looks at the
  channel only.
\<close>

type_synonym tb_account = "bool list \<times> nat"

definition announced :: "wrap_fun \<Rightarrow> buffer_context \<Rightarrow> int \<Rightarrow> uint64 \<Rightarrow> uint64 \<Rightarrow> string \<Rightarrow> v1_envelope list" where
  "announced wrap ctx now delta totalDropped appId =
     (if EventAllowed ctx Envelope_LogMessage
      then (case wrap (LogEvent (generateLogMessage now delta totalDropped appId (Origin ctx) (Destination ctx))) (Origin ctx) of
              Inl _ \<Rightarrow> [] | Inr env \<Rightarrow> [env]) else []) @
     (if EventAllowed ctx Envelope_CounterEvent
      then (case wrap (CounterEvent (generateCounterEvent delta totalDropped)) (Origin ctx) of
              Inl _ \<Rightarrow> [] | Inr env \<Rightarrow> [env]) else [])"

definition account_forward :: "nat \<Rightarrow> nat \<Rightarrow> nat \<Rightarrow> tb_account \<Rightarrow> tb_account" where
  "account_forward room taken own acc =
     (let (flags, lost) = acc
      in if length flags < room then (flags @ [False], lost)
         else (replicate own True @ [False], lost + count_list (drop taken flags) False))"

definition account_step ::
    "wrap_fun \<Rightarrow> buffer_context \<Rightarrow> events_pkg \<Rightarrow> tb_action \<Rightarrow> trunc_buffer \<Rightarrow> tb_account \<Rightarrow> tb_account" where
  "account_step wrap ctx pkg a r acc =
     (case a of
        TB_Read \<Rightarrow> (drop 1 (fst acc), snd acc)
      | TB_Input now taken msg \<Rightarrow>
          if \<not> tb_closed r \<and> EventAllowed ctx (GetEventType pkg msg)
          then (let delta = fst (dropMessages 0 (drop taken (tb_output r))) - tb_queued r
                in account_forward (unat (tb_bufferSize r)) taken
                     (length (announced wrap ctx now delta (tb_dropped r + delta) (AppID ctx msg))) acc)
          else acc
      | _ \<Rightarrow> acc)"

fun account_run ::
    "wrap_fun \<Rightarrow> buffer_context \<Rightarrow> events_pkg \<Rightarrow> tb_action list \<Rightarrow> trunc_buffer \<Rightarrow> tb_account \<Rightarrow> tb_account" where
  "account_run wrap ctx pkg [] r acc = acc"
| "account_run wrap ctx pkg (a # as) r acc =
     (case tb_step wrap ctx pkg a r of
        None \<Rightarrow> acc
      | Some r' \<Rightarrow> account_run wrap ctx pkg as r' (account_step wrap ctx pkg a r acc))"

fun undisturbed :: "tb_action \<Rightarrow> bool" where
  "undisturbed (TB_Input now taken msg) \<longleftrightarrow> taken = 0"
| "undisturbed _ \<longleftrightarrow> True"

text \<open>
  Since the last overflow \<open>i\<close> announcements and then \<open>p\<close> messages were queued, and the
  reader took \<open>c\<close>.
\<close>

definition tb_inv :: "nat \<Rightarrow> nat \<Rightarrow> nat \<Rightarrow> trunc_buffer \<Rightarrow> bool" where
  "tb_inv i p c r \<longleftrightarrow>
     3 \<le> unat (tb_bufferSize r) \<and> unat (tb_bufferSize r) < 2 ^ 63 \<and>
     i \<le> 2 \<and> c \<le> i + p \<and> length (tb_output r) = i + p - c \<and>
     length (tb_output r) \<le> unat (tb_bufferSize r) \<and>
     tb_sent r = of_nat p \<and>
     unat (tb_queued r) = i - (i + p - unat (tb_bufferSize r))"

definition account_inv :: "nat \<Rightarrow> nat \<Rightarrow> nat \<Rightarrow> tb_account \<Rightarrow> trunc_buffer \<Rightarrow> bool" where
  "account_inv i p c acc r \<longleftrightarrow>
     tb_inv i p c r \<and> fst acc = drop c (replicate i True @ replicate p False) \<and>
     tb_dropped r = of_nat (snd acc)"

text \<open>A small buffer, for the witnesses, that wraps its announcements as they are.\<close>

definition small_ext :: envelope_ext where
  "small_ext = \<lparr>GetAppId = (\<lambda>e. case e1_LogMessage e of None \<Rightarrow> [] | Some m \<Rightarrow> getS (lm_AppId m)),
     SystemAppId = ''system''\<rparr>"

definition small_wrap :: wrap_fun where
  "small_wrap ev origin =
     Inr (case ev of
       LogEvent m \<Rightarrow> empty_v1\<lparr>e1_Origin := Some origin, e1_EventType := Some Envelope_LogMessage, e1_LogMessage := Some m\<rparr>
     | CounterEvent c \<Rightarrow> empty_v1\<lparr>e1_Origin := Some origin, e1_EventType := Some Envelope_CounterEvent, e1_CounterEvent := Some c\<rparr>)"

definition small_ctx :: buffer_context where
  "small_ctx = NewDefaultContext small_ext ''doppler'' ''sink''"

definition small_pkg :: events_pkg where
  "small_pkg = \<lparr>default_EventType = Envelope_HttpStartStop, default_MessageType = LogMessage_OUT,
     default_Method = 1, default_PeerType = 1, Method_name = [], Method_value = [],
     PeerType_name = [], PeerType_value = []\<rparr>"

definition small_buffer :: trunc_buffer where
  "small_buffer = \<lparr>tb_output = [], tb_closed = False, tb_bufferSize = 3, tb_sent = 0,
     tb_queued = 0, tb_dropped = 0, tb_metric = []\<rparr>"

definition flooded :: "nat \<Rightarrow> tb_action list" where
  "flooded n = replicate n (TB_Input 0 0 empty_v1)"

section \<open>One overflow\<close>

lemma dropMessages_eq: "dropMessages d q = (d + of_nat (length q), [])"
  by (induction q arbitrary: d) (simp_all add: algebra_simps)

lemma emitMessage_room:
  assumes "length (tb_output r) < unat (tb_bufferSize r)"
  shows "emitMessage wrap ctx ev r =
    Some (case wrap ev (Origin ctx) of Inl _ \<Rightarrow> r
          | Inr env \<Rightarrow> r\<lparr>tb_output := tb_output r @ [env], tb_queued := tb_queued r + 1\<rparr>)"
  using assms by (auto simp: emitMessage_def try_send_def split: sum.split)

lemma length_announced: "length (announced wrap ctx now d t a) \<le> 2"
  by (auto simp: announced_def split: sum.split)

lemma notify_empty:
  assumes "tb_output r = []" and "2 < unat (tb_bufferSize r)"
  shows "notifyMessagesDropped wrap ctx now d t a r =
    Some (r\<lparr>tb_output := announced wrap ctx now d t a,
            tb_queued := tb_queued r + of_nat (length (announced wrap ctx now d t a)),
            tb_metric := tb_metric r @ [d]\<rparr>)"
  using assms
  by (auto simp: notifyMessagesDropped_def emitMessage_room announced_def Let_def split: sum.split)

lemma forward_room:
  assumes "length (tb_output r) < unat (tb_bufferSize r)"
  shows "forwardMessage wrap ctx now k msg r = Some (r\<lparr>tb_output := tb_output r @ [msg],
      tb_sent := tb_sent r + 1,
      tb_queued := (if tb_queued r > 0 \<and> tb_sent r + 1 + tb_queued r > tb_bufferSize r
                    then tb_queued r - 1 else tb_queued r)\<rparr>)"
  using assms by (simp add: forwardMessage_def try_send_def Let_def)

lemma forward_full:
  assumes "unat (tb_bufferSize r) \<le> length (tb_output r)" and "2 < unat (tb_bufferSize r)"
    and d: "d = of_nat (length (tb_output r) - k) - tb_queued r"
    and own: "own = announced wrap ctx now d (tb_dropped r + d) (AppID ctx msg)"
  shows "forwardMessage wrap ctx now k msg r =
    Some (r\<lparr>tb_output := own @ [msg], tb_sent := 1, tb_queued := of_nat (length own),
            tb_dropped := tb_dropped r + d, tb_metric := tb_metric r @ [d]\<rparr>)"
proof -
  have "length own < unat (tb_bufferSize r)"
    using length_announced[of wrap ctx now d "tb_dropped r + d" "AppID ctx msg"] assms(2)
    by (simp add: own)
  then show ?thesis
    using assms(1,2)
    by (simp add: forwardMessage_def try_send_def dropMessages_eq notify_empty Let_def writeToOutput_def
        d[symmetric] own[symmetric])
qed

section \<open>The invariant\<close>

lemma tb_inv_read: "tb_inv i p c r \<Longrightarrow>
    tb_inv i p (if tb_output r = [] then c else c + 1) (r\<lparr>tb_output := drop 1 (tb_output r)\<rparr>)"
  by (cases "tb_output r") (auto simp: tb_inv_def)

text \<open>The test on the two counters decides exactly whether an announcement has left the channel.\<close>

lemma queued_count:
  fixes q b :: uint64
  assumes "unat q = i - (i + p - unat b)" and "i \<le> 2" and "unat b < 2 ^ 63"
  shows "unat (if q > 0 \<and> of_nat p + 1 + q > b then q - 1 else q) = i - (i + (p + 1) - unat b)"
proof (cases "q = 0")
  case True
  then show ?thesis using assms(1) by auto
next
  case False
  then have q: "0 < unat q" by (simp add: unat_gt_0)
  then have "p \<le> unat b + 1" using assms(1,2) by linarith
  moreover have "unat q \<le> 2" using assms(1,2) by linarith
  ultimately have "p + 1 + unat q < 2 ^ 64" using assms(3) by simp
  then have "unat (of_nat p + 1 + q) = p + 1 + unat q"
    by (simp add: unat_word_ariths unat_of_nat mod_simps)
  then have "of_nat p + 1 + q > b \<longleftrightarrow> unat b < p + 1 + unat q"
    by (simp add: word_less_nat_alt)
  moreover have "unat (q - 1) = unat q - 1"
    using False by (simp add: unat_minus_one)
  moreover have "q > 0" using False by (simp add: word_neq_0_conv)
  ultimately show ?thesis using assms(1) q by auto
qed

lemma tb_inv_room:
  assumes "tb_inv i p c r" and "length (tb_output r) < unat (tb_bufferSize r)"
    and "forwardMessage wrap ctx now k msg r = Some r'"
  shows "tb_inv i (p + 1) c r'"
  using assms queued_count[of "tb_queued r" i p "tb_bufferSize r"]
  by (auto simp: forward_room tb_inv_def)

lemma tb_inv_full:
  assumes "tb_inv i p c r" and "unat (tb_bufferSize r) \<le> length (tb_output r)"
    and "forwardMessage wrap ctx now k msg r = Some r'"
  shows "tb_inv (length (tb_output r') - 1) 1 0 r'"
proof -
  define d where "d = of_nat (length (tb_output r) - k) - tb_queued r"
  define own where "own = announced wrap ctx now d (tb_dropped r + d) (AppID ctx msg)"
  have sz: "2 < unat (tb_bufferSize r)" using assms(1) by (simp add: tb_inv_def)
  have "length own \<le> 2" by (simp add: own_def length_announced)
  moreover from this have "unat (of_nat (length own) :: uint64) = length own"
    by (simp add: unat_of_nat)
  ultimately show ?thesis
    using assms(1,3) sz by (simp add: forward_full[OF assms(2) sz d_def own_def] tb_inv_def) auto
qed

lemma tb_step_total:
  assumes "tb_inv i p c r"
  shows "\<exists>r' i' p' c'. tb_step wrap ctx pkg a r = Some r' \<and> tb_inv i' p' c' r' \<and>
    tb_bufferSize r' = tb_bufferSize r"
proof (cases "\<exists>now k msg. a = TB_Input now k msg \<and> \<not> tb_closed r \<and> EventAllowed ctx (GetEventType pkg msg)")
  case True
  then obtain now k msg where a: "tb_step wrap ctx pkg a r = forwardMessage wrap ctx now k msg r"
    by (auto simp: tb_step_def)
  have sz: "2 < unat (tb_bufferSize r)" using assms by (simp add: tb_inv_def)
  show ?thesis
  proof (cases "length (tb_output r) < unat (tb_bufferSize r)")
    case True
    note f = forward_room[OF True]
    show ?thesis
      unfolding a f by (intro exI conjI, rule refl, rule tb_inv_room[OF assms True f], simp)
  next
    case False
    then have full: "unat (tb_bufferSize r) \<le> length (tb_output r)" by simp
    note f = forward_full[OF full sz refl refl]
    show ?thesis
      unfolding a f by (intro exI conjI, rule refl, rule tb_inv_full[OF assms full f], simp)
  qed
next
  case False
  show ?thesis
  proof (cases a)
    case TB_Read
    then show ?thesis using tb_inv_read[OF assms] by (auto simp: tb_step_def)
  qed (use assms False in \<open>auto simp: tb_step_def tb_inv_def\<close>)
qed

lemma tb_run_total:
  "tb_inv i p c r \<Longrightarrow> \<exists>r' i' p' c'. tb_run wrap ctx pkg as r = Some r' \<and> tb_inv i' p' c' r' \<and>
     tb_bufferSize r' = tb_bufferSize r"
proof (induction as arbitrary: i p c r)
  case (Cons a as)
  obtain r1 i1 p1 c1 where "tb_step wrap ctx pkg a r = Some r1" "tb_inv i1 p1 c1 r1"
    "tb_bufferSize r1 = tb_bufferSize r"
    using tb_step_total[OF Cons.prems] by blast
  then show ?case using Cons.IH[of i1 p1 c1 r1] by auto
qed auto

lemma tb_inv_new: "NewTruncatingBuffer b = Some r \<Longrightarrow> tb_inv 0 0 0 r"
  by (auto simp: NewTruncatingBuffer_def tb_inv_def word_less_nat_alt split: if_splits)

section \<open>The accounts agree\<close>

lemma account_inv_closed [simp]:
  "account_inv i p c acc (r\<lparr>tb_closed := b\<rparr>) = account_inv i p c acc r"
  by (simp add: account_inv_def tb_inv_def)

lemma count_list_replicate [simp]: "count_list (replicate n x) y = (if x = y then n else 0)"
  by (induction n) auto

lemma lost_when_full:
  "c \<le> i + p \<Longrightarrow> count_list (drop c (replicate i True @ replicate p False)) False = p - (c - i)"
  by simp

lemma account_forward_inv:
  assumes inv: "account_inv i p c acc r"
    and step: "forwardMessage wrap ctx now 0 msg r = Some r'"
    and own: "delta = fst (dropMessages 0 (tb_output r)) - tb_queued r"
      "n = length (announced wrap ctx now delta (tb_dropped r + delta) (AppID ctx msg))"
  shows "\<exists>i' p' c'. account_inv i' p' c' (account_forward (unat (tb_bufferSize r)) 0 n acc) r'"
proof (cases "length (tb_output r) < unat (tb_bufferSize r)")
  case True
  have t: "tb_inv i p c r" and a: "fst acc = drop c (replicate i True @ replicate p False)"
    and d: "tb_dropped r = of_nat (snd acc)"
    using inv by (simp_all add: account_inv_def)
  have c: "c \<le> i + p" and l: "length (fst acc) = length (tb_output r)"
    using t by (simp_all add: tb_inv_def a)
  have "fst acc @ [False] = drop c (replicate i True @ replicate (p + 1) False)"
    using c by (simp add: a replicate_append_same[symmetric])
  then have "account_inv i (p + 1) c (account_forward (unat (tb_bufferSize r)) 0 n acc) r'"
    using tb_inv_room[OF t True step] True step l d
    by (auto simp: account_inv_def account_forward_def case_prod_unfold Let_def forward_room)
  then show ?thesis by blast
next
  case False
  have t: "tb_inv i p c r" and a: "fst acc = drop c (replicate i True @ replicate p False)"
    and d: "tb_dropped r = of_nat (snd acc)"
    using inv by (simp_all add: account_inv_def)
  have c: "c \<le> i + p" and len: "i + p - c = unat (tb_bufferSize r)"
    and q: "unat (tb_queued r) = i - (i + p - unat (tb_bufferSize r))"
    and sz: "2 < unat (tb_bufferSize r)" and out: "length (tb_output r) = i + p - c"
    using t False by (auto simp: tb_inv_def)
  have full: "unat (tb_bufferSize r) \<le> length (tb_output r)" using False by simp
  have delta: "delta = of_nat (length (tb_output r) - 0) - tb_queued r"
    by (simp add: own(1) dropMessages_eq)
  note f = forward_full[OF full sz delta refl, of wrap ctx now msg]
  have "unat (tb_queued r) = i - c" using q len c by auto
  then have "tb_queued r = of_nat (i - c)" by (metis of_nat_unat ucast_id)
  moreover have "of_nat (i + p - c) - of_nat (i - c) = (of_nat (p - (c - i)) :: uint64)"
  proof -
    have "i + p - c = p - (c - i) + (i - c)" using c by auto
    then show ?thesis by (simp only: of_nat_add add_diff_cancel_right')
  qed
  ultimately have lost: "delta = of_nat (p - (c - i))"
    by (simp only: delta out diff_zero)
  have "r' = r\<lparr>tb_output := announced wrap ctx now delta (tb_dropped r + delta) (AppID ctx msg) @ [msg],
      tb_sent := 1, tb_queued := of_nat n, tb_dropped := tb_dropped r + delta,
      tb_metric := tb_metric r @ [delta]\<rparr>"
    using step f by (simp add: own(2))
  then have r': "length (tb_output r') - 1 = n" "tb_dropped r' = of_nat (snd acc + (p - (c - i)))"
    by (simp_all add: own(2)) (simp add: d lost)
  have "account_forward (unat (tb_bufferSize r)) 0 n acc = (replicate n True @ [False], snd acc + (p - (c - i)))"
    using len by (simp add: account_forward_def case_prod_unfold Let_def a lost_when_full[OF c] del: drop_append)
  then have "account_inv n 1 0 (account_forward (unat (tb_bufferSize r)) 0 n acc) r'"
    using tb_inv_full[OF t full step] r' by (simp add: account_inv_def)
  then show ?thesis by blast
qed

lemma account_run_inv:
  assumes "account_inv i p c acc r" and "\<forall>a \<in> set as. undisturbed a"
    and "tb_run wrap ctx pkg as r = Some r'"
  shows "\<exists>i' p' c'. account_inv i' p' c' (account_run wrap ctx pkg as r acc) r'"
  using assms
proof (induction as arbitrary: i p c acc r)
  case Nil
  then show ?case by auto
next
  case (Cons a as)
  then obtain r1 where r1: "tb_step wrap ctx pkg a r = Some r1" "tb_run wrap ctx pkg as r1 = Some r'"
    by (auto simp: bind_eq_Some_conv)
  have "\<exists>i' p' c'. account_inv i' p' c' (account_step wrap ctx pkg a r acc) r1"
  proof (cases a)
    case (TB_Input now k msg)
    then have k: "k = 0" using Cons.prems(2) by simp
    show ?thesis
    proof (cases "\<not> tb_closed r \<and> EventAllowed ctx (GetEventType pkg msg)")
      case True
      then have "forwardMessage wrap ctx now 0 msg r = Some r1"
        using r1(1) by (simp add: tb_step_def TB_Input k)
      from account_forward_inv[OF Cons.prems(1) this refl refl] True show ?thesis
        by (simp add: account_step_def TB_Input k Let_def)
    next
      case False
      then show ?thesis
        using r1(1) Cons.prems(1) by (auto simp: tb_step_def account_step_def TB_Input split: if_splits)
    qed
  next
    case TB_Read
    have t: "tb_inv i p c r" and a: "fst acc = drop c (replicate i True @ replicate p False)"
      and d: "tb_dropped r = of_nat (snd acc)"
      using Cons.prems(1) by (simp_all add: account_inv_def)
    have len: "length (tb_output r) = i + p - c" using t by (simp add: tb_inv_def)
    have fl: "drop 1 (fst acc) = drop (if tb_output r = [] then c else c + 1) (replicate i True @ replicate p False)"
      using len by (auto simp: a drop_drop simp del: drop_append)
    show ?thesis
      using tb_inv_read[OF t] fl d r1(1)
      by - (rule exI[of _ i], rule exI[of _ p], rule exI[of _ "if tb_output r = [] then c else c + 1"],
          auto simp: tb_step_def account_step_def TB_Read account_inv_def simp del: drop_append)
  qed (use r1(1) Cons.prems(1) in \<open>auto simp: tb_step_def account_step_def intro!: exI\<close>)
  then obtain i1 p1 c1 where "account_inv i1 p1 c1 (account_step wrap ctx pkg a r acc) r1" by blast
  from Cons.IH[OF this _ r1(2)] Cons.prems(2) show ?case by (simp add: r1(1))
qed

section \<open>Properties\<close>

text \<open>
  C24: a truncating buffer never blocks on its own announcements, whatever its context, the
  messages, the reader and the moments at which the reader interferes: every run of it ends, with
  at most \<open>bufferSize\<close> messages queued.
\<close>

theorem truncating_buffer_never_blocks:
  assumes "NewTruncatingBuffer b = Some r"
  shows "\<exists>r'. tb_run wrap ctx pkg as r = Some r' \<and> length (tb_output r') \<le> unat b"
proof -
  have "tb_bufferSize r = b" using assms by (auto simp: NewTruncatingBuffer_def split: if_splits)
  then show ?thesis
    using tb_run_total[OF tb_inv_new[OF assms], of wrap ctx pkg as] by (auto simp: tb_inv_def)
qed

theorem truncating_buffer_never_blocks_witness:
  "NewTruncatingBuffer 3 = Some small_buffer \<and>
   (\<exists>r'. tb_run small_wrap small_ctx small_pkg (flooded 9) small_buffer = Some r' \<and> length (tb_output r') \<le> 3)"
proof -
  have "NewTruncatingBuffer 3 = Some small_buffer" by (simp add: NewTruncatingBuffer_def small_buffer_def)
  with truncating_buffer_never_blocks[OF this, of small_wrap small_ctx small_pkg "flooded 9"]
  show ?thesis by simp
qed

lemma replicate_3: "replicate 3 x = [x, x, x]"
  by (simp add: numeral_3_eq_3)

text \<open>
  A message that the buffer forwards is the last one in its output channel afterwards, so
  that an overflow never costs the message that caused it, in whatever state the run has reached.
\<close>

theorem forwarded_message_queued:
  assumes "NewTruncatingBuffer b = Some r0" and "tb_run wrap ctx pkg as r0 = Some r"
    and "forwardMessage wrap ctx now k msg r = Some r'"
  shows "tb_output r' \<noteq> [] \<and> last (tb_output r') = msg"
proof -
  obtain i p c where inv: "tb_inv i p c r"
    using tb_run_total[OF tb_inv_new[OF assms(1)], of wrap ctx pkg as] assms(2) by auto
  then have sz: "2 < unat (tb_bufferSize r)" by (simp add: tb_inv_def)
  show ?thesis
  proof (cases "length (tb_output r) < unat (tb_bufferSize r)")
    case True
    then show ?thesis using assms(3) by (auto simp: forward_room)
  next
    case False
    then show ?thesis using assms(3) forward_full[where k = k and wrap = wrap and ctx = ctx and now = now and msg = msg, OF _ sz refl refl] by auto
  qed
qed

theorem forwarded_message_queued_witness:
  "\<exists>r'. forwardMessage small_wrap small_ctx 0 1 empty_v1
      (small_buffer\<lparr>tb_output := replicate 3 empty_v1, tb_sent := 3\<rparr>) = Some r' \<and>
    tb_output r' \<noteq> [] \<and> last (tb_output r') = empty_v1"
proof -
  let ?r = "small_buffer\<lparr>tb_output := replicate 3 empty_v1, tb_sent := 3\<rparr>"
  have new: "NewTruncatingBuffer 3 = Some small_buffer"
    by (simp add: NewTruncatingBuffer_def small_buffer_def)
  have run: "tb_run small_wrap small_ctx small_pkg (flooded 3) small_buffer = Some ?r"
    by (simp add: flooded_def replicate_3 tb_step_def small_ctx_def NewDefaultContext_def
        forwardMessage_def try_send_def small_buffer_def)
  obtain r' where f: "forwardMessage small_wrap small_ctx 0 1 empty_v1 ?r = Some r'"
    using forward_full[where r = ?r and k = 1, OF _ _ refl refl] by (simp add: small_buffer_def)
  from forwarded_message_queued[OF new run f] f show ?thesis by auto
qed

text \<open>
  C16: when the reader takes nothing between a failed send and the emptying of the channel,
  \<open>droppedMessageCount\<close> is the number of messages lost, modulo \<open>2^64\<close>: the announcements
  of the buffer itself, which are thrown away with the others, are never counted.
\<close>

theorem dropped_count_exact:
  assumes "NewTruncatingBuffer b = Some r" and "\<forall>a \<in> set as. undisturbed a"
    and "tb_run wrap ctx pkg as r = Some r'"
  shows "tb_dropped r' = of_nat (snd (account_run wrap ctx pkg as r ([], 0)))"
proof -
  have "account_inv 0 0 0 ([], 0) r"
    using tb_inv_new[OF assms(1)] assms(1)
    by (auto simp: account_inv_def NewTruncatingBuffer_def split: if_splits)
  from account_run_inv[OF this assms(2,3)] show ?thesis by (auto simp: account_inv_def)
qed

theorem dropped_count_exact_witness:
  "\<exists>r'. tb_run small_wrap small_ctx small_pkg (flooded 5 @ [TB_Read, TB_Stop]) small_buffer = Some r' \<and>
    tb_dropped r' = of_nat (snd (account_run small_wrap small_ctx small_pkg
      (flooded 5 @ [TB_Read, TB_Stop]) small_buffer ([], 0)))"
proof -
  have new: "NewTruncatingBuffer 3 = Some small_buffer"
    by (simp add: NewTruncatingBuffer_def small_buffer_def)
  obtain r' where "tb_run small_wrap small_ctx small_pkg (flooded 5 @ [TB_Read, TB_Stop]) small_buffer = Some r'"
    using tb_run_total[OF tb_inv_new[OF new]] by blast
  with dropped_count_exact[OF new _ this] show ?thesis by (auto simp: flooded_def)
qed

text \<open>
  A reader that takes \<open>k\<close> messages in that moment makes the count wrong: with more than
  \<open>bufferSize - queuedInternalMessageCount\<close> of them the difference of the unsigned counters
  wraps, and the loss that is announced is at least \<open>2^64 - bufferSize\<close>.
\<close>

theorem dropped_count_wraps:
  assumes "tb_inv i p c r" and "length (tb_output r) = unat (tb_bufferSize r)"
    and "k \<le> unat (tb_bufferSize r)" and "unat (tb_bufferSize r) < k + unat (tb_queued r)"
    and "forwardMessage wrap ctx now k msg r = Some r'"
  shows "tb_metric r' \<noteq> [] \<and> 2 ^ 64 - unat (tb_bufferSize r) \<le> unat (last (tb_metric r'))"
proof -
  have sz: "2 < unat (tb_bufferSize r)" using assms(1) by (simp add: tb_inv_def)
  let ?d = "of_nat (length (tb_output r) - k) - tb_queued r"
  have f: "tb_metric r' = tb_metric r @ [?d]"
    using assms(2,5) forward_full[where k = k and wrap = wrap and ctx = ctx and now = now and msg = msg, OF _ sz refl refl] by auto
  let ?n = "unat (tb_bufferSize r) - k"
  have n: "?n < unat (tb_queued r)" and q: "unat (tb_queued r) \<le> 2"
    using assms by (auto simp: tb_inv_def)
  have "unat (of_nat ?n :: uint64) = ?n"
  proof -
    have "?n < 2 ^ 64" using assms(1) unfolding tb_inv_def by force
    then show ?thesis by (simp add: unat_of_nat)
  qed
  then have "unat (of_nat ?n - tb_queued r) = 2 ^ 64 + ?n - unat (tb_queued r)"
    using n by (simp add: unat_sub_if_size word_size)
  then have "unat ?d = 2 ^ 64 + ?n - unat (tb_queued r)" using assms(2) by simp
  then show ?thesis using q sz by (simp add: f)
qed

theorem dropped_count_wraps_witness:
  "\<exists>r'. forwardMessage small_wrap small_ctx 0 2 empty_v1
      (small_buffer\<lparr>tb_output := replicate 3 empty_v1, tb_sent := 1, tb_queued := 2\<rparr>) = Some r' \<and>
    2 ^ 64 - 3 \<le> unat (last (tb_metric r'))"
proof -
  let ?r = "small_buffer\<lparr>tb_output := replicate 3 empty_v1, tb_sent := 1, tb_queued := 2\<rparr>"
  have inv: "tb_inv 2 1 0 ?r" by (simp add: tb_inv_def small_buffer_def)
  obtain r' where f: "forwardMessage small_wrap small_ctx 0 2 empty_v1 ?r = Some r'"
    using forward_full[where r = ?r and k = 2, OF _ _ refl refl] by (simp add: small_buffer_def)
  from dropped_count_wraps[OF inv _ _ _ f] f show ?thesis by (auto simp: small_buffer_def)
qed

end
