(* ===== verification/Grouped_Sinks.thy ===== *)
theory Grouped_Sinks
  imports Envelopes
begin

text \<open>
  The registry of sinks, \<open>doppler/internal/groupedsinks\<close>: the sinks of an application
  (\<open>AppGroup\<close>, every one of which gets a message), the sinks of a firehose subscription
  (\<open>firehoseGroup\<close>, one of which gets it), and the two maps of such groups
  (\<open>GroupedSinks\<close>). The input channel of a sink is an address into a store of channels, so
  that sending on a closed channel and closing a channel twice, which panic, can be seen.

  The mutexes make every operation of \<open>GroupedSinks\<close> one step. A wrapper in a map is never
  nil: the only writes are those of \<open>AddSink\<close>.

  The locale \<open>sink_group\<close> is the contract that both kinds of group keep; the lemmas about
  registering and removing are proved once from it. The properties are that no sequence of
  operations panics, who gets a message, and that removing undoes registering.
\<close>

section \<open>Sinks\<close>

datatype sink_kind = DumpSink | ContainerMetricSink | SyslogSink | WebsocketSink

record sink =
  sk_AppID :: string
  sk_Identifier :: string
  sk_ShouldReceiveErrors :: bool
  sk_kind :: sink_kind

record sink_wrapper =
  sw_InputChan :: nat
  sw_Sink :: sink

type_synonym wrappers = "(string, sink_wrapper) gomap"
type_synonym channels = "v1_envelope chan list"

text \<open>The channels and the two counters that all groups share.\<close>

record sink_env =
  en_chans :: channels
  en_dropped :: uint64
  en_errors :: uint64

section \<open>The sinks of an application\<close>

definition AppGroup_exists :: "sink \<Rightarrow> wrappers \<Rightarrow> bool" where
  "AppGroup_exists s g = (case mget g (sk_Identifier s) of Some w \<Rightarrow> True | None \<Rightarrow> False)"

definition AppGroup_AddSink :: "sink \<Rightarrow> nat \<Rightarrow> wrappers \<Rightarrow> bool \<times> wrappers" where
  "AppGroup_AddSink s c g =
     (if AppGroup_exists s g then (False, g)
      else (True, mput (sk_Identifier s) \<lparr>sw_InputChan = c, sw_Sink = s\<rparr> g))"

definition AppGroup_sink :: "string \<Rightarrow> wrappers \<Rightarrow> sink option" where
  "AppGroup_sink i g = map_option sw_Sink (mget g i)"

text \<open>The type assertions of Go: the sink, if it has the kind asked for.\<close>

definition sink_as :: "sink_kind \<Rightarrow> sink option \<Rightarrow> sink option" where
  "sink_as k s = (case s of Some x \<Rightarrow> if sk_kind x = k then Some x else None | None \<Rightarrow> None)"

definition AppGroup_RecentLogsSink :: "string \<Rightarrow> wrappers \<Rightarrow> sink option" where
  "AppGroup_RecentLogsSink i g = sink_as DumpSink (AppGroup_sink i g)"

definition AppGroup_ContainerMetricsSink :: "string \<Rightarrow> wrappers \<Rightarrow> sink option" where
  "AppGroup_ContainerMetricsSink i g = sink_as ContainerMetricSink (AppGroup_sink i g)"

definition AppGroup_SyslogSinks :: "wrappers \<Rightarrow> sink list" where
  "AppGroup_SyslogSinks g = filter (\<lambda>s. sk_kind s = SyslogSink) (map (sw_Sink \<circ> snd) g)"

definition AppGroup_WebsocketSinks :: "wrappers \<Rightarrow> sink list" where
  "AppGroup_WebsocketSinks g = filter (\<lambda>s. sk_kind s = WebsocketSink) (map (sw_Sink \<circ> snd) g)"

definition AppGroup_removeSink ::
    "sink \<Rightarrow> wrappers \<Rightarrow> channels \<Rightarrow> (bool \<times> wrappers \<times> channels) option" where
  "AppGroup_removeSink s g cs =
     (let g' = mdel (sk_Identifier s) g
      in case mget g (sk_Identifier s) of
           None \<Rightarrow> Some (False, g', cs)
         | Some w \<Rightarrow> map_option (\<lambda>cs'. (True, g', cs')) (chan_close (sw_InputChan w) cs))"

text \<open>A \<open>range\<close> loop that deletes: an entry already deleted is not visited any more.\<close>

definition AppGroup_RemoveAllSinks :: "wrappers \<Rightarrow> channels \<Rightarrow> (wrappers \<times> channels) option" where
  "AppGroup_RemoveAllSinks g cs =
     foldM (\<lambda>(k, w) (g', cs').
       if mget g' k = None then Some (g', cs')
       else map_option snd (AppGroup_removeSink (sw_Sink w) g' cs')) g (g, cs)"

definition AppGroup_IsEmpty :: "wrappers \<Rightarrow> bool" where
  "AppGroup_IsEmpty g \<longleftrightarrow> length g = 0"

text \<open>One iteration of \<open>BroadcastMessage\<close> and one of \<open>BroadcastError\<close>.\<close>

definition offer_message :: "v1_envelope \<Rightarrow> sink_wrapper \<Rightarrow> sink_env \<Rightarrow> sink_env option" where
  "offer_message msg w en =
     map_option (\<lambda>(ok, cs).
       if ok then en\<lparr>en_chans := cs\<rparr> else en\<lparr>en_chans := cs, en_dropped := en_dropped en + 1\<rparr>)
       (chan_offer (sw_InputChan w) msg (en_chans en))"

definition offer_error :: "v1_envelope \<Rightarrow> sink_wrapper \<Rightarrow> sink_env \<Rightarrow> sink_env option" where
  "offer_error msg w en =
     (if sk_ShouldReceiveErrors (sw_Sink w)
      then map_option (\<lambda>(ok, cs).
             if ok then en\<lparr>en_chans := cs\<rparr> else en\<lparr>en_chans := cs, en_errors := en_errors en + 1\<rparr>)
             (chan_offer (sw_InputChan w) msg (en_chans en))
      else Some en)"

definition AppGroup_BroadcastMessage :: "v1_envelope \<Rightarrow> wrappers \<Rightarrow> sink_env \<Rightarrow> sink_env option" where
  "AppGroup_BroadcastMessage msg g en = foldM (offer_message msg) (map snd g) en"

definition AppGroup_BroadcastError :: "v1_envelope \<Rightarrow> wrappers \<Rightarrow> sink_env \<Rightarrow> sink_env option" where
  "AppGroup_BroadcastError msg g en = foldM (offer_error msg) (map snd g) en"

definition AppGroup_length :: "wrappers \<Rightarrow> nat" where
  "AppGroup_length g = length g"

section \<open>The sinks of a firehose subscription\<close>

definition firehoseGroup_exists :: "sink \<Rightarrow> wrappers \<Rightarrow> bool" where
  "firehoseGroup_exists s g = (case mget g (sk_Identifier s) of Some w \<Rightarrow> True | None \<Rightarrow> False)"

definition firehoseGroup_AddSink :: "sink \<Rightarrow> nat \<Rightarrow> wrappers \<Rightarrow> bool \<times> wrappers" where
  "firehoseGroup_AddSink s c g =
     (if firehoseGroup_exists s g then (False, g)
      else (True, mput (sk_Identifier s) \<lparr>sw_InputChan = c, sw_Sink = s\<rparr> g))"

definition firehoseGroup_removeSink ::
    "sink \<Rightarrow> wrappers \<Rightarrow> channels \<Rightarrow> (bool \<times> wrappers \<times> channels) option" where
  "firehoseGroup_removeSink s g cs =
     (let g' = mdel (sk_Identifier s) g
      in case mget g (sk_Identifier s) of
           None \<Rightarrow> Some (False, g', cs)
         | Some w \<Rightarrow> map_option (\<lambda>cs'. (True, g', cs')) (chan_close (sw_InputChan w) cs))"

definition firehoseGroup_RemoveAllSinks :: "wrappers \<Rightarrow> channels \<Rightarrow> (wrappers \<times> channels) option" where
  "firehoseGroup_RemoveAllSinks g cs =
     foldM (\<lambda>(k, w) (g', cs').
       if mget g' k = None then Some (g', cs')
       else map_option snd (firehoseGroup_removeSink (sw_Sink w) g' cs')) g (g, cs)"

definition firehoseGroup_IsEmpty :: "wrappers \<Rightarrow> bool" where
  "firehoseGroup_IsEmpty g \<longleftrightarrow> length g = 0"

text \<open>\<open>rand.Intn(n)\<close> for any draw; the loop counts up to it.\<close>

fun nth_wrapper :: "nat \<Rightarrow> nat \<Rightarrow> wrappers \<Rightarrow> sink_wrapper option" where
  "nth_wrapper i r [] = None"
| "nth_wrapper i r ((k, w) # g) = (if i = r then Some w else nth_wrapper (i + 1) r g)"

definition randomWrapper :: "nat \<Rightarrow> wrappers \<Rightarrow> sink_wrapper option" where
  "randomWrapper draw g = (if length g = 0 then None else nth_wrapper 0 (draw mod length g) g)"

definition firehoseGroup_BroadcastMessage ::
    "nat \<Rightarrow> v1_envelope \<Rightarrow> wrappers \<Rightarrow> sink_env \<Rightarrow> sink_env option" where
  "firehoseGroup_BroadcastMessage draw msg g en =
     (case randomWrapper draw g of None \<Rightarrow> Some en | Some w \<Rightarrow> offer_message msg w en)"

section \<open>All groups\<close>

record grouped_sinks =
  gs_apps :: "(string, wrappers) gomap"
  gs_firehoses :: "(string, wrappers) gomap"
  gs_env :: sink_env

definition NewGroupedSinks :: grouped_sinks where
  "NewGroupedSinks = \<lparr>gs_apps = [], gs_firehoses = [],
     gs_env = \<lparr>en_chans = [], en_dropped = 0, en_errors = 0\<rparr>\<rparr>"

definition RegisterAppSink :: "nat \<Rightarrow> sink \<Rightarrow> grouped_sinks \<Rightarrow> bool \<times> grouped_sinks" where
  "RegisterAppSink c s gs =
     (let appId = sk_AppID s
      in if appId = [] \<or> sk_Identifier s = [] then (False, gs)
         else let sinksForApp = (case mget (gs_apps gs) appId of Some g \<Rightarrow> g | None \<Rightarrow> []);
                  (added, g') = AppGroup_AddSink s c sinksForApp
              in (added, gs\<lparr>gs_apps := mput appId g' (gs_apps gs)\<rparr>))"

definition RegisterFirehoseSink :: "nat \<Rightarrow> sink \<Rightarrow> grouped_sinks \<Rightarrow> bool \<times> grouped_sinks" where
  "RegisterFirehoseSink c s gs =
     (let subscriptionId = sk_AppID s
      in if subscriptionId = [] then (False, gs)
         else let fgroup = (case mget (gs_firehoses gs) subscriptionId of Some g \<Rightarrow> g | None \<Rightarrow> []);
                  (added, g') = firehoseGroup_AddSink s c fgroup
              in (added, gs\<lparr>gs_firehoses := mput subscriptionId g' (gs_firehoses gs)\<rparr>))"

definition IsFirehoseRegistered :: "sink \<Rightarrow> grouped_sinks \<Rightarrow> bool" where
  "IsFirehoseRegistered s gs =
     (if sk_AppID s = [] then False
      else case mget (gs_firehoses gs) (sk_AppID s) of
             None \<Rightarrow> False | Some g \<Rightarrow> firehoseGroup_exists s g)"

text \<open>\<open>draw\<close> gives the random number of each firehose group.\<close>

definition broadcastMessageToFirehoses ::
    "(string \<Rightarrow> nat) \<Rightarrow> v1_envelope \<Rightarrow> grouped_sinks \<Rightarrow> sink_env \<Rightarrow> sink_env option" where
  "broadcastMessageToFirehoses draw msg gs en =
     foldM (\<lambda>(k, g). firehoseGroup_BroadcastMessage (draw k) msg g) (gs_firehoses gs) en"

definition Broadcast ::
    "(string \<Rightarrow> nat) \<Rightarrow> string \<Rightarrow> v1_envelope \<Rightarrow> grouped_sinks \<Rightarrow> grouped_sinks option" where
  "Broadcast draw appId msg gs =
     map_option (\<lambda>en. gs\<lparr>gs_env := en\<rparr>)
       (Option.bind
          (case mget (gs_apps gs) appId of
             Some g \<Rightarrow> AppGroup_BroadcastMessage msg g (gs_env gs) | None \<Rightarrow> Some (gs_env gs))
          (broadcastMessageToFirehoses draw msg gs))"

definition BroadcastError ::
    "(string \<Rightarrow> nat) \<Rightarrow> string \<Rightarrow> v1_envelope \<Rightarrow> grouped_sinks \<Rightarrow> grouped_sinks option" where
  "BroadcastError draw appId msg gs =
     map_option (\<lambda>en. gs\<lparr>gs_env := en\<rparr>)
       (Option.bind
          (case mget (gs_apps gs) appId of
             Some g \<Rightarrow> AppGroup_BroadcastError msg g (gs_env gs) | None \<Rightarrow> Some (gs_env gs))
          (broadcastMessageToFirehoses draw msg gs))"

definition CountFor :: "string \<Rightarrow> grouped_sinks \<Rightarrow> nat" where
  "CountFor appId gs = (case mget (gs_apps gs) appId of None \<Rightarrow> 0 | Some g \<Rightarrow> AppGroup_length g)"

definition DrainFor :: "string \<Rightarrow> string \<Rightarrow> grouped_sinks \<Rightarrow> sink option" where
  "DrainFor appId drainMetaData gs =
     (case mget (gs_apps gs) appId of None \<Rightarrow> None | Some g \<Rightarrow> AppGroup_sink drainMetaData g)"

definition DrainsFor :: "string \<Rightarrow> grouped_sinks \<Rightarrow> sink list" where
  "DrainsFor appId gs =
     (case mget (gs_apps gs) appId of None \<Rightarrow> [] | Some g \<Rightarrow> AppGroup_SyslogSinks g)"

definition DumpFor :: "string \<Rightarrow> grouped_sinks \<Rightarrow> sink option" where
  "DumpFor appId gs =
     (case mget (gs_apps gs) appId of None \<Rightarrow> None | Some g \<Rightarrow> AppGroup_RecentLogsSink appId g)"

definition ContainerMetricsFor :: "string \<Rightarrow> grouped_sinks \<Rightarrow> sink option" where
  "ContainerMetricsFor appId gs =
     (case mget (gs_apps gs) appId of
        None \<Rightarrow> None | Some g \<Rightarrow> AppGroup_ContainerMetricsSink (''container-metrics-'' @ appId) g)"

definition WebsocketSinksFor :: "string \<Rightarrow> grouped_sinks \<Rightarrow> sink list" where
  "WebsocketSinksFor appId gs =
     (case mget (gs_apps gs) appId of None \<Rightarrow> [] | Some g \<Rightarrow> AppGroup_WebsocketSinks g)"

definition CloseAndDelete :: "sink \<Rightarrow> grouped_sinks \<Rightarrow> (bool \<times> grouped_sinks) option" where
  "CloseAndDelete s gs =
     (case mget (gs_apps gs) (sk_AppID s) of
        None \<Rightarrow> Some (False, gs)
      | Some g \<Rightarrow>
          map_option (\<lambda>(removed, g', cs).
            (removed,
             gs\<lparr>gs_apps := (if AppGroup_IsEmpty g' then mdel (sk_AppID s) (gs_apps gs)
                            else mput (sk_AppID s) g' (gs_apps gs)),
                gs_env := (gs_env gs)\<lparr>en_chans := cs\<rparr>\<rparr>))
            (AppGroup_removeSink s g (en_chans (gs_env gs))))"

definition CloseAndDeleteFirehose :: "sink \<Rightarrow> grouped_sinks \<Rightarrow> (bool \<times> grouped_sinks) option" where
  "CloseAndDeleteFirehose s gs =
     (case mget (gs_firehoses gs) (sk_AppID s) of
        None \<Rightarrow> Some (False, gs)
      | Some g \<Rightarrow>
          map_option (\<lambda>(removed, g', cs).
            (removed,
             gs\<lparr>gs_firehoses := (if firehoseGroup_IsEmpty g' then mdel (sk_AppID s) (gs_firehoses gs)
                                 else mput (sk_AppID s) g' (gs_firehoses gs)),
                gs_env := (gs_env gs)\<lparr>en_chans := cs\<rparr>\<rparr>))
            (firehoseGroup_removeSink s g (en_chans (gs_env gs))))"

definition DeleteAll :: "grouped_sinks \<Rightarrow> grouped_sinks option" where
  "DeleteAll gs =
     Option.bind
       (foldM (\<lambda>(appId, g) (m, cs).
          map_option (\<lambda>(g', cs'). (mdel appId m, cs')) (AppGroup_RemoveAllSinks g cs))
          (gs_apps gs) (gs_apps gs, en_chans (gs_env gs)))
       (\<lambda>(apps, cs1).
          map_option (\<lambda>(fires, cs2).
            gs\<lparr>gs_apps := apps, gs_firehoses := fires, gs_env := (gs_env gs)\<lparr>en_chans := cs2\<rparr>\<rparr>)
            (foldM (\<lambda>(subscriptionId, g) (m, cs).
               map_option (\<lambda>(g', cs'). (mdel subscriptionId m, cs')) (firehoseGroup_RemoveAllSinks g cs))
               (gs_firehoses gs) (gs_firehoses gs, cs1)))"

text \<open>
  A sequence of operations. A sink is registered with a channel of its own, made just before,
  as \<open>SinkManager\<close> does; \<open>GS_Receive\<close> is a sink reading its channel.
\<close>

datatype gs_op =
    GS_Register nat sink
  | GS_RegisterFirehose nat sink
  | GS_Broadcast "string \<Rightarrow> nat" string v1_envelope
  | GS_BroadcastError "string \<Rightarrow> nat" string v1_envelope
  | GS_Close sink
  | GS_CloseFirehose sink
  | GS_DeleteAll
  | GS_Receive nat

definition with_channel :: "nat \<Rightarrow> grouped_sinks \<Rightarrow> nat \<times> grouped_sinks" where
  "with_channel n gs =
     (let (c, cs) = chan_make n (en_chans (gs_env gs)) in (c, gs\<lparr>gs_env := (gs_env gs)\<lparr>en_chans := cs\<rparr>\<rparr>))"

fun gs_step :: "gs_op \<Rightarrow> grouped_sinks \<Rightarrow> grouped_sinks option" where
  "gs_step (GS_Register n s) gs = (let (c, gs1) = with_channel n gs in Some (snd (RegisterAppSink c s gs1)))"
| "gs_step (GS_RegisterFirehose n s) gs = (let (c, gs1) = with_channel n gs in Some (snd (RegisterFirehoseSink c s gs1)))"
| "gs_step (GS_Broadcast draw appId msg) gs = Broadcast draw appId msg gs"
| "gs_step (GS_BroadcastError draw appId msg) gs = BroadcastError draw appId msg gs"
| "gs_step (GS_Close s) gs = map_option snd (CloseAndDelete s gs)"
| "gs_step (GS_CloseFirehose s) gs = map_option snd (CloseAndDeleteFirehose s gs)"
| "gs_step GS_DeleteAll gs = DeleteAll gs"
| "gs_step (GS_Receive a) gs = Some (gs\<lparr>gs_env := (gs_env gs)\<lparr>en_chans := chan_receive a (en_chans (gs_env gs))\<rparr>\<rparr>)"

section \<open>Who gets a message\<close>

definition slot :: "(string, wrappers) gomap \<Rightarrow> string \<Rightarrow> string \<Rightarrow> sink_wrapper option" where
  "slot m k i = (case mget m k of None \<Rightarrow> None | Some g \<Rightarrow> mget g i)"

definition owns :: "(string, wrappers) gomap \<Rightarrow> nat \<Rightarrow> bool" where
  "owns m a \<longleftrightarrow> (\<exists>k i w. slot m k i = Some w \<and> sw_InputChan w = a)"

text \<open>
  A map of groups in order: no group is empty, every sink is filed under its own names, every
  input channel is open, and no two sinks share one.
\<close>

definition family_ok :: "(string, wrappers) gomap \<Rightarrow> channels \<Rightarrow> bool" where
  "family_ok m cs \<longleftrightarrow>
     wf_map m \<and> (\<forall>k g. mget m k = Some g \<longrightarrow> g \<noteq> [] \<and> wf_map g) \<and>
     (\<forall>k i w. slot m k i = Some w \<longrightarrow>
        chan_open cs (sw_InputChan w) \<and> sk_Identifier (sw_Sink w) = i \<and> sk_AppID (sw_Sink w) = k) \<and>
     (\<forall>k i w k' i' w'. slot m k i = Some w \<longrightarrow> slot m k' i' = Some w' \<longrightarrow>
        sw_InputChan w = sw_InputChan w' \<longrightarrow> k = k' \<and> i = i')"

definition gs_ok :: "grouped_sinks \<Rightarrow> bool" where
  "gs_ok gs \<longleftrightarrow>
     family_ok (gs_apps gs) (en_chans (gs_env gs)) \<and> family_ok (gs_firehoses gs) (en_chans (gs_env gs)) \<and>
     (\<forall>a. owns (gs_apps gs) a \<longrightarrow> \<not> owns (gs_firehoses gs) a)"

text \<open>The channels of a group, and the one channel that a draw picks from each firehose group.\<close>

definition group_chans :: "wrappers \<Rightarrow> nat list" where
  "group_chans g = map (sw_InputChan \<circ> snd) g"

definition app_targets :: "string \<Rightarrow> grouped_sinks \<Rightarrow> nat list" where
  "app_targets appId gs = group_chans (mget_or [] (gs_apps gs) appId)"

definition error_targets :: "string \<Rightarrow> grouped_sinks \<Rightarrow> nat list" where
  "error_targets appId gs =
     map (sw_InputChan \<circ> snd) (filter (\<lambda>p. sk_ShouldReceiveErrors (sw_Sink (snd p))) (mget_or [] (gs_apps gs) appId))"

definition firehose_targets :: "(string \<Rightarrow> nat) \<Rightarrow> grouped_sinks \<Rightarrow> nat list" where
  "firehose_targets draw gs = map (\<lambda>(k, g). group_chans g ! (draw k mod length g)) (gs_firehoses gs)"

definition delivered :: "v1_envelope \<Rightarrow> nat list \<Rightarrow> channels \<Rightarrow> channels" where
  "delivered msg as cs = map (\<lambda>a.
     if a \<in> set as \<and> \<not> chan_full cs a then (cs ! a)\<lparr>ch_buf := ch_buf (cs ! a) @ [msg]\<rparr> else cs ! a) [0..<length cs]"

definition lost_at :: "nat list \<Rightarrow> channels \<Rightarrow> uint64" where
  "lost_at as cs = of_nat (length (filter (chan_full cs) as))"

definition demo_sink :: sink where
  "demo_sink = \<lparr>sk_AppID = ''app'', sk_Identifier = ''drain'', sk_ShouldReceiveErrors = False, sk_kind = SyslogSink\<rparr>"

definition demo_ops :: "gs_op list" where
  "demo_ops = [GS_Register 1 demo_sink, GS_RegisterFirehose 1 demo_sink]"

definition demo_state :: grouped_sinks where
  "demo_state = the (foldM gs_step demo_ops NewGroupedSinks)"

lemma length_delivered [simp]: "length (delivered msg as cs) = length cs"
  by (simp add: delivered_def)

lemma delivered_Nil [simp]: "delivered msg [] cs = cs"
  by (simp add: delivered_def map_nth)

lemma lost_at_Nil [simp]: "lost_at [] cs = 0"
  by (simp add: lost_at_def)

lemma nth_delivered:
  "a < length cs \<Longrightarrow> delivered msg as cs ! a =
     (if a \<in> set as \<and> \<not> chan_full cs a then (cs ! a)\<lparr>ch_buf := ch_buf (cs ! a) @ [msg]\<rparr> else cs ! a)"
  by (simp add: delivered_def)

lemma delivered_open [simp]: "chan_open (delivered msg as cs) a = chan_open cs a"
  by (auto simp: chan_open_def nth_delivered split: if_splits)

lemma delivered_full: "a \<notin> set as \<Longrightarrow> a < length cs \<Longrightarrow> chan_full (delivered msg as cs) a = chan_full cs a"
  by (simp add: chan_full_def nth_delivered)

lemma delivered_append:
  assumes "distinct (as @ bs)"
  shows "delivered msg (as @ bs) cs = delivered msg bs (delivered msg as cs)"
proof (rule nth_equalityI)
  fix a assume "a < length (delivered msg (as @ bs) cs)"
  then have a: "a < length cs" by simp
  show "delivered msg (as @ bs) cs ! a = delivered msg bs (delivered msg as cs) ! a"
  proof (cases "a \<in> set as")
    case True
    with assms have "a \<notin> set bs" by auto
    then show ?thesis using a by (simp add: nth_delivered)
  next
    case False
    then show ?thesis using a delivered_full[OF False a, of msg] by (simp add: nth_delivered)
  qed
qed simp

lemma lost_at_append:
  assumes "distinct (as @ bs)" and "\<forall>a \<in> set bs. a < length cs"
  shows "lost_at (as @ bs) cs = lost_at as cs + lost_at bs (delivered msg as cs)"
proof -
  have "filter (chan_full (delivered msg as cs)) bs = filter (chan_full cs) bs"
  proof (rule filter_cong)
    fix a assume "a \<in> set bs"
    with assms have "a \<notin> set as" and "a < length cs" by auto
    then show "chan_full (delivered msg as cs) a = chan_full cs a" by (rule delivered_full)
  qed simp
  then show ?thesis by (simp add: lost_at_def)
qed

lemma chan_offer_eq:
  assumes "chan_open cs a"
  shows "chan_offer a msg cs = Some (\<not> chan_full cs a, delivered msg [a] cs)"
proof -
  have a: "a < length cs" using assms by (simp add: chan_open_def)
  have "delivered msg [a] cs =
      (if chan_full cs a then cs else cs[a := (cs ! a)\<lparr>ch_buf := ch_buf (cs ! a) @ [msg]\<rparr>])"
    using a by (intro nth_equalityI) (auto simp: nth_delivered nth_list_update)
  then show ?thesis
    using assms by (auto simp: chan_offer_def try_send_def chan_full_def)
qed

lemma offer_message_eq:
  "chan_open (en_chans en) (sw_InputChan w) \<Longrightarrow> offer_message msg w en =
    Some (en\<lparr>en_chans := delivered msg [sw_InputChan w] (en_chans en),
             en_dropped := en_dropped en + lost_at [sw_InputChan w] (en_chans en)\<rparr>)"
  by (simp add: offer_message_def chan_offer_eq lost_at_def)

lemma offer_error_eq:
  "chan_open (en_chans en) (sw_InputChan w) \<Longrightarrow> sk_ShouldReceiveErrors (sw_Sink w) \<Longrightarrow> offer_error msg w en =
    Some (en\<lparr>en_chans := delivered msg [sw_InputChan w] (en_chans en),
             en_errors := en_errors en + lost_at [sw_InputChan w] (en_chans en)\<rparr>)"
  by (simp add: offer_error_def chan_offer_eq lost_at_def)

lemma offer_messages:
  assumes "distinct (map sw_InputChan ws)" and "\<forall>w \<in> set ws. chan_open (en_chans en) (sw_InputChan w)"
  shows "foldM (offer_message msg) ws en = Some (en\<lparr>en_chans := delivered msg (map sw_InputChan ws) (en_chans en),
    en_dropped := en_dropped en + lost_at (map sw_InputChan ws) (en_chans en)\<rparr>)"
  using assms
proof (induction ws arbitrary: en)
  case (Cons w ws)
  let ?en = "en\<lparr>en_chans := delivered msg [sw_InputChan w] (en_chans en),
    en_dropped := en_dropped en + lost_at [sw_InputChan w] (en_chans en)\<rparr>"
  have "offer_message msg w en = Some ?en" using Cons.prems(2) by (simp add: offer_message_eq)
  moreover have "\<forall>a \<in> set (map sw_InputChan ws). a < length (en_chans en)"
    using Cons.prems(2) by (auto simp: chan_open_def)
  ultimately show ?case
    using Cons.IH[of ?en] Cons.prems delivered_append[of "[sw_InputChan w]" "map sw_InputChan ws" msg "en_chans en"]
      lost_at_append[of "[sw_InputChan w]" "map sw_InputChan ws" "en_chans en" msg]
    by (simp add: algebra_simps)
qed simp

lemma offer_errors:
  assumes "distinct (map sw_InputChan ws)"
    and "\<forall>w \<in> set ws. chan_open (en_chans en) (sw_InputChan w) \<and> sk_ShouldReceiveErrors (sw_Sink w)"
  shows "foldM (offer_error msg) ws en = Some (en\<lparr>en_chans := delivered msg (map sw_InputChan ws) (en_chans en),
    en_errors := en_errors en + lost_at (map sw_InputChan ws) (en_chans en)\<rparr>)"
  using assms
proof (induction ws arbitrary: en)
  case (Cons w ws)
  let ?en = "en\<lparr>en_chans := delivered msg [sw_InputChan w] (en_chans en),
    en_errors := en_errors en + lost_at [sw_InputChan w] (en_chans en)\<rparr>"
  have "offer_error msg w en = Some ?en" using Cons.prems(2) by (simp add: offer_error_eq)
  moreover have "\<forall>a \<in> set (map sw_InputChan ws). a < length (en_chans en)"
    using Cons.prems(2) by (auto simp: chan_open_def)
  ultimately show ?case
    using Cons.IH[of ?en] Cons.prems delivered_append[of "[sw_InputChan w]" "map sw_InputChan ws" msg "en_chans en"]
      lost_at_append[of "[sw_InputChan w]" "map sw_InputChan ws" "en_chans en" msg]
    by (simp add: algebra_simps)
qed simp

lemma offer_error_filter:
  "foldM (offer_error msg) ws en = foldM (offer_error msg) (filter (\<lambda>w. sk_ShouldReceiveErrors (sw_Sink w)) ws) en"
  by (induction ws arbitrary: en) (auto simp: offer_error_def split: Option.bind_split)

section \<open>The groups of one map\<close>

lemma nth_wrapper_eq: "r < i + length g \<Longrightarrow> i \<le> r \<Longrightarrow> nth_wrapper i r g = Some (snd (g ! (r - i)))"
proof (induction i r g rule: nth_wrapper.induct)
  case (2 i r k w g)
  then show ?case by (cases "i = r") (auto simp: Suc_diff_Suc nth_Cons')
qed simp

lemma randomWrapper_eq: "g \<noteq> [] \<Longrightarrow> randomWrapper d g = Some (snd (g ! (d mod length g)))"
  by (simp add: randomWrapper_def nth_wrapper_eq)

lemma family_slot:
  assumes "family_ok m cs" and "mget m k = Some g" and "(i, w) \<in> set g"
  shows "slot m k i = Some w"
  using assms by (auto simp: slot_def family_ok_def intro: map_of_is_SomeI)

lemma group_distinct:
  assumes "family_ok m cs" and "mget m k = Some g"
  shows "distinct (group_chans g)" and "\<forall>w \<in> set (map snd g). chan_open cs (sw_InputChan w)"
    and "\<forall>a \<in> set (group_chans g). owns m a"
proof -
  have wf: "wf_map g" using assms by (auto simp: family_ok_def)
  have inj: "p = q" if "p \<in> set g" "q \<in> set g" "sw_InputChan (snd p) = sw_InputChan (snd q)" for p q
  proof -
    have "fst p = fst q"
      using that family_slot[OF assms, of "fst p" "snd p"] family_slot[OF assms, of "fst q" "snd q"] assms(1)
      unfolding family_ok_def by (metis prod.collapse)
    then show ?thesis using wf that(1,2) by (metis eq_key_imp_eq_value prod.collapse)
  qed
  show "distinct (group_chans g)"
    using wf inj unfolding group_chans_def distinct_map by (auto simp: inj_on_def)
  show "\<forall>w \<in> set (map snd g). chan_open cs (sw_InputChan w)"
    using family_slot[OF assms] assms(1) unfolding family_ok_def by fastforce
  show "\<forall>a \<in> set (group_chans g). owns m a"
    using family_slot[OF assms] unfolding owns_def group_chans_def by fastforce
qed

lemma family_okI:
  assumes "wf_map m" and "\<And>k g. mget m k = Some g \<Longrightarrow> g \<noteq> [] \<and> wf_map g"
    and "\<And>k i w. slot m k i = Some w \<Longrightarrow>
      chan_open cs (sw_InputChan w) \<and> sk_Identifier (sw_Sink w) = i \<and> sk_AppID (sw_Sink w) = k"
    and "\<And>k i w k' i' w'. slot m k i = Some w \<Longrightarrow> slot m k' i' = Some w' \<Longrightarrow>
      sw_InputChan w = sw_InputChan w' \<Longrightarrow> k = k' \<and> i = i'"
  shows "family_ok m cs"
  using assms unfolding family_ok_def by blast

lemma family_okD:
  assumes "family_ok m cs"
  shows "wf_map m" and "mget m k = Some g \<Longrightarrow> g \<noteq> [] \<and> wf_map g"
    and "slot m k i = Some w \<Longrightarrow>
      chan_open cs (sw_InputChan w) \<and> sk_Identifier (sw_Sink w) = i \<and> sk_AppID (sw_Sink w) = k"
    and "slot m k i = Some w \<Longrightarrow> slot m k' i' = Some w' \<Longrightarrow>
      sw_InputChan w = sw_InputChan w' \<Longrightarrow> k = k' \<and> i = i'"
  using assms unfolding family_ok_def by blast+

lemma slot_mput: "slot (mput k g m) k' i = (if k' = k then mget g i else slot m k' i)"
  by (simp add: slot_def)

lemma slot_mdel: "slot (mdel k m) k' i = (if k' = k then None else slot m k' i)"
  by (simp add: slot_def)

text \<open>Only the channels in use have to stay open.\<close>

lemma family_ok_chans:
  "family_ok m cs \<Longrightarrow> (\<And>a. owns m a \<Longrightarrow> chan_open cs a \<Longrightarrow> chan_open cs' a) \<Longrightarrow> family_ok m cs'"
  unfolding family_ok_def owns_def by blast

lemma family_add:
  assumes ok: "family_ok m cs" and c: "chan_open cs c" "\<not> owns m c"
    and s: "sk_AppID s = k" and new: "slot m k (sk_Identifier s) = None"
  defines "m' \<equiv> mput k (mput (sk_Identifier s) \<lparr>sw_InputChan = c, sw_Sink = s\<rparr> (mget_or [] m k)) m"
  shows "family_ok m' cs" and "owns m' a \<longleftrightarrow> owns m a \<or> a = c"
proof -
  note d = family_okD[OF ok]
  let ?w = "\<lparr>sw_InputChan = c, sw_Sink = s\<rparr>"
  have sl: "slot m' k' i = (if k' = k \<and> i = sk_Identifier s then Some ?w else slot m k' i)" for k' i
    by (simp add: m'_def slot_mput) (simp add: slot_def mget_or_def split: option.split)
  have free: "slot m k' i' = Some w \<Longrightarrow> sw_InputChan w \<noteq> c" for k' i' w
    using c(2) by (auto simp: owns_def)
  show "family_ok m' cs"
  proof (rule family_okI)
    show "wf_map m'" using d(1) by (simp add: m'_def)
    show "g \<noteq> [] \<and> wf_map g" if "mget m' k' = Some g" for k' g
      using that d(2) by (auto simp: m'_def mget_or_def update_nonempty split: if_splits option.splits)
    show "chan_open cs (sw_InputChan w) \<and> sk_Identifier (sw_Sink w) = i \<and> sk_AppID (sw_Sink w) = k'"
      if "slot m' k' i = Some w" for k' i w
      using that d(3)[of k' i w] c(1) s by (auto simp: sl split: if_splits)
    show "k1 = k2 \<and> i1 = i2" if "slot m' k1 i1 = Some w1" "slot m' k2 i2 = Some w2"
      "sw_InputChan w1 = sw_InputChan w2" for k1 i1 w1 k2 i2 w2
      using that d(4)[of k1 i1 w1 k2 i2 w2] free[of k1 i1 w1] free[of k2 i2 w2]
      by (auto simp: sl split: if_splits)
  qed
  show "owns m' a \<longleftrightarrow> owns m a \<or> a = c"
    using new by (auto simp: owns_def sl split: if_splits) (metis option.distinct(1))+
qed

lemma family_remove:
  assumes ok: "family_ok m cs" and g: "mget m k = Some g" and w: "mget g i = Some w"
  defines "m' \<equiv> (if mdel i g = [] then mdel k m else mput k (mdel i g) m)"
    and "cs' \<equiv> cs[sw_InputChan w := (cs ! sw_InputChan w)\<lparr>ch_closed := True\<rparr>]"
  shows "family_ok m' cs'" and "owns m' a \<longleftrightarrow> owns m a \<and> a \<noteq> sw_InputChan w"
    and "chan_close (sw_InputChan w) cs = Some cs'" and "owns m (sw_InputChan w)"
    and "a \<noteq> sw_InputChan w \<Longrightarrow> chan_open cs' a = chan_open cs a"
proof -
  note d = family_okD[OF ok]
  have sw: "slot m k i = Some w" using g w by (simp add: slot_def)
  have empty: "mget g i' = None" if "mdel i g = []" "i' \<noteq> i" for i'
    using that mget_mdel[of i g i'] by simp
  have sl: "slot m' k' i' = (if k' = k \<and> i' = i then None else slot m k' i')" for k' i'
    using g by (auto simp: m'_def slot_mput slot_mdel empty) (auto simp: slot_def empty)
  have other: "slot m k' i' = Some w' \<Longrightarrow> (k', i') \<noteq> (k, i) \<Longrightarrow> sw_InputChan w' \<noteq> sw_InputChan w" for k' i' w'
    using d(4)[OF _ sw] by auto
  show cl: "chan_close (sw_InputChan w) cs = Some cs'"
    using d(3)[OF sw] by (simp add: chan_close_def cs'_def)
  show op: "a \<noteq> sw_InputChan w \<Longrightarrow> chan_open cs' a = chan_open cs a" for a
    by (auto simp: cs'_def)
  show "owns m (sw_InputChan w)" using sw by (auto simp: owns_def)
  show "owns m' a \<longleftrightarrow> owns m a \<and> a \<noteq> sw_InputChan w"
  proof
    assume "owns m' a"
    then obtain k' i' w' where "slot m' k' i' = Some w'" "sw_InputChan w' = a" by (auto simp: owns_def)
    then have "slot m k' i' = Some w'" "(k', i') \<noteq> (k, i)" "sw_InputChan w' = a"
      by (auto simp: sl split: if_splits)
    with other show "owns m a \<and> a \<noteq> sw_InputChan w" unfolding owns_def by blast
  next
    assume "owns m a \<and> a \<noteq> sw_InputChan w"
    then obtain k' i' w' where "slot m k' i' = Some w'" "sw_InputChan w' = a" "a \<noteq> sw_InputChan w"
      by (auto simp: owns_def)
    moreover from this sw have "\<not> (k' = k \<and> i' = i)" by auto
    ultimately have "slot m' k' i' = Some w'" by (simp add: sl)
    with \<open>sw_InputChan w' = a\<close> show "owns m' a" unfolding owns_def by blast
  qed
  show "family_ok m' cs'"
  proof (rule family_okI)
    show "wf_map m'" using d(1) by (simp add: m'_def)
    show "g' \<noteq> [] \<and> wf_map g'" if "mget m' k' = Some g'" for k' g'
      using that d(2)[of k' g'] d(2)[OF g] by (auto simp: m'_def split: if_splits)
    show "chan_open cs' (sw_InputChan w') \<and> sk_Identifier (sw_Sink w') = i' \<and> sk_AppID (sw_Sink w') = k'"
      if "slot m' k' i' = Some w'" for k' i' w'
      using that d(3)[of k' i' w'] other[of k' i' w'] op[of "sw_InputChan w'"] by (auto simp: sl split: if_splits)
    show "k1 = k2 \<and> i1 = i2" if "slot m' k1 i1 = Some w1" "slot m' k2 i2 = Some w2"
      "sw_InputChan w1 = sw_InputChan w2" for k1 i1 w1 k2 i2 w2
      using that d(4)[of k1 i1 w1 k2 i2 w2] by (auto simp: sl split: if_splits)
  qed
qed

section \<open>The contract of a group\<close>

text \<open>
  What \<open>GroupedSinks\<close> relies on. The closing of a channel is part of it: a removed sink
  learns from its closed channel that it is done.
\<close>

locale sink_group =
  fixes add :: "sink \<Rightarrow> nat \<Rightarrow> wrappers \<Rightarrow> bool \<times> wrappers"
    and remove :: "sink \<Rightarrow> wrappers \<Rightarrow> channels \<Rightarrow> (bool \<times> wrappers \<times> channels) option"
    and remove_all :: "wrappers \<Rightarrow> channels \<Rightarrow> (wrappers \<times> channels) option"
    and is_empty :: "wrappers \<Rightarrow> bool"
  assumes add_new: "mget g (sk_Identifier s) = None \<Longrightarrow>
      add s c g = (True, mput (sk_Identifier s) \<lparr>sw_InputChan = c, sw_Sink = s\<rparr> g)"
    and add_again: "mget g (sk_Identifier s) = Some w \<Longrightarrow> add s c g = (False, g)"
    and remove_absent: "mget g (sk_Identifier s) = None \<Longrightarrow> remove s g cs = Some (False, g, cs)"
    and remove_present: "mget g (sk_Identifier s) = Some w \<Longrightarrow> chan_close (sw_InputChan w) cs = Some cs' \<Longrightarrow>
      remove s g cs = Some (True, mdel (sk_Identifier s) g, cs')"
    and remove_all_Nil: "remove_all [] cs = Some ([], cs)"
    and remove_all_Cons: "wf_map ((k, w) # g) \<Longrightarrow> sk_Identifier (sw_Sink w) = k \<Longrightarrow>
      remove (sw_Sink w) ((k, w) # g) cs = Some (True, g, cs') \<Longrightarrow> remove_all ((k, w) # g) cs = remove_all g cs'"
    and is_empty_iff: "is_empty g \<longleftrightarrow> g = []"
begin

lemma register_ok:
  assumes ok: "family_ok m cs" and c: "chan_open cs c" "\<not> owns m c"
  shows "family_ok (mput (sk_AppID s) (snd (add s c (mget_or [] m (sk_AppID s)))) m) cs"
    and "owns (mput (sk_AppID s) (snd (add s c (mget_or [] m (sk_AppID s)))) m) a \<Longrightarrow> owns m a \<or> a = c"
proof -
  let ?k = "sk_AppID s" and ?g = "mget_or [] m (sk_AppID s)"
  let ?m = "mput ?k (snd (add s c ?g)) m"
  have "family_ok ?m cs \<and> (owns ?m a \<longrightarrow> owns m a \<or> a = c)"
  proof (cases "mget ?g (sk_Identifier s)")
    case None
    then have "slot m ?k (sk_Identifier s) = None"
      by (simp add: slot_def mget_or_def split: option.splits)
    from family_add[OF ok c refl this] None show ?thesis by (simp add: add_new)
  next
    case (Some w)
    then have "mget m ?k = Some ?g" by (simp add: mget_or_def split: option.splits)
    with Some show ?thesis using ok by (simp add: add_again mput_same)
  qed
  then show "family_ok ?m cs" and "owns ?m a \<Longrightarrow> owns m a \<or> a = c" by blast+
qed

lemma unregister_ok:
  assumes ok: "family_ok m cs" and g: "mget m k = Some g"
  shows "\<exists>b g' cs'. remove s g cs = Some (b, g', cs') \<and>
    family_ok (if is_empty g' then mdel k m else mput k g' m) cs' \<and>
    (\<forall>a. owns (if is_empty g' then mdel k m else mput k g' m) a \<longrightarrow> owns m a) \<and>
    (\<forall>a. \<not> owns m a \<longrightarrow> chan_open cs' a = chan_open cs a)"
proof (cases "mget g (sk_Identifier s)")
  case None
  then show ?thesis
    using ok g family_okD(2)[OF ok g] by (auto simp: remove_absent is_empty_iff mput_same)
next
  case (Some w)
  note r = family_remove[OF ok g Some]
  show ?thesis
    unfolding remove_present[OF Some r(3)] is_empty_iff
  proof (intro exI conjI, rule refl)
    show "family_ok (if mdel (sk_Identifier s) g = [] then mdel k m else mput k (mdel (sk_Identifier s) g) m)
        (cs[sw_InputChan w := (cs ! sw_InputChan w)\<lparr>ch_closed := True\<rparr>])" by (rule r(1))
    show "\<forall>a. owns (if mdel (sk_Identifier s) g = [] then mdel k m else mput k (mdel (sk_Identifier s) g) m) a
        \<longrightarrow> owns m a" unfolding r(2) by blast
    show "\<forall>a. \<not> owns m a \<longrightarrow>
        chan_open (cs[sw_InputChan w := (cs ! sw_InputChan w)\<lparr>ch_closed := True\<rparr>]) a = chan_open cs a"
      using r(4) by auto
  qed
qed

lemma remove_all_ok:
  assumes "family_ok m cs" and "mget m k = Some g"
  shows "\<exists>cs'. remove_all g cs = Some ([], cs') \<and> family_ok (mdel k m) cs' \<and>
    (\<forall>a. owns (mdel k m) a \<longrightarrow> owns m a) \<and> (\<forall>a. \<not> owns m a \<longrightarrow> chan_open cs' a = chan_open cs a)"
  using assms
proof (induction g arbitrary: m cs)
  case Nil
  then show ?case using family_okD(2)[OF Nil] by simp
next
  case (Cons p g)
  obtain i w where p: "p = (i, w)" by (cases p)
  have wf: "wf_map ((i, w) # g)" using family_okD(2)[OF Cons.prems] by (simp add: p)
  have sl: "slot m k i = Some w" using Cons.prems(2) by (simp add: slot_def p)
  have i: "sk_Identifier (sw_Sink w) = i" using family_okD(3)[OF Cons.prems(1) sl] by simp
  have gi: "mget (p # g) i = Some w" and del: "mdel i (p # g) = g"
    using wf by (simp_all add: p)
  note r = family_remove[OF Cons.prems gi]
  define m' where "m' = (if g = [] then mdel k m else mput k g m)"
  define cs1 where "cs1 = cs[sw_InputChan w := (cs ! sw_InputChan w)\<lparr>ch_closed := True\<rparr>]"
  have ok': "family_ok m' cs1" and own': "\<And>a. owns m' a \<Longrightarrow> owns m a"
    and op': "\<And>a. \<not> owns m a \<Longrightarrow> chan_open cs1 a = chan_open cs a"
    using r(1,2,4) unfolding del m'_def cs1_def by (simp_all del: chan_open_update) (rule r(5), blast)
  have "remove (sw_Sink w) ((i, w) # g) cs = Some (True, g, cs1)"
    using remove_present[of "(i, w) # g" "sw_Sink w" w cs cs1] r(3) del by (simp add: i cs1_def p)
  then have step: "remove_all (p # g) cs = remove_all g cs1"
    using remove_all_Cons[OF wf i] by (simp add: p)
  show ?case
  proof (cases "g = []")
    case True
    then show ?thesis using step ok' own' op' by (simp add: remove_all_Nil m'_def)
  next
    case False
    then have m': "m' = mput k g m" and get: "mget m' k = Some g" by (simp_all add: m'_def)
    have dd: "mdel k m' = mdel k m" by (simp add: m')
    from Cons.IH[OF ok' get] obtain cs' where "remove_all g cs1 = Some ([], cs')" "family_ok (mdel k m) cs'"
      "\<forall>a. owns (mdel k m) a \<longrightarrow> owns m' a" "\<forall>a. \<not> owns m' a \<longrightarrow> chan_open cs' a = chan_open cs1 a"
      by (auto simp: dd)
    then show ?thesis using step own' op' by auto
  qed
qed

lemma delete_all_ok:
  assumes "family_ok m cs" and "set xs \<subseteq> set m" and "wf_map xs"
    and "\<forall>k. mget m k \<noteq> None \<longrightarrow> k \<in> fst ` set xs"
  shows "\<exists>cs'. foldM (\<lambda>(k, g) (m, cs). map_option (\<lambda>(g', cs'). (mdel k m, cs')) (remove_all g cs)) xs (m, cs) =
      Some ([], cs') \<and> (\<forall>a. \<not> owns m a \<longrightarrow> chan_open cs' a = chan_open cs a)"
  using assms
proof (induction xs arbitrary: m cs)
  case Nil
  then have "m = []" by (cases m) (auto split: if_splits)
  then show ?case by simp
next
  case (Cons p xs)
  obtain k g where p: "p = (k, g)" by (cases p)
  have get: "mget m k = Some g"
    using Cons.prems(1,2) family_okD(1) by (auto simp: p intro: map_of_is_SomeI)
  from remove_all_ok[OF Cons.prems(1) get] obtain cs1 where r: "remove_all g cs = Some ([], cs1)"
    "family_ok (mdel k m) cs1" "\<And>a. owns (mdel k m) a \<Longrightarrow> owns m a"
    "\<And>a. \<not> owns m a \<Longrightarrow> chan_open cs1 a = chan_open cs a" by blast
  have sub: "set xs \<subseteq> set (mdel k m)"
    using Cons.prems(2,3) by (auto simp: set_mdel p)
  have keys: "\<forall>k'. mget (mdel k m) k' \<noteq> None \<longrightarrow> k' \<in> fst ` set xs"
    using Cons.prems(4) by (auto simp: p split: if_splits)
  from Cons.IH[OF r(2) sub _ keys] Cons.prems(3) obtain cs' where
    "foldM (\<lambda>(k, g) (m, cs). map_option (\<lambda>(g', cs'). (mdel k m, cs')) (remove_all g cs)) xs (mdel k m, cs1) =
      Some ([], cs')" "\<And>a. \<not> owns (mdel k m) a \<Longrightarrow> chan_open cs' a = chan_open cs1 a" by auto
  then show ?case using r(1,3,4) by (auto simp: p)
qed

text \<open>Removing what was registered leaves the map as it was, and closes the channel.\<close>

lemma register_unregister:
  assumes ok: "family_ok m cs" and c: "chan_open cs c" and new: "slot m (sk_AppID s) (sk_Identifier s) = None"
    and g: "g = snd (add s c (mget_or [] m (sk_AppID s)))"
  shows "\<exists>g' cs'. fst (add s c (mget_or [] m (sk_AppID s))) \<and> remove s g cs = Some (True, g', cs') \<and>
    mget (if is_empty g' then mdel (sk_AppID s) (mput (sk_AppID s) g m)
     else mput (sk_AppID s) g' (mput (sk_AppID s) g m)) = mget m \<and> \<not> chan_open cs' c"
proof -
  let ?g0 = "mget_or [] m (sk_AppID s)"
  have none: "mget ?g0 (sk_Identifier s) = None"
    using new by (simp add: slot_def mget_or_def split: option.splits)
  let ?w = "\<lparr>sw_InputChan = c, sw_Sink = s\<rparr>"
  have ga: "add s c ?g0 = (True, mput (sk_Identifier s) ?w ?g0)" by (rule add_new[OF none])
  have undo: "mdel (sk_Identifier s) ?g0 = ?g0"
    using none by simp
  have cl: "chan_close c cs = Some (cs[c := (cs ! c)\<lparr>ch_closed := True\<rparr>])"
    using c by (simp add: chan_close_def)
  have rm: "remove s g cs = Some (True, ?g0, cs[c := (cs ! c)\<lparr>ch_closed := True\<rparr>])"
    using remove_present[of g s ?w cs] cl by (simp add: g ga undo)
  have "?g0 = [] \<Longrightarrow> mget m (sk_AppID s) = None"
    using family_okD(2)[OF ok, of "sk_AppID s"] by (auto simp: mget_or_def split: option.splits)
  moreover have "?g0 \<noteq> [] \<Longrightarrow> mget m (sk_AppID s) = Some ?g0"
    by (simp add: mget_or_def split: option.splits)
  ultimately show ?thesis
    using rm ga by (auto simp: is_empty_iff fun_eq_iff)
qed

end

interpretation app: sink_group AppGroup_AddSink AppGroup_removeSink AppGroup_RemoveAllSinks AppGroup_IsEmpty
proof
  fix k w g cs cs'
  assume wf: "wf_map ((k, w) # g)" and i: "sk_Identifier (sw_Sink w) = k"
    and r: "AppGroup_removeSink (sw_Sink w) ((k, w) # g) cs = Some (True, g, cs')"
  show "AppGroup_RemoveAllSinks ((k, w) # g) cs = AppGroup_RemoveAllSinks g cs'"
    by (simp add: AppGroup_RemoveAllSinks_def r)
qed (auto simp: AppGroup_AddSink_def AppGroup_exists_def AppGroup_removeSink_def AppGroup_RemoveAllSinks_def
       AppGroup_IsEmpty_def)

interpretation firehose: sink_group firehoseGroup_AddSink firehoseGroup_removeSink firehoseGroup_RemoveAllSinks
  firehoseGroup_IsEmpty
proof
  fix k w g cs cs'
  assume wf: "wf_map ((k, w) # g)" and i: "sk_Identifier (sw_Sink w) = k"
    and r: "firehoseGroup_removeSink (sw_Sink w) ((k, w) # g) cs = Some (True, g, cs')"
  show "firehoseGroup_RemoveAllSinks ((k, w) # g) cs = firehoseGroup_RemoveAllSinks g cs'"
    by (simp add: firehoseGroup_RemoveAllSinks_def r)
qed (auto simp: firehoseGroup_AddSink_def firehoseGroup_exists_def firehoseGroup_removeSink_def
       firehoseGroup_RemoveAllSinks_def firehoseGroup_IsEmpty_def)

section \<open>All groups together\<close>

lemma mget_or_case: "(case mget m k of Some g \<Rightarrow> g | None \<Rightarrow> []) = mget_or [] m k"
  by (simp add: mget_or_def split: option.split)

lemma owns_open: "family_ok m cs \<Longrightarrow> owns m a \<Longrightarrow> chan_open cs a"
  by (auto simp: owns_def dest: family_okD(3))

lemma app_targets_ok:
  assumes "gs_ok gs"
  shows "distinct (app_targets appId gs)" and "\<forall>a \<in> set (app_targets appId gs). owns (gs_apps gs) a"
proof -
  have f: "family_ok (gs_apps gs) (en_chans (gs_env gs))" using assms by (simp add: gs_ok_def)
  show "distinct (app_targets appId gs)" "\<forall>a \<in> set (app_targets appId gs). owns (gs_apps gs) a"
    using group_distinct[OF f] by (cases "mget (gs_apps gs) appId"; simp add: app_targets_def mget_or_def group_chans_def)+
qed

lemma firehose_target:
  assumes "family_ok m cs" and "(k, g) \<in> set m"
  shows "\<exists>i w. slot m k i = Some w \<and> sw_InputChan w = group_chans g ! (d mod length g)"
proof -
  have get: "mget m k = Some g" using assms family_okD(1) by (auto intro: map_of_is_SomeI)
  have ne: "g \<noteq> []" using family_okD(2)[OF assms(1) get] by simp
  then have "g ! (d mod length g) \<in> set g" by simp
  then obtain i w where iw: "g ! (d mod length g) = (i, w)" "(i, w) \<in> set g" by (metis prod.exhaust)
  have "slot m k i = Some w" by (rule family_slot[OF assms(1) get iw(2)])
  moreover have "group_chans g ! (d mod length g) = sw_InputChan w"
    using iw(1) ne by (simp add: group_chans_def)
  ultimately show ?thesis by auto
qed

lemma firehose_targets_ok:
  assumes "gs_ok gs"
  shows "distinct (firehose_targets draw gs)" and "\<forall>a \<in> set (firehose_targets draw gs). owns (gs_firehoses gs) a"
proof -
  let ?m = "gs_firehoses gs"
  have f: "family_ok ?m (en_chans (gs_env gs))" using assms by (simp add: gs_ok_def)
  let ?t = "\<lambda>p. group_chans (snd p) ! (draw (fst p) mod length (snd p))"
  have wf: "wf_map ?m" using family_okD(1)[OF f] .
  have "inj_on ?t (set ?m)"
  proof (rule inj_onI)
    fix p q assume pq: "p \<in> set ?m" "q \<in> set ?m" "?t p = ?t q"
    obtain i w j v where "slot ?m (fst p) i = Some w" "sw_InputChan w = ?t p"
      "slot ?m (fst q) j = Some v" "sw_InputChan v = ?t q"
      using firehose_target[OF f, of "fst p" "snd p" "draw (fst p)"]
        firehose_target[OF f, of "fst q" "snd q" "draw (fst q)"] pq(1,2) by auto
    then have "fst p = fst q" using family_okD(4)[OF f] pq(3) by metis
    then show "p = q" using pq wf by (metis eq_key_imp_eq_value prod.collapse)
  qed
  moreover have "distinct ?m" using wf by (simp add: distinct_map)
  ultimately show "distinct (firehose_targets draw gs)"
    by (simp add: firehose_targets_def case_prod_unfold distinct_map)
  show "\<forall>a \<in> set (firehose_targets draw gs). owns ?m a"
    using firehose_target[OF f] by (fastforce simp: firehose_targets_def owns_def)
qed

lemma targets_distinct:
  assumes "gs_ok gs" and "set as \<subseteq> set (app_targets appId gs)" and "distinct as"
  shows "distinct (as @ firehose_targets draw gs)"
proof -
  have "a \<notin> set (firehose_targets draw gs)" if "a \<in> set as" for a
    using that assms(1,2) app_targets_ok(2)[OF assms(1), of appId] firehose_targets_ok(2)[OF assms(1), of draw]
    by (auto simp: gs_ok_def)
  then show ?thesis using assms(3) firehose_targets_ok(1)[OF assms(1)] by auto
qed

text \<open>The loop over the firehose groups is one over the wrappers that the draws pick.\<close>

lemma firehose_loop:
  assumes "\<forall>p \<in> set xs. snd p \<noteq> []"
  shows "foldM (\<lambda>(k, g). firehoseGroup_BroadcastMessage (draw k) msg g) xs en =
    foldM (offer_message msg) (map (\<lambda>(k, g). snd (g ! (draw k mod length g))) xs) en"
  using assms
  by (induction xs arbitrary: en)
     (auto simp: firehoseGroup_BroadcastMessage_def randomWrapper_eq split: Option.bind_split)

lemma firehose_broadcast:
  assumes ok: "gs_ok gs" and op: "\<And>a. chan_open (en_chans en) a = chan_open (en_chans (gs_env gs)) a"
  shows "broadcastMessageToFirehoses draw msg gs en =
    Some (en\<lparr>en_chans := delivered msg (firehose_targets draw gs) (en_chans en),
             en_dropped := en_dropped en + lost_at (firehose_targets draw gs) (en_chans en)\<rparr>)"
proof -
  let ?m = "gs_firehoses gs"
  have f: "family_ok ?m (en_chans (gs_env gs))" using ok by (simp add: gs_ok_def)
  have ne: "snd p \<noteq> []" if "p \<in> set ?m" for p
    using that family_okD(1,2)[OF f] by (metis map_of_is_SomeI prod.collapse)
  let ?ws = "map (\<lambda>(k, g). snd (g ! (draw k mod length g))) ?m"
  have t: "map sw_InputChan ?ws = firehose_targets draw gs"
    using ne by (auto simp: firehose_targets_def group_chans_def)
  have "\<forall>a \<in> set (map sw_InputChan ?ws). chan_open (en_chans en) a"
    unfolding t using firehose_targets_ok(2)[OF ok] owns_open[OF f] by (simp add: op)
  then have "\<forall>w \<in> set ?ws. chan_open (en_chans en) (sw_InputChan w)" by simp
  moreover have "distinct (map sw_InputChan ?ws)"
    unfolding t by (rule firehose_targets_ok(1)[OF ok])
  moreover have "broadcastMessageToFirehoses draw msg gs en = foldM (offer_message msg) ?ws en"
    unfolding broadcastMessageToFirehoses_def using ne by (intro firehose_loop) blast
  ultimately show ?thesis using offer_messages[of ?ws en msg] unfolding t by (simp only:)
qed

lemma app_broadcast:
  assumes "gs_ok gs"
  shows "(case mget (gs_apps gs) appId of
        Some g \<Rightarrow> AppGroup_BroadcastMessage msg g (gs_env gs) | None \<Rightarrow> Some (gs_env gs)) =
    Some ((gs_env gs)\<lparr>en_chans := delivered msg (app_targets appId gs) (en_chans (gs_env gs)),
             en_dropped := en_dropped (gs_env gs) + lost_at (app_targets appId gs) (en_chans (gs_env gs))\<rparr>)"
proof (cases "mget (gs_apps gs) appId")
  case None
  then show ?thesis by (simp add: app_targets_def mget_or_def group_chans_def)
next
  case (Some g)
  have f: "family_ok (gs_apps gs) (en_chans (gs_env gs))" using assms by (simp add: gs_ok_def)
  note d = group_distinct[OF f Some]
  have "map sw_InputChan (map snd g) = app_targets appId gs" by (simp add: app_targets_def Some mget_or_def group_chans_def)
  then show ?thesis
    using offer_messages[of "map snd g" "gs_env gs" msg] d(1,2)
    by (simp add: Some AppGroup_BroadcastMessage_def group_chans_def)
qed

lemma app_broadcast_error:
  assumes "gs_ok gs"
  shows "(case mget (gs_apps gs) appId of
        Some g \<Rightarrow> AppGroup_BroadcastError msg g (gs_env gs) | None \<Rightarrow> Some (gs_env gs)) =
    Some ((gs_env gs)\<lparr>en_chans := delivered msg (error_targets appId gs) (en_chans (gs_env gs)),
             en_errors := en_errors (gs_env gs) + lost_at (error_targets appId gs) (en_chans (gs_env gs))\<rparr>)"
proof (cases "mget (gs_apps gs) appId")
  case None
  then show ?thesis by (simp add: error_targets_def mget_or_def group_chans_def)
next
  case (Some g)
  have f: "family_ok (gs_apps gs) (en_chans (gs_env gs))" using assms by (simp add: gs_ok_def)
  note d = group_distinct[OF f Some]
  let ?ws = "filter (\<lambda>w. sk_ShouldReceiveErrors (sw_Sink w)) (map snd g)"
  have t: "map sw_InputChan ?ws = error_targets appId gs"
    by (simp add: error_targets_def Some mget_or_def filter_map comp_def)
  have "distinct (map sw_InputChan (map snd g))" using d(1) by (simp add: group_chans_def)
  then have "distinct (map sw_InputChan ?ws)" by (rule distinct_map_filter)
  then show ?thesis
    using offer_errors[of ?ws "gs_env gs" msg] d(2) offer_error_filter[of msg "map snd g" "gs_env gs"]
    unfolding t by (simp add: Some AppGroup_BroadcastError_def)
qed

lemma error_targets_ok:
  assumes "gs_ok gs"
  shows "distinct (error_targets appId gs)" and "set (error_targets appId gs) \<subseteq> set (app_targets appId gs)"
  using app_targets_ok(1)[OF assms, of appId]
  by (auto simp: error_targets_def app_targets_def group_chans_def distinct_map inj_on_def)

text \<open>Sending and receiving change no map and close no channel.\<close>

lemma gs_ok_env:
  "gs_ok gs \<Longrightarrow> (\<And>a. chan_open (en_chans en) a = chan_open (en_chans (gs_env gs)) a) \<Longrightarrow> gs_ok (gs\<lparr>gs_env := en\<rparr>)"
  by (auto simp: gs_ok_def intro: family_ok_chans)

lemma Broadcast_eq:
  assumes "gs_ok gs"
  shows "Broadcast draw appId msg gs = Some (gs\<lparr>gs_env := (gs_env gs)\<lparr>
    en_chans := delivered msg (app_targets appId gs @ firehose_targets draw gs) (en_chans (gs_env gs)),
    en_dropped := en_dropped (gs_env gs) + lost_at (app_targets appId gs @ firehose_targets draw gs) (en_chans (gs_env gs))\<rparr>\<rparr>)"
proof -
  have dist: "distinct (app_targets appId gs @ firehose_targets draw gs)"
    using targets_distinct[OF assms subset_refl app_targets_ok(1)[OF assms]] .
  have f: "family_ok (gs_firehoses gs) (en_chans (gs_env gs))" using assms by (simp add: gs_ok_def)
  have len: "\<forall>a \<in> set (firehose_targets draw gs). a < length (en_chans (gs_env gs))"
    using firehose_targets_ok(2)[OF assms] owns_open[OF f] by (auto simp: chan_open_def)
  show ?thesis
    by (simp add: Broadcast_def app_broadcast[OF assms] firehose_broadcast[OF assms]
        delivered_append[OF dist] lost_at_append[OF dist len, of msg] add.assoc)
qed

lemma BroadcastError_eq:
  assumes "gs_ok gs"
  shows "BroadcastError draw appId msg gs = Some (gs\<lparr>gs_env := (gs_env gs)\<lparr>
    en_chans := delivered msg (error_targets appId gs @ firehose_targets draw gs) (en_chans (gs_env gs)),
    en_dropped := en_dropped (gs_env gs) + lost_at (firehose_targets draw gs) (en_chans (gs_env gs)),
    en_errors := en_errors (gs_env gs) + lost_at (error_targets appId gs) (en_chans (gs_env gs))\<rparr>\<rparr>)"
proof -
  have dist: "distinct (error_targets appId gs @ firehose_targets draw gs)"
    using targets_distinct[OF assms error_targets_ok(2,1)[OF assms]] .
  have f: "family_ok (gs_firehoses gs) (en_chans (gs_env gs))" using assms by (simp add: gs_ok_def)
  have len: "\<forall>a \<in> set (firehose_targets draw gs). a < length (en_chans (gs_env gs))"
    using firehose_targets_ok(2)[OF assms] owns_open[OF f] by (auto simp: chan_open_def)
  have "lost_at (firehose_targets draw gs) (delivered msg (error_targets appId gs) (en_chans (gs_env gs))) =
      lost_at (firehose_targets draw gs) (en_chans (gs_env gs))"
    using lost_at_append[OF dist len, of msg] by (simp add: lost_at_def)
  then show ?thesis
    by (simp add: BroadcastError_def app_broadcast_error[OF assms] firehose_broadcast[OF assms]
        delivered_append[OF dist])
qed

lemma RegisterAppSink_ok:
  assumes "gs_ok gs" and "chan_open (en_chans (gs_env gs)) c"
    and "\<not> owns (gs_apps gs) c" and "\<not> owns (gs_firehoses gs) c"
  shows "gs_ok (snd (RegisterAppSink c s gs))"
  using assms app.register_ok[of "gs_apps gs" "en_chans (gs_env gs)" c s]
  by (auto simp: RegisterAppSink_def mget_or_case gs_ok_def case_prod_unfold Let_def)

lemma RegisterFirehoseSink_ok:
  assumes "gs_ok gs" and "chan_open (en_chans (gs_env gs)) c"
    and "\<not> owns (gs_apps gs) c" and "\<not> owns (gs_firehoses gs) c"
  shows "gs_ok (snd (RegisterFirehoseSink c s gs))"
  using assms firehose.register_ok[of "gs_firehoses gs" "en_chans (gs_env gs)" c s]
  by (auto simp: RegisterFirehoseSink_def mget_or_case gs_ok_def case_prod_unfold Let_def)

lemma CloseAndDelete_ok:
  assumes "gs_ok gs"
  shows "\<exists>b gs'. CloseAndDelete s gs = Some (b, gs') \<and> gs_ok gs'"
proof (cases "mget (gs_apps gs) (sk_AppID s)")
  case None
  then show ?thesis using assms by (auto simp: CloseAndDelete_def)
next
  case (Some g)
  have f: "family_ok (gs_apps gs) (en_chans (gs_env gs))" using assms by (simp add: gs_ok_def)
  from app.unregister_ok[OF f Some, of s] obtain b g' cs' where
    "AppGroup_removeSink s g (en_chans (gs_env gs)) = Some (b, g', cs')"
    and r: "family_ok (if AppGroup_IsEmpty g' then mdel (sk_AppID s) (gs_apps gs)
      else mput (sk_AppID s) g' (gs_apps gs)) cs'"
    "\<And>a. owns (if AppGroup_IsEmpty g' then mdel (sk_AppID s) (gs_apps gs)
      else mput (sk_AppID s) g' (gs_apps gs)) a \<Longrightarrow> owns (gs_apps gs) a"
    "\<And>a. \<not> owns (gs_apps gs) a \<Longrightarrow> chan_open cs' a = chan_open (en_chans (gs_env gs)) a" by blast
  moreover have "family_ok (gs_firehoses gs) cs'"
    using assms r(3) unfolding gs_ok_def by (metis family_ok_chans)
  ultimately show ?thesis
    using assms by (simp add: CloseAndDelete_def Some gs_ok_def)
qed

lemma CloseAndDeleteFirehose_ok:
  assumes "gs_ok gs"
  shows "\<exists>b gs'. CloseAndDeleteFirehose s gs = Some (b, gs') \<and> gs_ok gs'"
proof (cases "mget (gs_firehoses gs) (sk_AppID s)")
  case None
  then show ?thesis using assms by (auto simp: CloseAndDeleteFirehose_def)
next
  case (Some g)
  have f: "family_ok (gs_firehoses gs) (en_chans (gs_env gs))" using assms by (simp add: gs_ok_def)
  from firehose.unregister_ok[OF f Some, of s] obtain b g' cs' where
    "firehoseGroup_removeSink s g (en_chans (gs_env gs)) = Some (b, g', cs')"
    and r: "family_ok (if firehoseGroup_IsEmpty g' then mdel (sk_AppID s) (gs_firehoses gs)
      else mput (sk_AppID s) g' (gs_firehoses gs)) cs'"
    "\<And>a. owns (if firehoseGroup_IsEmpty g' then mdel (sk_AppID s) (gs_firehoses gs)
      else mput (sk_AppID s) g' (gs_firehoses gs)) a \<Longrightarrow> owns (gs_firehoses gs) a"
    "\<And>a. \<not> owns (gs_firehoses gs) a \<Longrightarrow> chan_open cs' a = chan_open (en_chans (gs_env gs)) a" by blast
  moreover have "family_ok (gs_apps gs) cs'"
    using assms r(3) unfolding gs_ok_def by (metis family_ok_chans)
  ultimately show ?thesis
    using assms by (auto simp: CloseAndDeleteFirehose_def Some gs_ok_def)
qed

lemma slots_Nil [simp]: "slot [] k i = None" "\<not> owns [] a" "family_ok [] cs"
  by (simp_all add: slot_def owns_def family_ok_def)

lemma DeleteAll_ok:
  assumes "gs_ok gs"
  shows "\<exists>cs. DeleteAll gs = Some (gs\<lparr>gs_apps := [], gs_firehoses := [], gs_env := (gs_env gs)\<lparr>en_chans := cs\<rparr>\<rparr>)"
proof -
  have fa: "family_ok (gs_apps gs) (en_chans (gs_env gs))" and ff: "family_ok (gs_firehoses gs) (en_chans (gs_env gs))"
    and dis: "\<And>a. owns (gs_apps gs) a \<Longrightarrow> \<not> owns (gs_firehoses gs) a"
    using assms by (simp_all add: gs_ok_def)
  have keys: "\<forall>k. mget m k \<noteq> None \<longrightarrow> k \<in> fst ` set m" for m :: "(string, wrappers) gomap"
    by (simp add: map_of_eq_None_iff)
  obtain cs1 where a: "foldM (\<lambda>(k, g) (m, cs). map_option (\<lambda>(g', cs'). (mdel k m, cs')) (AppGroup_RemoveAllSinks g cs))
      (gs_apps gs) (gs_apps gs, en_chans (gs_env gs)) = Some ([], cs1)"
    "\<And>a. \<not> owns (gs_apps gs) a \<Longrightarrow> chan_open cs1 a = chan_open (en_chans (gs_env gs)) a"
    using app.delete_all_ok[OF fa subset_refl family_okD(1)[OF fa] keys] by blast
  have ff': "family_ok (gs_firehoses gs) cs1"
    using family_ok_chans[OF ff] a(2) dis by metis
  obtain cs2 where f: "foldM (\<lambda>(k, g) (m, cs). map_option (\<lambda>(g', cs'). (mdel k m, cs')) (firehoseGroup_RemoveAllSinks g cs))
      (gs_firehoses gs) (gs_firehoses gs, cs1) = Some ([], cs2)"
    using firehose.delete_all_ok[OF ff' subset_refl family_okD(1)[OF ff'] keys] by blast
  show ?thesis by (auto simp: DeleteAll_def a(1) f)
qed

lemma with_channel_ok:
  assumes "gs_ok gs" and "with_channel n gs = (c, gs1)"
  shows "gs_ok gs1" and "chan_open (en_chans (gs_env gs1)) c"
    and "\<not> owns (gs_apps gs1) c" and "\<not> owns (gs_firehoses gs1) c"
proof -
  let ?cs = "en_chans (gs_env gs)"
  have gs1: "gs_apps gs1 = gs_apps gs" "gs_firehoses gs1 = gs_firehoses gs" "c = length ?cs"
    "en_chans (gs_env gs1) = ?cs @ [\<lparr>ch_cap = n, ch_buf = [], ch_closed = False\<rparr>]"
    using assms(2) by (auto simp: with_channel_def chan_make_def)
  have "\<not> chan_open ?cs c" by (simp add: gs1 chan_open_def)
  then show "\<not> owns (gs_apps gs1) c" and "\<not> owns (gs_firehoses gs1) c"
    using assms(1) owns_open by (auto simp: gs_ok_def gs1(1,2))
  show "chan_open (en_chans (gs_env gs1)) c" by (simp add: gs1)
  show "gs_ok gs1" using assms(1) by (auto simp: gs_ok_def gs1 intro: family_ok_chans)
qed

lemma gs_step_ok:
  assumes "gs_ok gs"
  shows "\<exists>gs'. gs_step op gs = Some gs' \<and> gs_ok gs'"
proof (cases op)
  case (GS_Register n s)
  obtain c gs1 where w: "with_channel n gs = (c, gs1)" by (cases "with_channel n gs")
  show ?thesis using RegisterAppSink_ok[OF with_channel_ok[OF assms w]] by (simp add: GS_Register w)
next
  case (GS_RegisterFirehose n s)
  obtain c gs1 where w: "with_channel n gs = (c, gs1)" by (cases "with_channel n gs")
  show ?thesis using RegisterFirehoseSink_ok[OF with_channel_ok[OF assms w]] by (simp add: GS_RegisterFirehose w)
next
  case (GS_Broadcast draw appId msg)
  show ?thesis unfolding GS_Broadcast gs_step.simps Broadcast_eq[OF assms] using gs_ok_env[OF assms] by simp
next
  case (GS_BroadcastError draw appId msg)
  show ?thesis unfolding GS_BroadcastError gs_step.simps BroadcastError_eq[OF assms] using gs_ok_env[OF assms] by simp
next
  case (GS_Close s)
  show ?thesis using CloseAndDelete_ok[OF assms, of s] by (auto simp: GS_Close)
next
  case (GS_CloseFirehose s)
  show ?thesis using CloseAndDeleteFirehose_ok[OF assms, of s] by (auto simp: GS_CloseFirehose)
next
  case GS_DeleteAll
  show ?thesis using DeleteAll_ok[OF assms] by (auto simp: GS_DeleteAll gs_ok_def)
next
  case (GS_Receive a)
  show ?thesis using gs_ok_env[OF assms] by (simp add: GS_Receive)
qed

lemma gs_ok_new: "gs_ok NewGroupedSinks"
  by (simp add: gs_ok_def NewGroupedSinks_def)

lemma gs_run_ok: "\<exists>gs. foldM gs_step ops NewGroupedSinks = Some gs \<and> gs_ok gs"
  using foldM_inv[of gs_ok NewGroupedSinks ops gs_step] gs_ok_new gs_step_ok by blast

lemmas demo_defs = demo_ops_def demo_sink_def with_channel_def chan_make_def NewGroupedSinks_def
  RegisterAppSink_def RegisterFirehoseSink_def AppGroup_AddSink_def AppGroup_exists_def
  firehoseGroup_AddSink_def firehoseGroup_exists_def

lemma demo_state:
  "foldM gs_step demo_ops NewGroupedSinks = Some demo_state"
  "gs_apps demo_state = [(''app'', [(''drain'', \<lparr>sw_InputChan = 0, sw_Sink = demo_sink\<rparr>)])]"
  "gs_firehoses demo_state = [(''app'', [(''drain'', \<lparr>sw_InputChan = 1, sw_Sink = demo_sink\<rparr>)])]"
  "en_chans (gs_env demo_state) = replicate 2 \<lparr>ch_cap = 1, ch_buf = [], ch_closed = False\<rparr>"
  by (simp_all add: demo_state_def demo_defs numeral_2_eq_2 Let_def)

section \<open>Properties\<close>

text \<open>
  C1: whatever the sequence of registrations, broadcasts, removals and receptions, with any
  random draws, no operation panics: none sends on a closed channel and none closes a channel
  twice; and in the state reached every registered sink has an open channel of its own and is
  filed under its own application and identifier, and no empty group is left behind.
\<close>

theorem grouped_sinks_safe:
  "\<exists>gs. foldM gs_step ops NewGroupedSinks = Some gs \<and> gs_ok gs"
  by (rule gs_run_ok)

text \<open>
  C25: in every reachable state a broadcast puts the message once at the end of the channel of
  every sink of the application and of one sink of each firehose subscription, except where the
  channel is full; it changes nothing else, and the dropped counter grows by the number of full
  channels.
\<close>

theorem broadcast_delivers:
  assumes "foldM gs_step ops NewGroupedSinks = Some gs"
  shows "Broadcast draw appId msg gs = Some (gs\<lparr>gs_env := (gs_env gs)\<lparr>
    en_chans := delivered msg (app_targets appId gs @ firehose_targets draw gs) (en_chans (gs_env gs)),
    en_dropped := en_dropped (gs_env gs) + lost_at (app_targets appId gs @ firehose_targets draw gs) (en_chans (gs_env gs))\<rparr>\<rparr>)
    \<and> distinct (app_targets appId gs @ firehose_targets draw gs)"
proof -
  have ok: "gs_ok gs" using gs_run_ok[of ops] assms by simp
  show ?thesis using Broadcast_eq[OF ok] targets_distinct[OF ok subset_refl app_targets_ok(1)[OF ok]] by blast
qed

theorem broadcast_delivers_witness:
  "map_option (map ch_buf \<circ> en_chans \<circ> gs_env) (Broadcast (\<lambda>_. 7) ''app'' empty_v1 demo_state) =
     Some [[empty_v1], [empty_v1]]"
  using broadcast_delivers[OF demo_state(1), of "\<lambda>_. 7" "''app''" empty_v1]
  by (simp add: app_targets_def firehose_targets_def group_chans_def demo_state mget_or_def delivered_def
      chan_full_def numeral_2_eq_2)

text \<open>
  An error is broadcast to those sinks of the application that ask for errors and to one
  sink of each firehose subscription; what the former lose is counted as lost errors, what the
  latter lose as lost messages.
\<close>

theorem broadcast_error_delivers:
  assumes "foldM gs_step ops NewGroupedSinks = Some gs"
  shows "BroadcastError draw appId msg gs = Some (gs\<lparr>gs_env := (gs_env gs)\<lparr>
    en_chans := delivered msg (error_targets appId gs @ firehose_targets draw gs) (en_chans (gs_env gs)),
    en_dropped := en_dropped (gs_env gs) + lost_at (firehose_targets draw gs) (en_chans (gs_env gs)),
    en_errors := en_errors (gs_env gs) + lost_at (error_targets appId gs) (en_chans (gs_env gs))\<rparr>\<rparr>)"
proof -
  have ok: "gs_ok gs" using gs_run_ok[of ops] assms by simp
  show ?thesis by (rule BroadcastError_eq[OF ok])
qed

theorem broadcast_error_delivers_witness:
  "map_option (map ch_buf \<circ> en_chans \<circ> gs_env) (BroadcastError (\<lambda>_. 7) ''app'' empty_v1 demo_state) =
     Some [[], [empty_v1]]"
  using broadcast_error_delivers[OF demo_state(1), of "\<lambda>_. 7" "''app''" empty_v1]
  by (simp add: error_targets_def firehose_targets_def group_chans_def demo_state mget_or_def delivered_def
      chan_full_def numeral_2_eq_2 demo_sink_def)

text \<open>
  Registering a sink that is new succeeds, and closing it again finds it, closes its channel
  and leaves every lookup in the registry as it was before.
\<close>

theorem register_then_close:
  assumes "foldM gs_step ops NewGroupedSinks = Some gs0" and "with_channel n gs0 = (c, gs)"
    and "sk_AppID s \<noteq> []" and "sk_Identifier s \<noteq> []"
    and "slot (gs_apps gs) (sk_AppID s) (sk_Identifier s) = None"
  shows "\<exists>gs1 gs2. RegisterAppSink c s gs = (True, gs1) \<and> CloseAndDelete s gs1 = Some (True, gs2) \<and>
    mget (gs_apps gs2) = mget (gs_apps gs) \<and> gs_firehoses gs2 = gs_firehoses gs \<and>
    \<not> chan_open (en_chans (gs_env gs2)) c"
proof -
  have ok0: "gs_ok gs0" using gs_run_ok[of ops] assms(1) by simp
  note w = with_channel_ok[OF ok0 assms(2)]
  have f: "family_ok (gs_apps gs) (en_chans (gs_env gs))" using w(1) by (simp add: gs_ok_def)
  let ?a = "AppGroup_AddSink s c (mget_or [] (gs_apps gs) (sk_AppID s))"
  from app.register_unregister[OF f w(2) assms(5) refl] obtain g' cs' where
    "fst ?a" "AppGroup_removeSink s (snd ?a) (en_chans (gs_env gs)) = Some (True, g', cs')"
    "mget (if AppGroup_IsEmpty g' then mdel (sk_AppID s) (mput (sk_AppID s) (snd ?a) (gs_apps gs))
     else mput (sk_AppID s) g' (mput (sk_AppID s) (snd ?a) (gs_apps gs))) = mget (gs_apps gs)"
    "\<not> chan_open cs' c" by blast
  then show ?thesis
    using assms(3,4)
    by (auto simp: RegisterAppSink_def CloseAndDelete_def mget_or_case case_prod_unfold Let_def fun_eq_iff split: if_splits)
qed

theorem register_then_close_witness:
  "\<exists>c gs gs1 gs2. with_channel 3 demo_state = (c, gs) \<and>
    RegisterAppSink c (demo_sink\<lparr>sk_Identifier := ''ws''\<rparr>) gs = (True, gs1) \<and>
    CloseAndDelete (demo_sink\<lparr>sk_Identifier := ''ws''\<rparr>) gs1 = Some (True, gs2) \<and>
    mget (gs_apps gs2) = mget (gs_apps demo_state)"
proof -
  obtain c gs where w: "with_channel 3 demo_state = (c, gs)" by (cases "with_channel 3 demo_state")
  then have "gs_apps gs = gs_apps demo_state" by (auto simp: with_channel_def chan_make_def)
  with register_then_close[OF demo_state(1) w, of "demo_sink\<lparr>sk_Identifier := ''ws''\<rparr>"] w
  show ?thesis by (auto simp: demo_state slot_def demo_sink_def)
qed

end
