(* ===== verification/Recent_Sinks.thy ===== *)
theory Recent_Sinks
  imports Envelopes
begin

text \<open>
  The two sinks that keep recent data for an application, and the backoff of the sinks that
  write to a network.

  \<^item> \<open>doppler/internal/sinks/dump\<close>: the last log messages, in a ring of fixed size.
  \<^item> \<open>doppler/internal/sinks/containermetric\<close>: the newest container metric of each
    instance, with a time to live.
  \<^item> \<open>doppler/internal/sinks/retrystrategy\<close>: how long to wait before another try.

  The loop of a sink is run over a list of what its \<open>select\<close> receives. The locale
  \<open>newest_cache\<close> is the contract of a cache that keeps the newest entry per key; the
  traffic controller has another one.
\<close>

section \<open>The dump sink\<close>

text \<open>
  \<open>container/ring\<close>: the slots and the position of the element that the sink holds. A ring
  of size 0 is nil, and any use of it panics.
\<close>

record dump_sink =
  ds_appId :: string
  ds_slots :: "v1_envelope option list"
  ds_pos :: nat

definition NewDumpSink :: "string \<Rightarrow> uint32 \<Rightarrow> dump_sink" where
  "NewDumpSink appId bufferSize =
     \<lparr>ds_appId = appId, ds_slots = replicate (unat bufferSize) None, ds_pos = 0\<rparr>"

definition addMsg :: "v1_envelope \<Rightarrow> dump_sink \<Rightarrow> dump_sink option" where
  "addMsg msg d =
     (if ds_slots d = [] then None
      else let pos = (ds_pos d + 1) mod length (ds_slots d)
           in Some (d\<lparr>ds_pos := pos, ds_slots := (ds_slots d)[pos := Some msg]\<rparr>))"

text \<open>\<open>Next().Do(f)\<close> visits every element once, starting behind the position.\<close>

definition Dump :: "dump_sink \<Rightarrow> v1_envelope list" where
  "Dump d = List.map_filter id (rotate (ds_pos d + 1) (ds_slots d))"

text \<open>What the \<open>select\<close> of a sink receives: a message, the closed channel, or the timer.\<close>

datatype sink_event = Sink_Message v1_envelope | Sink_Closed | Sink_Timeout

fun dump_loop :: "events_pkg \<Rightarrow> sink_event list \<Rightarrow> dump_sink \<Rightarrow> dump_sink option" where
  "dump_loop pkg [] d = Some d"
| "dump_loop pkg (Sink_Message msg # es) d =
     (if GetEventType pkg msg \<noteq> Envelope_LogMessage then dump_loop pkg es d
      else Option.bind (addMsg msg d) (dump_loop pkg es))"
| "dump_loop pkg (Sink_Closed # es) d = Some d"
| "dump_loop pkg (Sink_Timeout # es) d = Some d"

section \<open>The container metric sink\<close>

record container_sink =
  cs_appID :: string
  cs_ttl :: int
  cs_metrics :: "(int, v1_envelope) gomap"

definition NewContainerMetricSink :: "string \<Rightarrow> int \<Rightarrow> container_sink" where
  "NewContainerMetricSink appID ttl = \<lparr>cs_appID = appID, cs_ttl = ttl, cs_metrics = []\<rparr>"

definition GetInstanceIndex :: "v1_envelope \<Rightarrow> int" where
  "GetInstanceIndex e = (case e1_ContainerMetric e of None \<Rightarrow> 0 | Some c \<Rightarrow> getI (cm_InstanceIndex c))"

definition GetTimestamp :: "v1_envelope \<Rightarrow> int" where
  "GetTimestamp e = getI (e1_Timestamp e)"

definition updateMetric :: "v1_envelope \<Rightarrow> (int, v1_envelope) gomap \<Rightarrow> (int, v1_envelope) gomap" where
  "updateMetric event m =
     (let instance_index = GetInstanceIndex event
      in case mget m instance_index of
           None \<Rightarrow> mput instance_index event m
         | Some old \<Rightarrow>
             if GetTimestamp old < GetTimestamp event then mput instance_index event m else m)"

fun container_loop :: "events_pkg \<Rightarrow> sink_event list \<Rightarrow> container_sink \<Rightarrow> container_sink" where
  "container_loop pkg [] s = s"
| "container_loop pkg (Sink_Message e # es) s =
     (if GetEventType pkg e \<noteq> Envelope_ContainerMetric then container_loop pkg es s
      else container_loop pkg es (s\<lparr>cs_metrics := updateMetric e (cs_metrics s)\<rparr>))"
| "container_loop pkg (Sink_Closed # es) s = s"
| "container_loop pkg (Sink_Timeout # es) s = s"

text \<open>The loop of \<open>GetLatest\<close>: it deletes what has expired and returns the rest.\<close>

fun latest_loop ::
    "int \<Rightarrow> (int \<times> v1_envelope) list \<Rightarrow> v1_envelope list \<Rightarrow> (int, v1_envelope) gomap
      \<Rightarrow> v1_envelope list \<times> (int, v1_envelope) gomap" where
  "latest_loop earliest [] envs m = (envs, m)"
| "latest_loop earliest ((i, env) # rest) envs m =
     (if GetTimestamp env < earliest then latest_loop earliest rest envs (mdel i m)
      else latest_loop earliest rest (envs @ [env]) m)"

definition GetLatest :: "int \<Rightarrow> container_sink \<Rightarrow> v1_envelope list \<times> container_sink" where
  "GetLatest now s =
     (let (envs, m) = latest_loop (now - cs_ttl s) (cs_metrics s) [] (cs_metrics s)
      in (envs, s\<lparr>cs_metrics := m\<rparr>))"

section \<open>Backoff\<close>

text \<open>
  \<open>Exponential\<close>, in nanoseconds. \<open>math.Pow(2, counter-1) * 100\<close> is exact here;
  \<open>None\<close> is the panic of \<open>rand.Intn(0)\<close>, for a counter far below 0.
\<close>

definition Exponential :: "nat \<Rightarrow> int \<Rightarrow> int option" where
  "Exponential draw counter0 =
     (if counter0 = 0 then Some 1000000
      else let counter = (if counter0 > 23 then 23 else counter0);
               tenthDuration = (if counter \<ge> 1 then 100 * 2 ^ nat (counter - 1) else 100 div 2 ^ nat (1 - counter));
               duration = tenthDuration * 10
           in if tenthDuration = 0 then None
              else let randomOffset = int draw mod (tenthDuration * 2) - tenthDuration
                   in Some (duration * 1000 + randomOffset * 1000))"

text \<open>
  \<open>CappedDouble\<close>, for a counter that \<open>time.Duration(math.Pow(2, counter))\<close> can hold;
  the product wraps as an \<open>int64\<close> does.
\<close>

definition CappedDouble :: "int \<Rightarrow> int \<Rightarrow> nat \<Rightarrow> int" where
  "CappedDouble start cap counter =
     (let delay = sint (word_of_int (start * 2 ^ counter) :: 64 word)
      in if delay > cap then cap else delay)"

section \<open>Specifications\<close>

text \<open>The log messages that a run of the dump sink takes in, up to its end.\<close>

fun taken_in :: "events_pkg \<Rightarrow> event_type \<Rightarrow> sink_event list \<Rightarrow> v1_envelope list" where
  "taken_in pkg t [] = []"
| "taken_in pkg t (Sink_Message msg # es) =
     (if GetEventType pkg msg = t then msg # taken_in pkg t es else taken_in pkg t es)"
| "taken_in pkg t (Sink_Closed # es) = []"
| "taken_in pkg t (Sink_Timeout # es) = []"

definition last_of :: "nat \<Rightarrow> 'a list \<Rightarrow> 'a list" where
  "last_of n xs = drop (length xs - n) xs"

text \<open>Small values for the witnesses.\<close>

definition small_container_pkg :: events_pkg where
  "small_container_pkg = \<lparr>default_EventType = Envelope_ContainerMetric, default_MessageType = LogMessage_OUT,
      default_Method = 1, default_PeerType = 1, Method_name = [], Method_value = [],
      PeerType_name = [], PeerType_value = []\<rparr>"

definition small_metric :: v1_envelope where
  "small_metric = empty_v1\<lparr>e1_Timestamp := Some 5\<rparr>"

section \<open>The ring\<close>

text \<open>
  The abstraction of the ring: the slots in the order of \<open>Do\<close>. A new message replaces the
  oldest slot and becomes the youngest.
\<close>

definition ring_view :: "dump_sink \<Rightarrow> v1_envelope option list" where
  "ring_view d = rotate (ds_pos d + 1) (ds_slots d)"

definition padded :: "nat \<Rightarrow> v1_envelope list \<Rightarrow> v1_envelope option list" where
  "padded n ms = last_of n (replicate n None @ map Some ms)"

lemma rotate_update:
  assumes "p < length xs"
  shows "rotate (Suc p) (xs[p := x]) = tl (rotate p xs) @ [x]"
proof (rule nth_equalityI)
  show "length (rotate (Suc p) (xs[p := x])) = length (tl (rotate p xs) @ [x])"
    using assms by auto
  fix i assume i: "i < length (rotate (Suc p) (xs[p := x]))"
  then have il: "i < length xs" by simp
  show "rotate (Suc p) (xs[p := x]) ! i = (tl (rotate p xs) @ [x]) ! i"
  proof (cases "i = length xs - 1")
    case True
    then have "Suc p + i = length xs + p" using assms by linarith
    then have "(Suc p + i) mod length xs = (length xs + p) mod length xs" by (simp only:)
    then have "(Suc p + i) mod length xs = p" using assms by simp
    then show ?thesis using True assms il by (simp add: nth_rotate nth_append del: rotate_Suc)
  next
    case False
    then have "Suc i < length xs" using il by linarith
    moreover from this have "(Suc p + i) mod length xs \<noteq> p"
      using assms by (auto simp: mod_if split: if_splits)
    moreover have "i < length xs - 1" using calculation by linarith
    ultimately show ?thesis
      using il by (simp add: nth_rotate nth_append nth_tl del: rotate_Suc)
  qed
qed

lemma addMsg_view:
  assumes "ds_slots d \<noteq> []" and "ds_pos d < length (ds_slots d)"
  shows "\<exists>d'. addMsg msg d = Some d' \<and> length (ds_slots d') = length (ds_slots d) \<and>
    ds_pos d' < length (ds_slots d') \<and> ring_view d' = tl (ring_view d) @ [Some msg]"
proof -
  let ?p = "(ds_pos d + 1) mod length (ds_slots d)"
  have "?p < length (ds_slots d)" using assms(1) by simp
  moreover have "rotate ?p (ds_slots d) = rotate (ds_pos d + 1) (ds_slots d)"
    by (metis rotate_conv_mod)
  ultimately show ?thesis
    using assms(1) rotate_update[of ?p "ds_slots d" "Some msg"]
    by (simp add: addMsg_def ring_view_def Let_def del: rotate_Suc)
qed

lemma padded_snoc:
  assumes "0 < n"
  shows "tl (padded n ms) @ [Some m] = padded n (ms @ [m])"
proof (cases "n \<le> length ms")
  case True
  then have "Suc (length ms) - n = Suc (length ms - n)" by (simp add: Suc_diff_le)
  then show ?thesis using True assms by (simp add: padded_def last_of_def drop_Suc tl_drop)
next
  case False
  then have "n - length ms = Suc (n - Suc (length ms))" by linarith
  then show ?thesis using False by (simp add: padded_def last_of_def)
qed

lemma padded_messages: "List.map_filter id (padded n ms) = last_of n ms"
proof -
  have "List.map_filter id (map Some xs) = xs" for xs :: "v1_envelope list"
    by (induction xs) (auto simp: List.map_filter_def)
  moreover have "List.map_filter id (replicate k None) = ([] :: v1_envelope list)" for k
    by (induction k) (auto simp: List.map_filter_def)
  moreover have "List.map_filter id (xs @ ys) = List.map_filter id xs @ List.map_filter id ys"
    for xs ys :: "v1_envelope option list"
    by (simp add: List.map_filter_def)
  ultimately show ?thesis
    by (simp add: padded_def last_of_def drop_map)
qed

lemma dump_loop_view:
  assumes "ds_slots d \<noteq> []" and "ds_pos d < length (ds_slots d)"
    and "ring_view d = padded (length (ds_slots d)) ms"
  shows "\<exists>d'. dump_loop pkg es d = Some d' \<and>
    ring_view d' = padded (length (ds_slots d)) (ms @ taken_in pkg Envelope_LogMessage es)"
  using assms
proof (induction pkg es d arbitrary: ms rule: dump_loop.induct)
  case (2 pkg msg es d)
  show ?case
  proof (cases "GetEventType pkg msg = Envelope_LogMessage")
    case True
    obtain d' where d': "addMsg msg d = Some d'" "length (ds_slots d') = length (ds_slots d)"
      "ds_pos d' < length (ds_slots d')" "ring_view d' = tl (ring_view d) @ [Some msg]"
      using addMsg_view[OF 2(3,4)] by blast
    then have v: "ring_view d' = padded (length (ds_slots d')) (ms @ [msg])" and ne: "ds_slots d' \<noteq> []"
      using 2(3,5) by (auto simp: padded_snoc)
    from 2(2)[OF _ d'(1) ne d'(3) v] True d'(1,2) show ?thesis by simp
  next
    case False
    with 2 show ?thesis by simp
  qed
qed auto

section \<open>A cache of the newest entries\<close>

text \<open>
  The contract: an entry is stored when its key is new or its time is later than that of the
  entry stored.
\<close>

locale newest_cache =
  fixes key :: "'e \<Rightarrow> 'k" and time :: "'e \<Rightarrow> int"
    and store :: "'e \<Rightarrow> ('k, 'e) gomap \<Rightarrow> ('k, 'e) gomap"
  assumes store_new: "mget m (key e) = None \<Longrightarrow> mget (store e m) = (mget m)(key e \<mapsto> e)"
    and store_later: "mget m (key e) = Some old \<Longrightarrow> time old < time e \<Longrightarrow> mget (store e m) = (mget m)(key e \<mapsto> e)"
    and store_stale: "mget m (key e) = Some old \<Longrightarrow> time e \<le> time old \<Longrightarrow> mget (store e m) = mget m"
begin

lemma store_mget: "mget (store e m) k =
  (if k = key e then (case mget m k of None \<Rightarrow> Some e | Some old \<Rightarrow> if time old < time e then Some e else Some old)
   else mget m k)"
  using store_new[of m e] store_later[of m e] store_stale[of m e]
  by (cases "mget m (key e)") (auto split: option.split)

lemma stored_key: "(mget (fold store es []) k = None) = (\<forall>e \<in> set es. key e \<noteq> k)"
  by (induction es rule: rev_induct) (auto simp: store_mget split: option.splits)

text \<open>After any entries, the one stored under a key is one of them and none with the key is later.\<close>

lemma stored_entry:
  assumes "mget (fold store es []) k = Some e"
  shows "e \<in> set es \<and> key e = k \<and> (\<forall>e' \<in> set es. key e' = k \<longrightarrow> time e' \<le> time e)"
  using assms
proof (induction es arbitrary: e rule: rev_induct)
  case (snoc x es)
  show ?case
  proof (cases "mget (fold store es []) k")
    case None
    then have "\<forall>e' \<in> set es. key e' \<noteq> k" by (simp add: stored_key)
    with snoc.prems None show ?thesis by (auto simp: store_mget split: if_splits)
  next
    case (Some a)
    from snoc.IH[OF Some] snoc.prems Some show ?thesis
      by (auto simp: store_mget split: if_splits)
  qed
qed simp

end

interpretation container: newest_cache GetInstanceIndex GetTimestamp updateMetric
  by unfold_locales (auto simp: updateMetric_def Let_def fun_eq_iff)

section \<open>Properties\<close>

lemma dump_loop_new:
  assumes "bufferSize \<noteq> 0"
  shows "\<exists>d. dump_loop pkg es (NewDumpSink appId bufferSize) = Some d \<and>
    ring_view d = padded (unat bufferSize) (taken_in pkg Envelope_LogMessage es)"
proof -
  let ?d = "NewDumpSink appId bufferSize"
  have n: "0 < unat bufferSize" using assms by (simp add: unat_gt_0)
  have "ring_view ?d = padded (length (ds_slots ?d)) []"
    by (simp add: NewDumpSink_def ring_view_def padded_def last_of_def)
  from dump_loop_view[OF _ _ this, of pkg es] n show ?thesis
    by (auto simp: NewDumpSink_def)
qed

text \<open>
  C26: after a run of the dump sink over any messages, \<open>Dump\<close> returns the last
  \<open>bufferSize\<close> log messages that came in before the channel closed or the timer fired,
  oldest first, and the run does not panic.
\<close>

theorem dump_returns_last_messages:
  assumes "bufferSize \<noteq> 0"
  shows "\<exists>d. dump_loop pkg es (NewDumpSink appId bufferSize) = Some d \<and>
    Dump d = last_of (unat bufferSize) (taken_in pkg Envelope_LogMessage es)"
  using dump_loop_new[OF assms, of pkg es appId] by (auto simp: Dump_def ring_view_def padded_messages[symmetric])

theorem dump_returns_last_messages_witness:
  "\<exists>d. dump_loop \<lparr>default_EventType = Envelope_LogMessage, default_MessageType = LogMessage_OUT,
      default_Method = 1, default_PeerType = 1, Method_name = [], Method_value = [],
      PeerType_name = [], PeerType_value = []\<rparr>
      [Sink_Message empty_v1, Sink_Message (empty_v1\<lparr>e1_Timestamp := Some 5\<rparr>), Sink_Timeout]
      (NewDumpSink ''app'' 1) = Some d \<and> Dump d = [empty_v1\<lparr>e1_Timestamp := Some 5\<rparr>]"
  using dump_returns_last_messages[of 1 "\<lparr>default_EventType = Envelope_LogMessage,
      default_MessageType = LogMessage_OUT, default_Method = 1, default_PeerType = 1, Method_name = [],
      Method_value = [], PeerType_name = [], PeerType_value = []\<rparr>"
      "[Sink_Message empty_v1, Sink_Message (empty_v1\<lparr>e1_Timestamp := Some 5\<rparr>), Sink_Timeout]" "''app''"]
  by (simp add: GetEventType_def empty_v1_def last_of_def)

lemma container_loop_metrics:
  "cs_metrics (container_loop pkg es s) = fold updateMetric (taken_in pkg Envelope_ContainerMetric es) (cs_metrics s) \<and>
   cs_ttl (container_loop pkg es s) = cs_ttl s"
  by (induction pkg es s rule: container_loop.induct) auto

lemma latest_loop_eq:
  shows "fst (latest_loop t xs envs m) = envs @ filter (\<lambda>e. t \<le> GetTimestamp e) (map snd xs)"
    and "mget (snd (latest_loop t xs envs m)) k =
      (if \<exists>e. (k, e) \<in> set xs \<and> GetTimestamp e < t then None else mget m k)"
proof -
  show "fst (latest_loop t xs envs m) = envs @ filter (\<lambda>e. t \<le> GetTimestamp e) (map snd xs)"
    by (induction t xs envs m rule: latest_loop.induct) auto
  show "mget (snd (latest_loop t xs envs m)) k =
      (if \<exists>e. (k, e) \<in> set xs \<and> GetTimestamp e < t then None else mget m k)"
    by (induction t xs envs m rule: latest_loop.induct) (auto split: if_splits)
qed

lemma wf_updateMetric: "wf_map m \<Longrightarrow> wf_map (updateMetric e m)"
  by (auto simp: updateMetric_def Let_def split: option.split)

lemma wf_fold_updateMetric: "wf_map m \<Longrightarrow> wf_map (fold updateMetric es m)"
  by (induction es arbitrary: m) (auto intro: wf_updateMetric)

lemma GetLatest_eq:
  assumes "s = container_loop pkg es (NewContainerMetricSink appID ttl)"
    and "ms = taken_in pkg Envelope_ContainerMetric es"
  shows "fst (GetLatest now s) =
    filter (\<lambda>e. now - ttl \<le> GetTimestamp e) (map snd (fold updateMetric ms []))"
  using container_loop_metrics[of pkg es "NewContainerMetricSink appID ttl"]
    latest_loop_eq(1)[of "now - ttl" "fold updateMetric ms []" "[]" "fold updateMetric ms []"]
  by (simp add: GetLatest_def case_prod_unfold Let_def assms NewContainerMetricSink_def)

lemma cached_entry:
  assumes "(k, e) \<in> set (fold updateMetric ms [])"
  shows "e \<in> set ms \<and> GetInstanceIndex e = k \<and>
    (\<forall>e' \<in> set ms. GetInstanceIndex e' = k \<longrightarrow> GetTimestamp e' \<le> GetTimestamp e)"
proof -
  have "wf_map (fold updateMetric ms [])" by (rule wf_fold_updateMetric) simp
  with assms show ?thesis using container.stored_entry[of ms k e] by (simp add: map_of_is_SomeI)
qed

lemma cached_alive:
  assumes "e \<in> set ms" and "t \<le> GetTimestamp e"
  shows "\<exists>e' \<in> set (map snd (fold updateMetric ms [])).
    GetInstanceIndex e' = GetInstanceIndex e \<and> t \<le> GetTimestamp e'"
proof -
  let ?m = "fold updateMetric ms []"
  obtain e' where e': "mget ?m (GetInstanceIndex e) = Some e'"
    using container.stored_key[of ms "GetInstanceIndex e"] assms(1) by (cases "mget ?m (GetInstanceIndex e)") auto
  from container.stored_entry[OF e'] assms have "t \<le> GetTimestamp e'" "GetInstanceIndex e' = GetInstanceIndex e"
    by force+
  moreover have "e' \<in> set (map snd ?m)" using map_of_SomeD[OF e'] by force
  ultimately show ?thesis by blast
qed

lemma cached_distinct: "distinct (map GetInstanceIndex (map snd (fold updateMetric ms [])))"
proof -
  have "map GetInstanceIndex (map snd (fold updateMetric ms [])) = map fst (fold updateMetric ms [])"
    using cached_entry by auto
  moreover have "wf_map (fold updateMetric ms [])" by (rule wf_fold_updateMetric) simp
  ultimately show ?thesis by (simp only:)
qed

text \<open>
  C27: \<open>GetLatest\<close> returns, for each instance, one of the container metrics that came in, no
  metric of that instance is later, and none is older than the time to live; an instance whose
  newest metric is still alive is always among them, and no instance is returned twice.
\<close>

theorem container_latest:
  assumes "s = container_loop pkg es (NewContainerMetricSink appID ttl)"
    and "ms = taken_in pkg Envelope_ContainerMetric es"
  shows "(\<forall>e \<in> set (fst (GetLatest now s)). e \<in> set ms \<and> now - ttl \<le> GetTimestamp e \<and>
      (\<forall>e' \<in> set ms. GetInstanceIndex e' = GetInstanceIndex e \<longrightarrow> GetTimestamp e' \<le> GetTimestamp e)) \<and>
    (\<forall>e \<in> set ms. now - ttl \<le> GetTimestamp e \<longrightarrow>
      GetInstanceIndex e \<in> GetInstanceIndex ` set (fst (GetLatest now s))) \<and>
    distinct (map GetInstanceIndex (fst (GetLatest now s)))"
proof -
  note latest = GetLatest_eq[OF assms, of now]
  have "e \<in> set ms \<and> now - ttl \<le> GetTimestamp e \<and>
      (\<forall>e' \<in> set ms. GetInstanceIndex e' = GetInstanceIndex e \<longrightarrow> GetTimestamp e' \<le> GetTimestamp e)"
    if "e \<in> set (fst (GetLatest now s))" for e
    using that cached_entry[of _ e ms] unfolding latest by auto
  moreover have "GetInstanceIndex e \<in> GetInstanceIndex ` set (fst (GetLatest now s))"
    if "e \<in> set ms" "now - ttl \<le> GetTimestamp e" for e
  proof -
    note alive = cached_alive[OF that]
    obtain e' where "e' \<in> set (map snd (fold updateMetric ms []))"
      "GetInstanceIndex e = GetInstanceIndex e'" "now - ttl \<le> GetTimestamp e'"
      using alive by metis
    then show ?thesis unfolding latest by (intro image_eqI) auto
  qed
  moreover have "distinct (map GetInstanceIndex (fst (GetLatest now s)))"
    unfolding latest by (rule distinct_map_filter[OF cached_distinct])
  ultimately show ?thesis by blast
qed

theorem container_latest_witness:
  "\<exists>s. s = container_loop small_container_pkg [Sink_Message small_metric, Sink_Message (small_metric\<lparr>e1_Timestamp := Some 8\<rparr>)]
      (NewContainerMetricSink ''app'' 10) \<and>
    GetInstanceIndex small_metric \<in> GetInstanceIndex ` set (fst (GetLatest 12 s))"
proof -
  let ?es = "[Sink_Message small_metric, Sink_Message (small_metric\<lparr>e1_Timestamp := Some 8\<rparr>)]"
  have "small_metric \<in> set (taken_in small_container_pkg Envelope_ContainerMetric ?es)" "2 \<le> GetTimestamp small_metric"
    by (simp_all add: small_metric_def small_container_pkg_def GetEventType_def GetTimestamp_def empty_v1_def)
  with container_latest[OF refl refl, of 12 small_container_pkg ?es "''app''" 10] show ?thesis by auto
qed

lemma exponential_value:
  assumes "1 \<le> c" and "t = 100 * 2 ^ nat (min c 23 - 1)"
  shows "Exponential draw c = Some (t * 9000 + 1000 * (int draw mod (t * 2)))" and "t > 0"
proof -
  show t: "t > 0" by (simp add: assms(2))
  have e: "(if c > 23 then 23 else c) = min c 23" by simp
  show "Exponential draw c = Some (t * 9000 + 1000 * (int draw mod (t * 2)))"
    using assms t unfolding Exponential_def e Let_def by (simp add: algebra_simps)
qed

lemma backoff_bounds:
  assumes "1 \<le> c" and "t = 100 * 2 ^ nat (min c 23 - 1)"
  shows "\<exists>d. Exponential draw c = Some d \<and> 9000 * t \<le> d \<and> d < 11000 * t"
proof -
  have "0 \<le> int draw mod (t * 2)" "int draw mod (t * 2) < t * 2"
    using exponential_value(2)[OF assms] by simp_all
  then show ?thesis using exponential_value(1)[OF assms] by (intro exI[of _ "t * 9000 + 1000 * (int draw mod (t * 2))"]) auto
qed

text \<open>
  The wait before try \<open>counter\<close> is within a tenth of \<open>2^(counter - 1)\<close> milliseconds,
  the exponent being capped at 22, whatever the random draw; so each wait up to the cap is
  longer than every wait before it but the first.
\<close>

theorem backoff_grows:
  assumes "1 \<le> c" and "c < c'" and "c' \<le> 23"
    and "Exponential draw c = Some d" and "Exponential draw' c' = Some d'"
  shows "d < d' \<and> 900000 * 2 ^ nat (c - 1) \<le> d \<and> d < 1100000 * 2 ^ nat (c - 1)"
proof -
  have upper: "900000 * 2 ^ nat (c - 1) \<le> d \<and> d < 1100000 * 2 ^ nat (c - 1)"
    using backoff_bounds[of c "100 * 2 ^ nat (min c 23 - 1)" draw] assms by auto
  have lower: "900000 * 2 ^ nat (c' - 1) \<le> d'"
    using backoff_bounds[of c' "100 * 2 ^ nat (min c' 23 - 1)" draw'] assms by auto
  have "(2::int) ^ Suc (nat (c - 1)) \<le> 2 ^ nat (c' - 1)" using assms(1,2) by (intro power_increasing) auto
  then show ?thesis using upper lower by simp
qed

theorem backoff_grows_witness:
  "\<exists>d d'. Exponential 7 1 = Some d \<and> Exponential 3 2 = Some d' \<and> d < d'"
proof -
  obtain d d' where "Exponential 7 1 = Some d" "Exponential 3 2 = Some d'"
    using backoff_bounds[of 1 _ 7] backoff_bounds[of 2 _ 3] by auto
  then show ?thesis using backoff_grows[of 1 2 7 d 3 d'] by auto
qed

end
