(* ===== verification/Syslog.thy ===== *)
theory Syslog
  imports Truncating_Buffer Recent_Sinks
begin

text \<open>
  Drains: the writers of \<open>doppler/internal/sinks/syslogwriter\<close> and the sink of
  \<open>doppler/internal/sinks/syslog\<close> that drives one of them.

  The network is an argument: what a dial, a write or a post returns. A connection of a writer
  has a number, so that one can tell an old connection from a new one. The time zone of the
  machine is the argument \<open>zone\<close>, the offset in seconds at a given time.

  The locale \<open>drain_writer\<close> is the contract of the two writers that keep a connection. The
  properties are the framing of the messages on a connection, that the sink writes each message
  once and in order, and what a watcher left over from an old connection does.
\<close>

section \<open>Timestamps\<close>

definition pad_digits :: "nat \<Rightarrow> nat \<Rightarrow> string" where
  "pad_digits w n = replicate (w - length (nat_digits n)) (CHR ''0'') @ nat_digits n"

text \<open>The date of a day counted from 1 January 1970: year, month and day.\<close>

definition civil_date :: "int \<Rightarrow> int \<times> int \<times> int" where
  "civil_date days =
     (let z = days + 719468; era = z div 146097; doe = z mod 146097;
          yoe = (doe - doe div 1460 + doe div 36524 - doe div 146096) div 365;
          doy = doe - (365 * yoe + yoe div 4 - yoe div 100);
          mp = (5 * doy + 2) div 153;
          d = doy - (153 * mp + 2) div 5 + 1;
          m = (if mp < 10 then mp + 3 else mp - 9)
      in (yoe + era * 400 + (if m \<le> 2 then 1 else 0), m, d))"

text \<open>The fraction \<open>.999999\<close>: microseconds without trailing zeros, nothing for none.\<close>

definition format_fraction :: "int \<Rightarrow> string" where
  "format_fraction nanos =
     (let ds = rev (dropWhile (\<lambda>c. c = CHR ''0'') (rev (pad_digits 6 (nat (nanos div 1000)))))
      in if ds = [] then [] else ''.'' @ ds)"

text \<open>The zone \<open>Z07:00\<close>.\<close>

definition format_zone :: "int \<Rightarrow> string" where
  "format_zone offset =
     (if offset = 0 then ''Z''
      else let mins = abs offset div 60
           in (if offset < 0 then ''-'' else ''+'') @ pad_digits 2 (nat (mins div 60)) @ '':'' @
              pad_digits 2 (nat (mins mod 60)))"

definition format_rfc5424 :: "(int \<Rightarrow> int) \<Rightarrow> int \<Rightarrow> string" where
  "format_rfc5424 zone t =
     (let secs = t div 1000000000; offset = zone secs; local_secs = secs + offset;
          (y, m, d) = civil_date (local_secs div 86400); s = local_secs mod 86400
      in pad_digits 4 (nat y) @ ''-'' @ pad_digits 2 (nat m) @ ''-'' @ pad_digits 2 (nat d) @ ''T'' @
         pad_digits 2 (nat (s div 3600)) @ '':'' @ pad_digits 2 (nat (s div 60 mod 60)) @ '':'' @
         pad_digits 2 (nat (s mod 60)) @ format_fraction (t mod 1000000000) @ format_zone offset)"

text \<open>\<open>strings.Replace(s, "Z", "+00:00", 1)\<close>\<close>

fun replace_zulu :: "string \<Rightarrow> string" where
  "replace_zulu [] = []"
| "replace_zulu (c # s) = (if c = CHR ''Z'' then ''+00:00'' @ s else c # replace_zulu s)"

section \<open>Messages\<close>

definition is_ascii :: "char \<Rightarrow> bool" where
  "is_ascii c \<longleftrightarrow> (of_char c :: nat) < 128"

definition upper_char :: "char \<Rightarrow> char" where
  "upper_char c =
     (let n = (of_char c :: nat) in if 97 \<le> n \<and> n \<le> 122 then char_of (n - 32) else c)"

text \<open>\<open>strings.ToUpper\<close>; beyond ASCII it depends on the Unicode tables, the argument \<open>uni\<close>.\<close>

definition toUpper :: "(string \<Rightarrow> string) \<Rightarrow> string \<Rightarrow> string" where
  "toUpper uni s = (if \<forall>c \<in> set s. is_ascii c then map upper_char s else uni s)"

definition clean :: "bytes \<Rightarrow> bytes" where
  "clean b = filter (\<lambda>c. c \<noteq> CHR 0x00) b"

text \<open>What the machine contributes to a message: the time zone and the Unicode tables.\<close>

record host_env =
  he_zone :: "int \<Rightarrow> int"
  he_upper :: "string \<Rightarrow> string"

definition createMessage ::
    "host_env \<Rightarrow> int \<Rightarrow> string \<Rightarrow> string \<Rightarrow> string \<Rightarrow> string \<Rightarrow> bytes \<Rightarrow> int \<Rightarrow> string" where
  "createMessage he priority appId hostname source0 sourceId msg0 timestamp =
     (let nl = (if \<not> hasSuffix msg0 [newline] then [newline] else []);
          msg = clean msg0;
          timeString = replace_zulu (format_rfc5424 (he_zone he) timestamp);
          source = toUpper (he_upper he) source0;
          formattedSource = (if hasPrefix source ''APP'' then ''['' @ source @ ''/'' @ sourceId @ '']''
                             else ''['' @ source @ '']'')
      in ''<'' @ itoa priority @ ''>1 '' @ timeString @ '' '' @ hostname @ '' '' @ appId @ '' '' @
         formattedSource @ '' - - '' @ msg @ nl)"

text \<open>Octet counting, as \<open>Write\<close> of both stream writers does it.\<close>

definition frame :: "string \<Rightarrow> bytes" where
  "frame syslogMsg = nat_digits (length syslogMsg) @ '' '' @ syslogMsg"

section \<open>The writers\<close>

record drain_url =
  du_Scheme :: string
  du_Host :: string
  du_Path :: string

datatype dial_result = Dial_TCP | Dial_Other | Dial_Error string

text \<open>A write that fails may have written some bytes.\<close>

datatype write_result = Write_All | Write_Failed nat string

record stream_writer =
  st_appId :: string
  st_host :: string
  st_hostname :: string
  st_conn :: "nat option"
  st_next :: nat
  st_streams :: "(nat, bytes) gomap"
  st_watching :: "nat list"

record write_args =
  wa_priority :: int
  wa_msg :: bytes
  wa_source :: string
  wa_sourceId :: string
  wa_timestamp :: int

definition NewSyslogWriter :: "drain_url \<Rightarrow> string \<Rightarrow> string \<Rightarrow> stream_writer result" where
  "NewSyslogWriter u appId hostname =
     (if du_Scheme u \<noteq> ''syslog''
      then Inl (''Invalid scheme '' @ du_Scheme u @ '', syslogWriter only supports syslog'')
      else Inr \<lparr>st_appId = appId, st_host = du_Host u, st_hostname = hostname, st_conn = None,
        st_next = 0, st_streams = [], st_watching = []\<rparr>)"

definition syslogWriter_Connect :: "dial_result \<Rightarrow> stream_writer \<Rightarrow> string option \<times> stream_writer" where
  "syslogWriter_Connect r w0 =
     (let w = w0\<lparr>st_conn := None\<rparr>
      in case r of
           Dial_Error err \<Rightarrow> (Some err, w)
         | Dial_Other \<Rightarrow> (Some ''Not a TCP connection'', w)
         | Dial_TCP \<Rightarrow>
             (None, w\<lparr>st_conn := Some (st_next w), st_next := st_next w + 1,
                      st_streams := mput (st_next w) [] (st_streams w),
                      st_watching := st_watching w @ [st_next w]\<rparr>))"

definition conn_write :: "nat \<Rightarrow> bytes \<Rightarrow> write_result \<Rightarrow> stream_writer \<Rightarrow> (nat result) \<times> stream_writer" where
  "conn_write c b r w =
     (let sent = mget_or [] (st_streams w) c
      in case r of
           Write_All \<Rightarrow> (Inr (length b), w\<lparr>st_streams := mput c (sent @ b) (st_streams w)\<rparr>)
         | Write_Failed n err \<Rightarrow> (Inl err, w\<lparr>st_streams := mput c (sent @ take n b) (st_streams w)\<rparr>))"

definition syslogWriter_Write ::
    "host_env \<Rightarrow> write_result \<Rightarrow> write_args \<Rightarrow> stream_writer \<Rightarrow> (nat result) \<times> stream_writer" where
  "syslogWriter_Write he r a w =
     (let syslogMsg = createMessage he (wa_priority a) (st_appId w) (st_hostname w) (wa_source a)
            (wa_sourceId a) (wa_msg a) (wa_timestamp a);
          finalMsg = frame syslogMsg
      in case st_conn w of
           None \<Rightarrow> (Inl ''Connection to syslog sink lost'', w)
         | Some c \<Rightarrow> conn_write c finalMsg r w)"

definition syslogWriter_Close :: "stream_writer \<Rightarrow> stream_writer" where
  "syslogWriter_Close w = (case st_conn w of None \<Rightarrow> w | Some c \<Rightarrow> w\<lparr>st_conn := None\<rparr>)"

text \<open>The goroutine that watches connection \<open>c\<close>, once a read from it has failed.\<close>

definition watchConnection :: "nat \<Rightarrow> stream_writer \<Rightarrow> stream_writer" where
  "watchConnection c w =
     (if c \<in> set (st_watching w) then syslogWriter_Close (w\<lparr>st_watching := remove1 c (st_watching w)\<rparr>) else w)"

definition NewTlsWriter :: "drain_url \<Rightarrow> string \<Rightarrow> string \<Rightarrow> stream_writer result" where
  "NewTlsWriter u appId hostname =
     (if du_Scheme u \<noteq> ''syslog-tls''
      then Inl (''Invalid scheme '' @ du_Scheme u @ '', tlsWriter only supports syslog-tls'')
      else Inr \<lparr>st_appId = appId, st_host = du_Host u, st_hostname = hostname, st_conn = None,
        st_next = 0, st_streams = [], st_watching = []\<rparr>)"

definition tlsWriter_Connect :: "dial_result \<Rightarrow> stream_writer \<Rightarrow> string option \<times> stream_writer" where
  "tlsWriter_Connect r w0 =
     (let w = w0\<lparr>st_conn := None\<rparr>
      in case r of
           Dial_Error err \<Rightarrow> (Some err, w)
         | _ \<Rightarrow> (None, w\<lparr>st_conn := Some (st_next w), st_next := st_next w + 1,
                         st_streams := mput (st_next w) [] (st_streams w)\<rparr>))"

definition tlsWriter_Close :: "stream_writer \<Rightarrow> stream_writer" where
  "tlsWriter_Close w = (case st_conn w of None \<Rightarrow> w | Some c \<Rightarrow> w\<lparr>st_conn := None\<rparr>)"

definition tlsWriter_Write ::
    "host_env \<Rightarrow> write_result \<Rightarrow> write_args \<Rightarrow> stream_writer \<Rightarrow> (nat result) \<times> stream_writer" where
  "tlsWriter_Write he r a w =
     (let syslogMsg = createMessage he (wa_priority a) (st_appId w) (st_hostname w) (wa_source a)
            (wa_sourceId a) (wa_msg a) (wa_timestamp a);
          finalMsg = frame syslogMsg
      in case st_conn w of
           None \<Rightarrow> (Inl ''Connection to syslog-tls sink lost'', w)
         | Some c \<Rightarrow> conn_write c finalMsg r w)"

record https_writer =
  hw_appId :: string
  hw_hostname :: string
  hw_lastError :: "string option"
  hw_posted :: "string list"

definition NewHttpsWriter :: "drain_url \<Rightarrow> string \<Rightarrow> string \<Rightarrow> https_writer result" where
  "NewHttpsWriter u appId hostname =
     (if du_Scheme u \<noteq> ''https''
      then Inl (''Invalid scheme '' @ du_Scheme u @ '', httpsWriter only supports https'')
      else Inr \<lparr>hw_appId = appId, hw_hostname = hostname, hw_lastError = None, hw_posted = []\<rparr>)"

definition httpsWriter_Connect :: "https_writer \<Rightarrow> string option \<times> https_writer" where
  "httpsWriter_Connect w = (hw_lastError w, w\<lparr>hw_lastError := None\<rparr>)"

text \<open>The result of the post: an error, or the status code.\<close>

definition writeHttp :: "int result \<Rightarrow> string \<Rightarrow> nat \<times> string option" where
  "writeHttp r finalMsg =
     (length finalMsg,
      case r of
        Inl _ \<Rightarrow> Some ''syslog https writer: failed to connect''
      | Inr code \<Rightarrow>
          if code < 200 \<or> code > 299
          then Some (''Syslog Writer: Post responded with '' @ itoa code @ '' status code'') else None)"

definition httpsWriter_Write ::
    "host_env \<Rightarrow> int result \<Rightarrow> write_args \<Rightarrow> https_writer \<Rightarrow> (nat \<times> string option) \<times> https_writer" where
  "httpsWriter_Write he r a w =
     (let syslogMsg = createMessage he (wa_priority a) (hw_appId w) (hw_hostname w) (wa_source a)
            (wa_sourceId a) (wa_msg a) (wa_timestamp a);
          (n, err) = writeHttp r syslogMsg
      in ((n, err), w\<lparr>hw_lastError := err, hw_posted := hw_posted w @ [syslogMsg]\<rparr>))"

datatype writer = HttpsWriter https_writer | SyslogWriter stream_writer | TlsWriter stream_writer

definition NewWriter :: "drain_url \<Rightarrow> string \<Rightarrow> string \<Rightarrow> writer result" where
  "NewWriter u appId hostname =
     (if du_Scheme u = ''https'' then map_sum id HttpsWriter (NewHttpsWriter u appId hostname)
      else if du_Scheme u = ''syslog'' then map_sum id SyslogWriter (NewSyslogWriter u appId hostname)
      else if du_Scheme u = ''syslog-tls'' then map_sum id TlsWriter (NewTlsWriter u appId hostname)
      else Inl (''Invalid scheme type '' @ du_Scheme u @ '', must be https, syslog-tls or syslog''))"

section \<open>The sink\<close>

definition SyslogSink_Identifier :: "drain_url \<Rightarrow> string" where
  "SyslogSink_Identifier u = (if du_Host u = [] then [] else du_Scheme u @ ''://'' @ du_Host u @ du_Path u)"

definition messagePriorityValue :: "events_pkg \<Rightarrow> log_message \<Rightarrow> int" where
  "messagePriorityValue pkg m =
     (case (case lm_MessageType m of None \<Rightarrow> default_MessageType pkg | Some t \<Rightarrow> t) of
        LogMessage_OUT \<Rightarrow> 14 | LogMessage_ERR \<Rightarrow> 11 | LogMessage_Other _ \<Rightarrow> -1)"

text \<open>The arguments of the write; \<open>None\<close> is the panic on a nil message or timestamp.\<close>

definition sendLogMessage :: "events_pkg \<Rightarrow> log_message option \<Rightarrow> write_args option" where
  "sendLogMessage pkg m0 =
     (case m0 of
        None \<Rightarrow> None
      | Some m \<Rightarrow>
          (case lm_Timestamp m of
             None \<Rightarrow> None
           | Some t \<Rightarrow> Some \<lparr>wa_priority = messagePriorityValue pkg m, wa_msg = lm_Message m,
               wa_source = getS (lm_SourceType m), wa_sourceId = getS (lm_SourceInstance m), wa_timestamp = t\<rparr>))"

text \<open>
  The loop of \<open>Run\<close> as a machine: waiting for a message, trying to send one (with the number
  of tries so far), or ended. What it waits for is the action.
\<close>

datatype sl_pc = SL_Idle | SL_Busy v1_envelope nat | SL_Ended

record syslog_run =
  sr_pc :: sl_pc
  sr_connected :: bool
  sr_written :: "write_args list"
  sr_errors :: nat
  sr_sleeps :: "int list"

datatype sl_action =
    SL_Message v1_envelope
  | SL_InputClosed
  | SL_Disconnect
  | SL_Connected
  | SL_DialFailed nat bool
  | SL_Written
  | SL_WriteFailed

definition SyslogSink_start :: syslog_run where
  "SyslogSink_start = \<lparr>sr_pc = SL_Idle, sr_connected = False, sr_written = [], sr_errors = 0, sr_sleeps = []\<rparr>"

text \<open>
  \<open>None\<close>: the action is not one that the loop waits for in this state, or it panics. After
  a failed dial the sink sleeps, and a disconnect may end the sleep and the loop: the flag of
  \<open>SL_DialFailed\<close>.
\<close>

definition syslog_step :: "events_pkg \<Rightarrow> sl_action \<Rightarrow> syslog_run \<Rightarrow> syslog_run option" where
  "syslog_step pkg a s =
     (case sr_pc s of
        SL_Ended \<Rightarrow> None
      | SL_Idle \<Rightarrow>
          (case a of
             SL_Disconnect \<Rightarrow> Some (s\<lparr>sr_pc := SL_Ended\<rparr>)
           | SL_InputClosed \<Rightarrow> Some (s\<lparr>sr_pc := SL_Ended\<rparr>)
           | SL_Message e \<Rightarrow> Some (s\<lparr>sr_pc := SL_Busy e 0\<rparr>)
           | _ \<Rightarrow> None)
      | SL_Busy e numberOfTries \<Rightarrow>
          if \<not> sr_connected s then
            (case a of
               SL_Connected \<Rightarrow> Some (s\<lparr>sr_connected := True\<rparr>)
             | SL_DialFailed draw disconnected \<Rightarrow>
                 map_option (\<lambda>d. s\<lparr>sr_errors := sr_errors s + 1, sr_sleeps := sr_sleeps s @ [d],
                   sr_pc := (if disconnected then SL_Ended else SL_Busy e (numberOfTries + 1))\<rparr>)
                   (Exponential draw (int numberOfTries))
             | _ \<Rightarrow> None)
          else
            (case sendLogMessage pkg (e1_LogMessage e) of
               None \<Rightarrow> None
             | Some args \<Rightarrow>
                 (case a of
                    SL_Written \<Rightarrow> Some (s\<lparr>sr_written := sr_written s @ [args], sr_pc := SL_Idle\<rparr>)
                  | SL_WriteFailed \<Rightarrow> Some (s\<lparr>sr_connected := False, sr_pc := SL_Busy e (numberOfTries + 1)\<rparr>)
                  | _ \<Rightarrow> None)))"

section \<open>Specifications\<close>

text \<open>The reader of an octet-counted stream.\<close>

definition parse_frame :: "bytes \<Rightarrow> (bytes \<times> bytes) option" where
  "parse_frame s =
     (let ds = takeWhile (\<lambda>c. c \<noteq> CHR '' '') s; rest = drop (length ds + 1) s
      in if length ds = length s then None
         else case parseUint ds of
                None \<Rightarrow> None
              | Some n \<Rightarrow> if n \<le> length rest then Some (take n rest, drop n rest) else None)"

function parse_frames :: "bytes \<Rightarrow> bytes list option" where
  "parse_frames s =
     (if s = [] then Some []
      else case parse_frame s of
             None \<Rightarrow> None
           | Some (m, rest) \<Rightarrow> if length rest < length s then map_option ((#) m) (parse_frames rest) else None)"
  by auto

termination
  by (relation "measure length") auto

declare parse_frames.simps [simp del]

text \<open>The arguments of the writes that the messages received call for.\<close>

fun received_args :: "events_pkg \<Rightarrow> sl_action list \<Rightarrow> write_args option list" where
  "received_args pkg [] = []"
| "received_args pkg (SL_Message e # as) = sendLogMessage pkg (e1_LogMessage e) # received_args pkg as"
| "received_args pkg (a # as) = received_args pkg as"

fun count_dial_failures :: "sl_action list \<Rightarrow> nat" where
  "count_dial_failures [] = 0"
| "count_dial_failures (SL_DialFailed d b # as) = 1 + count_dial_failures as"
| "count_dial_failures (a # as) = count_dial_failures as"

definition in_flight :: "events_pkg \<Rightarrow> syslog_run \<Rightarrow> write_args option list" where
  "in_flight pkg s = (case sr_pc s of SL_Busy e n \<Rightarrow> [sendLogMessage pkg (e1_LogMessage e)] | _ \<Rightarrow> [])"

text \<open>A writer connected once and then written to.\<close>

definition write_all ::
    "(write_result \<Rightarrow> write_args \<Rightarrow> stream_writer \<Rightarrow> (nat result) \<times> stream_writer)
      \<Rightarrow> write_args list \<Rightarrow> stream_writer \<Rightarrow> stream_writer" where
  "write_all write args w = fold (\<lambda>a w. snd (write Write_All a w)) args w"

definition writer_message :: "host_env \<Rightarrow> write_args \<Rightarrow> stream_writer \<Rightarrow> string" where
  "writer_message he a w = createMessage he (wa_priority a) (st_appId w) (st_hostname w) (wa_source a)
     (wa_sourceId a) (wa_msg a) (wa_timestamp a)"

definition sl_inv :: "events_pkg \<Rightarrow> sl_action list \<Rightarrow> syslog_run \<Rightarrow> bool" where
  "sl_inv pkg as s \<longleftrightarrow>
     (\<exists>lost. received_args pkg as = map Some (sr_written s) @ in_flight pkg s @ lost \<and>
        length (in_flight pkg s @ lost) \<le> 1 \<and> (sr_pc s \<noteq> SL_Ended \<longrightarrow> lost = [])) \<and>
     sr_errors s = count_dial_failures as"

text \<open>Small values for the witnesses.\<close>

definition small_env :: host_env where
  "small_env = \<lparr>he_zone = (\<lambda>_. 0), he_upper = id\<rparr>"

definition small_writer :: stream_writer where
  "small_writer = \<lparr>st_appId = ''app'', st_host = ''h'', st_hostname = ''doppler'', st_conn = None,
     st_next = 0, st_streams = [], st_watching = []\<rparr>"

definition small_args :: write_args where
  "small_args = \<lparr>wa_priority = 14, wa_msg = ''hi'', wa_source = ''App'', wa_sourceId = ''0'', wa_timestamp = 5\<rparr>"

definition small_message :: v1_envelope where
  "small_message = empty_v1\<lparr>e1_EventType := Some Envelope_LogMessage, e1_LogMessage := Some \<lparr>lm_Message = ''hi'',
     lm_MessageType = Some LogMessage_OUT, lm_Timestamp = Some 5, lm_AppId = None, lm_SourceType = None,
     lm_SourceInstance = None\<rparr>\<rparr>"

definition small_run :: "sl_action list" where
  "small_run = [SL_Message small_message, SL_DialFailed 3 False, SL_Connected, SL_WriteFailed, SL_Connected, SL_Written]"

section \<open>Frames\<close>

lemma parse_frame_frame: "parse_frame (frame m @ rest) = Some (m, rest)"
proof -
  have "takeWhile (\<lambda>c. c \<noteq> CHR '' '') (frame m @ rest) = nat_digits (length m)"
    using nat_digits_no_sign(3)[of "length m"]
    by (auto simp: frame_def intro!: trans[OF takeWhile_append2])
  then show ?thesis by (simp add: parse_frame_def frame_def Let_def)
qed

lemma frame_ne [simp]: "frame m \<noteq> []" "0 < length (frame m)"
  by (simp_all add: frame_def)

lemma parse_frames_frames: "parse_frames (concat (map frame ms)) = Some ms"
proof (induction ms)
  case Nil
  show ?case by (simp add: parse_frames.simps)
next
  case (Cons m ms)
  then show ?case by (subst parse_frames.simps) (simp add: parse_frame_frame)
qed

section \<open>The contract of a writer with a connection\<close>

locale drain_writer =
  fixes connect :: "dial_result \<Rightarrow> stream_writer \<Rightarrow> string option \<times> stream_writer"
    and send :: "write_result \<Rightarrow> write_args \<Rightarrow> stream_writer \<Rightarrow> (nat result) \<times> stream_writer"
    and close :: "stream_writer \<Rightarrow> stream_writer"
    and message :: "write_args \<Rightarrow> stream_writer \<Rightarrow> string"
  assumes connect_tcp: "connect Dial_TCP w = (None, w') \<Longrightarrow>
      st_conn w' = Some (st_next w) \<and> mget (st_streams w') (st_next w) = Some [] \<and>
      st_appId w' = st_appId w \<and> st_hostname w' = st_hostname w"
    and write_sends: "st_conn w = Some c \<Longrightarrow>
      send Write_All a w = (Inr (length (frame (message a w))),
        w\<lparr>st_streams := mput c (mget_or [] (st_streams w) c @ frame (message a w)) (st_streams w)\<rparr>)"
    and write_lost: "st_conn w = None \<Longrightarrow> \<exists>err. send r a w = (Inl err, w)"
    and close_closes: "st_conn (close w) = None"
    and message_cong: "st_appId w' = st_appId w \<Longrightarrow> st_hostname w' = st_hostname w \<Longrightarrow> message a w' = message a w"
begin

text \<open>What arrives on a connection is the frames of the messages written to it, in order.\<close>

lemma written_stream:
  assumes "st_conn w = Some c" and "mget (st_streams w) c = Some sent"
  shows "mget (st_streams (write_all send args w)) c = Some (sent @ concat (map (\<lambda>a. frame (message a w)) args))"
  using assms
proof (induction args arbitrary: w sent)
  case Nil
  then show ?case by (simp add: write_all_def)
next
  case (Cons a args)
  let ?w = "w\<lparr>st_streams := mput c (mget_or [] (st_streams w) c @ frame (message a w)) (st_streams w)\<rparr>"
  have "mget (st_streams ?w) c = Some (sent @ frame (message a w))"
    using Cons.prems(2) by (simp add: mget_or_def)
  from Cons.IH[OF _ this] Cons.prems(1) show ?case
    using message_cong[of ?w w] by (simp add: write_all_def write_sends[OF Cons.prems(1)])
qed

lemma stream_parses:
  assumes "connect Dial_TCP w = (None, w')"
  shows "Option.bind (mget (st_streams (write_all send args w')) (st_next w)) parse_frames =
    Some (map (\<lambda>a. message a w) args)"
proof -
  note c = connect_tcp[OF assms]
  have m: "message a w' = message a w" for a using c by (intro message_cong) simp_all
  from c written_stream[of w' "st_next w" "[]" args]
  have "mget (st_streams (write_all send args w')) (st_next w) =
      Some (concat (map frame (map (\<lambda>a. message a w) args)))" by (simp add: m comp_def)
  then show ?thesis by (simp only: Option.bind.simps parse_frames_frames)
qed

end

interpretation syslog: drain_writer syslogWriter_Connect "syslogWriter_Write he" syslogWriter_Close "writer_message he"
  by unfold_locales
    (auto simp: syslogWriter_Connect_def syslogWriter_Write_def syslogWriter_Close_def writer_message_def
      conn_write_def Let_def split: option.split)

interpretation tls: drain_writer tlsWriter_Connect "tlsWriter_Write he" tlsWriter_Close "writer_message he"
  by unfold_locales
    (auto simp: tlsWriter_Connect_def tlsWriter_Write_def tlsWriter_Close_def writer_message_def
      conn_write_def Let_def split: option.split)

section \<open>The loop of the sink\<close>

lemma received_args_append: "received_args pkg (as @ bs) = received_args pkg as @ received_args pkg bs"
  by (induction pkg as rule: received_args.induct) auto

lemma count_dial_append: "count_dial_failures (as @ bs) = count_dial_failures as + count_dial_failures bs"
  by (induction as rule: count_dial_failures.induct) auto

lemma syslog_step_inv:
  assumes "sl_inv pkg as s" and "syslog_step pkg a s = Some s'"
  shows "sl_inv pkg (as @ [a]) s'"
  using assms
  by (cases "sr_pc s"; cases a)
     (auto simp: sl_inv_def syslog_step_def in_flight_def received_args_append count_dial_append
       split: if_splits option.splits)

lemma syslog_run_inv:
  "foldM (syslog_step pkg) as SyslogSink_start = Some s \<Longrightarrow> sl_inv pkg as s"
proof (induction as arbitrary: s rule: rev_induct)
  case Nil
  then show ?case by (auto simp: sl_inv_def SyslogSink_start_def in_flight_def)
next
  case (snoc a as)
  then obtain s1 where "foldM (syslog_step pkg) as SyslogSink_start = Some s1" "syslog_step pkg a s1 = Some s"
    by (auto simp: foldM_append bind_eq_Some_conv)
  with snoc.IH show ?case using syslog_step_inv by blast
qed

section \<open>Properties\<close>

text \<open>
  C29: the bytes that a syslog writer sends on a new connection are read back, by a reader that
  counts octets, as exactly the syslog messages written to it, in order: no message can be torn
  or merged, whatever bytes it holds.
\<close>

theorem syslog_stream_parses:
  assumes "syslogWriter_Connect Dial_TCP w = (None, w')"
  shows "Option.bind (mget (st_streams (write_all (syslogWriter_Write he) args w')) (st_next w)) parse_frames =
    Some (map (\<lambda>a. createMessage he (wa_priority a) (st_appId w) (st_hostname w) (wa_source a)
      (wa_sourceId a) (wa_msg a) (wa_timestamp a)) args)"
  using syslog.stream_parses[OF assms] by (simp add: writer_message_def)

theorem syslog_stream_parses_witness:
  "\<exists>w'. syslogWriter_Connect Dial_TCP small_writer = (None, w') \<and>
    Option.bind (mget (st_streams (write_all (syslogWriter_Write small_env) [small_args, small_args] w')) 0) parse_frames =
    Some (map (\<lambda>a. createMessage small_env (wa_priority a) ''app'' ''doppler'' (wa_source a)
      (wa_sourceId a) (wa_msg a) (wa_timestamp a)) [small_args, small_args])"
proof -
  obtain w' where w': "syslogWriter_Connect Dial_TCP small_writer = (None, w')"
    by (simp add: syslogWriter_Connect_def Let_def)
  from syslog_stream_parses[OF w', of small_env "[small_args, small_args]"] w' show ?thesis
    by (simp add: small_writer_def)
qed

text \<open>
  Every syslog message ends in a newline, even when its last bytes are removed by
  \<open>clean\<close>, and the log message contributes no NUL byte to it: what stands before it depends on
  the other fields only.
\<close>

theorem createMessage_line:
  "\<exists>header body. createMessage he priority appId hostname source sourceId msg timestamp =
      header @ body @ [newline] \<and> CHR 0x00 \<notin> set body \<and>
    (\<forall>msg'. \<exists>body'. createMessage he priority appId hostname source sourceId msg' timestamp = header @ body')"
proof -
  let ?h = "''<'' @ itoa priority @ ''>1 '' @ replace_zulu (format_rfc5424 (he_zone he) timestamp) @ '' '' @
    hostname @ '' '' @ appId @ '' '' @
    (if hasPrefix (toUpper (he_upper he) source) ''APP''
     then ''['' @ toUpper (he_upper he) source @ ''/'' @ sourceId @ '']''
     else ''['' @ toUpper (he_upper he) source @ '']'') @ '' - - ''"
  let ?nl = "\<lambda>m. if \<not> hasSuffix m [newline] then [newline] else []"
  obtain h where eq: "createMessage he priority appId hostname source sourceId m timestamp = h @ clean m @ ?nl m" for m
    by (rule that[of ?h]) (simp add: createMessage_def Let_def)
  have "\<exists>body. clean msg @ ?nl msg = body @ [newline] \<and> CHR 0x00 \<notin> set body"
  proof (cases "hasSuffix msg [newline]")
    case True
    then obtain t where "msg = t @ [newline]" by (auto simp: hasSuffix_iff)
    then show ?thesis by (auto simp: clean_def newline_def)
  next
    case False
    then show ?thesis by (intro exI[of _ "clean msg"]) (simp add: clean_def)
  qed
  then obtain body where "clean msg @ ?nl msg = body @ [newline]" "CHR 0x00 \<notin> set body" by blast
  then show ?thesis
    unfolding eq by - (rule exI[of _ h], rule exI[of _ body], auto)
qed

text \<open>
  C28: the loop of the syslog sink writes the messages it received once each and in order. At
  most one message is received and not written: the one it is trying to send, or, when a
  disconnect ended the loop while it slept, the one it gave up. Every failed dial was reported.
\<close>

theorem syslog_sink_in_order:
  assumes "foldM (syslog_step pkg) as SyslogSink_start = Some s"
  shows "\<exists>rest. received_args pkg as = map Some (sr_written s) @ rest \<and> length rest \<le> 1 \<and>
    (sr_pc s = SL_Idle \<longrightarrow> rest = []) \<and> sr_errors s = count_dial_failures as"
proof -
  from syslog_run_inv[OF assms] obtain lost where
    "received_args pkg as = map Some (sr_written s) @ in_flight pkg s @ lost"
    "length (in_flight pkg s @ lost) \<le> 1" "sr_pc s \<noteq> SL_Ended \<longrightarrow> lost = []"
    "sr_errors s = count_dial_failures as" unfolding sl_inv_def by blast
  then show ?thesis
    by (intro exI[of _ "in_flight pkg s @ lost"]) (auto simp: in_flight_def)
qed

theorem syslog_sink_in_order_witness:
  "\<exists>s. foldM (syslog_step small_pkg) small_run SyslogSink_start = Some s \<and>
    received_args small_pkg small_run = map Some (sr_written s) \<and> sr_errors s = 1"
proof -
  obtain s where s: "foldM (syslog_step small_pkg) small_run SyslogSink_start = Some s" and pc: "sr_pc s = SL_Idle"
    by (simp add: small_run_def SyslogSink_start_def syslog_step_def sendLogMessage_def small_message_def
        Exponential_def empty_v1_def)
  from syslog_sink_in_order[OF s] pc s show ?thesis by (auto simp: small_run_def)
qed

text \<open>
  The goroutine that watches an old connection closes whatever connection the writer has
  when it wakes up: after a reconnect it closes the new one, which the peer has not closed, and
  the next write fails.
\<close>

theorem stale_watcher_closes:
  assumes "syslogWriter_Connect Dial_TCP w = (None, w1)" and "syslogWriter_Connect Dial_TCP w1 = (None, w2)"
    and "st_next w \<notin> set (st_watching w)"
  shows "st_conn w2 = Some (st_next w + 1) \<and> st_conn (watchConnection (st_next w) w2) = None \<and>
    (\<exists>err w3. syslogWriter_Write he r a (watchConnection (st_next w) w2) = (Inl err, w3))"
proof -
  have w2: "st_conn w2 = Some (st_next w + 1)" "st_next w \<in> set (st_watching w2)"
    using assms(1,2) by (auto simp: syslogWriter_Connect_def Let_def)
  then have "st_conn (watchConnection (st_next w) w2) = None"
    by (simp add: watchConnection_def syslogWriter_Close_def)
  moreover from this obtain err where
    "syslogWriter_Write he r a (watchConnection (st_next w) w2) = (Inl err, watchConnection (st_next w) w2)"
    using syslog.write_lost by blast
  ultimately show ?thesis using w2(1) by blast
qed

theorem stale_watcher_closes_witness:
  "\<exists>w1 w2. syslogWriter_Connect Dial_TCP small_writer = (None, w1) \<and> syslogWriter_Connect Dial_TCP w1 = (None, w2) \<and>
    st_conn w2 = Some 1 \<and> st_conn (watchConnection 0 w2) = None"
proof -
  obtain w1 where 1: "syslogWriter_Connect Dial_TCP small_writer = (None, w1)"
    by (simp add: syslogWriter_Connect_def Let_def)
  obtain w2 where 2: "syslogWriter_Connect Dial_TCP w1 = (None, w2)"
    by (simp add: syslogWriter_Connect_def Let_def)
  from stale_watcher_closes[OF 1 2, of small_env Write_All small_args] 1 2 show ?thesis
    by (simp add: small_writer_def)
qed

end
