(* ===== verification/Blacklist.thy ===== *)
theory Blacklist
  imports Syslog
begin

text \<open>
  Which drain addresses are allowed: \<open>doppler/internal/iprange\<close> and
  \<open>doppler/internal/sinkserver/blacklist\<close>.

  The parsing of URLs and addresses and the name resolution of package \<open>net\<close> are the fields of
  \<open>net_env\<close>. A parsed address is its bytes; the theorems assume of \<open>net.ParseIP\<close> only what its
  documentation says, that an address it returns has sixteen bytes.
\<close>

record net_env =
  ne_Parse :: "string \<Rightarrow> drain_url result"
  ne_ParseIP :: "string \<Rightarrow> string option"
  ne_ResolveIPAddr :: "string \<Rightarrow> string result"
  ne_url_text :: "drain_url \<Rightarrow> string"

section \<open>Ranges of addresses\<close>

record ip_range =
  ir_Start :: string
  ir_End :: string

text \<open>\<open>bytes.Compare\<close>; a nil address is an empty slice.\<close>

fun bytes_Compare :: "string \<Rightarrow> string \<Rightarrow> int" where
  "bytes_Compare [] [] = 0"
| "bytes_Compare [] (b # bs) = -1"
| "bytes_Compare (a # as) [] = 1"
| "bytes_Compare (a # as) (b # bs) =
     (if (of_char a :: nat) < of_char b then -1
      else if (of_char b :: nat) < of_char a then 1 else bytes_Compare as bs)"

definition ip_bytes :: "net_env \<Rightarrow> string \<Rightarrow> string" where
  "ip_bytes net s = (case ne_ParseIP net s of None \<Rightarrow> [] | Some ip \<Rightarrow> ip)"

fun ValidateIpAddresses :: "net_env \<Rightarrow> ip_range list \<Rightarrow> string option" where
  "ValidateIpAddresses net [] = None"
| "ValidateIpAddresses net (r # rs) =
     (if ne_ParseIP net (ir_Start r) = None
      then Some (''Invalid IP Address for Blacklist IP Range: '' @ ir_Start r)
      else if ne_ParseIP net (ir_End r) = None
      then Some (''Invalid IP Address for Blacklist IP Range: '' @ ir_End r)
      else if bytes_Compare (ip_bytes net (ir_Start r)) (ip_bytes net (ir_End r)) > 0
      then Some (''Invalid Blacklist IP Range: Start '' @ ir_Start r @ '' has to be before End '' @ ir_End r)
      else ValidateIpAddresses net rs)"

datatype ip_error = ResolutionFailure string | Incomplete_URL string

fun outside_ranges :: "net_env \<Rightarrow> string \<Rightarrow> ip_range list \<Rightarrow> bool" where
  "outside_ranges net ip [] = True"
| "outside_ranges net ip (r # rs) =
     (if bytes_Compare ip (ip_bytes net (ir_Start r)) \<ge> 0 \<and> bytes_Compare ip (ip_bytes net (ir_End r)) \<le> 0
      then False else outside_ranges net ip rs)"

definition IpOutsideOfRanges :: "net_env \<Rightarrow> drain_url \<Rightarrow> ip_range list \<Rightarrow> ip_error + bool" where
  "IpOutsideOfRanges net testURL ranges =
     (if length (du_Host testURL) = 0
      then Inl (Incomplete_URL (''Incomplete URL '' @ ne_url_text net testURL @
        ''. This could be caused by an URL without slashes or protocol.''))
      else let host = hd (split_on (CHR '':'') (du_Host testURL))
           in case ne_ParseIP net host of
                Some ipAddress \<Rightarrow> Inr (outside_ranges net ipAddress ranges)
              | None \<Rightarrow>
                  (case ne_ResolveIPAddr net host of
                     Inl err \<Rightarrow> Inl (ResolutionFailure err)
                   | Inr ipAddr \<Rightarrow> Inr (outside_ranges net (ip_bytes net ipAddr) ranges)))"

section \<open>The blacklist\<close>

definition CheckUrl :: "net_env \<Rightarrow> ip_range list \<Rightarrow> string \<Rightarrow> drain_url result" where
  "CheckUrl net blacklistIPs rawUrl =
     (case ne_Parse net rawUrl of
        Inl err \<Rightarrow> Inl err
      | Inr outputURL \<Rightarrow>
          (case IpOutsideOfRanges net outputURL blacklistIPs of
             Inl (ResolutionFailure err) \<Rightarrow> Inr outputURL
           | Inl (Incomplete_URL err) \<Rightarrow> Inl err
           | Inr ipNotBlacklisted \<Rightarrow>
               if ipNotBlacklisted then Inr outputURL else Inl ''Syslog Drain URL is blacklisted''))"

section \<open>Addresses as numbers\<close>

definition ip_value :: "string \<Rightarrow> nat" where
  "ip_value ip = foldl (\<lambda>n b. 256 * n + of_char b) 0 ip"

text \<open>The address that a host text stands for, if it is one or resolves to one.\<close>

definition host_address :: "net_env \<Rightarrow> string \<Rightarrow> string option" where
  "host_address net host =
     (case ne_ParseIP net host of
        Some ip \<Rightarrow> Some ip
      | None \<Rightarrow> (case ne_ResolveIPAddr net host of Inl _ \<Rightarrow> None | Inr a \<Rightarrow> ne_ParseIP net a))"

definition range_values :: "net_env \<Rightarrow> ip_range \<Rightarrow> nat set" where
  "range_values net r = {ip_value (ip_bytes net (ir_Start r)) .. ip_value (ip_bytes net (ir_End r))}"

text \<open>A resolver that knows the addresses of one byte and one name.\<close>

definition tiny_ip :: "string \<Rightarrow> string" where
  "tiny_ip s = replicate 15 (CHR 0x00) @ s"

definition tiny_net :: net_env where
  "tiny_net = \<lparr>ne_Parse = (\<lambda>raw. Inr \<lparr>du_Scheme = ''syslog'', du_Host = raw, du_Path = []\<rparr>),
     ne_ParseIP = (\<lambda>s. if length s = 1 \<and> s \<noteq> ''['' then Some (tiny_ip s) else None),
     ne_ResolveIPAddr = (\<lambda>s. if s = ''name'' then Inr ''5'' else Inl ''no such host''),
     ne_url_text = (\<lambda>u. [])\<rparr>"

lemma ip_value_Nil [simp]: "ip_value [] = 0"
  by (simp add: ip_value_def)

lemma of_char_byte: "(of_char c :: nat) < 256"
  by simp

lemma ip_value_fold: "foldl (\<lambda>n b. 256 * n + of_char b) k ip = k * 256 ^ length ip + ip_value ip"
proof (induction ip arbitrary: k)
  case (Cons b ip)
  show ?case
    using Cons[of "256 * k + of_char b"] Cons[of "of_char b"] by (simp add: ip_value_def algebra_simps)
qed simp

lemma ip_value_Cons: "ip_value (b # ip) = of_char b * 256 ^ length ip + ip_value ip"
  using ip_value_fold[of "of_char b" ip] by (simp add: ip_value_def)

lemma ip_value_bound: "ip_value ip < 256 ^ length ip"
proof (induction ip)
  case (Cons b ip)
  have "of_char b * 256 ^ length ip + ip_value ip < (of_char b + 1) * 256 ^ length ip"
    using Cons by simp
  also have "\<dots> \<le> 256 * 256 ^ length ip" using of_char_byte[of b] by (intro mult_right_mono) linarith+
  finally show ?case by (simp add: ip_value_Cons)
qed simp

lemma digits_less:
  assumes "x < (B :: nat)" and "a < b"
  shows "a * B + x < b * B + y"
proof -
  have "a * B + x < (a + 1) * B" using assms(1) by simp
  also have "\<dots> \<le> b * B" using assms(2) by (intro mult_right_mono) auto
  finally show ?thesis by simp
qed

lemma bytes_Compare_value:
  "length as = length bs \<Longrightarrow>
   bytes_Compare as bs = (if ip_value as < ip_value bs then -1 else if ip_value bs < ip_value as then 1 else 0)"
proof (induction as bs rule: bytes_Compare.induct)
  case (4 a as b bs)
  then have l: "length as = length bs" by simp
  consider "(of_char a :: nat) < of_char b" | "(of_char b :: nat) < of_char a" | "(of_char a :: nat) = of_char b"
    by linarith
  then show ?case
  proof cases
    case 1
    then show ?thesis
      using digits_less[OF ip_value_bound[of as] 1, of "ip_value bs"] by (simp add: ip_value_Cons l)
  next
    case 2
    then show ?thesis
      using digits_less[OF ip_value_bound[of bs] 2, of "ip_value as"] by (simp add: ip_value_Cons l)
  next
    case 3
    then show ?thesis using 4(1) l by (simp add: ip_value_Cons)
  qed
qed simp_all

lemma outside_ranges_iff:
  "outside_ranges net ip rs \<longleftrightarrow> (\<forall>r \<in> set rs.
     \<not> (bytes_Compare ip (ip_bytes net (ir_Start r)) \<ge> 0 \<and> bytes_Compare ip (ip_bytes net (ir_End r)) \<le> 0))"
  by (induction rs) auto

lemma validated_range:
  "ValidateIpAddresses net rs = None \<Longrightarrow> r \<in> set rs \<Longrightarrow>
   ne_ParseIP net (ir_Start r) \<noteq> None \<and> ne_ParseIP net (ir_End r) \<noteq> None \<and>
   bytes_Compare (ip_bytes net (ir_Start r)) (ip_bytes net (ir_End r)) \<le> 0"
  by (induction rs) (auto split: if_splits)

lemma ip_bytes_length:
  "\<forall>s ip. ne_ParseIP net s = Some ip \<longrightarrow> length ip = 16 \<Longrightarrow> ne_ParseIP net s \<noteq> None \<Longrightarrow> length (ip_bytes net s) = 16"
  by (auto simp: ip_bytes_def)

lemma in_range_value:
  assumes "\<forall>s ip. ne_ParseIP net s = Some ip \<longrightarrow> length ip = 16" and "length ip = 16"
    and "ne_ParseIP net (ir_Start r) \<noteq> None" and "ne_ParseIP net (ir_End r) \<noteq> None"
  shows "bytes_Compare ip (ip_bytes net (ir_Start r)) \<ge> 0 \<and> bytes_Compare ip (ip_bytes net (ir_End r)) \<le> 0
    \<longleftrightarrow> ip_value ip \<in> range_values net r"
  using assms(2) ip_bytes_length[OF assms(1,3)] ip_bytes_length[OF assms(1,4)]
  by (auto simp: bytes_Compare_value range_values_def)

section \<open>Properties\<close>

text \<open>
  C30: once the configured ranges have passed validation, each of them is a nonempty interval of
  numbers, and a drain whose host has an address is accepted exactly when the number of that
  address lies in none of the intervals: the comparison of the bytes is the comparison of the numbers.
\<close>

theorem blacklist_intervals:
  assumes parse_ip: "\<forall>s ip. ne_ParseIP net s = Some ip \<longrightarrow> length ip = 16"
    and valid: "ValidateIpAddresses net ranges = None"
    and url: "ne_Parse net raw = Inr u" "du_Host u \<noteq> []"
    and addr: "host_address net (hd (split_on (CHR '':'') (du_Host u))) = Some ip"
  shows "(\<forall>r \<in> set ranges. range_values net r \<noteq> {}) \<and>
    CheckUrl net ranges raw =
      (if \<exists>r \<in> set ranges. ip_value ip \<in> range_values net r
       then Inl ''Syslog Drain URL is blacklisted'' else Inr u)"
proof -
  have len: "length ip = 16" using addr parse_ip by (auto simp: host_address_def split: option.splits sum.splits)
  have "range_values net r \<noteq> {}" if "r \<in> set ranges" for r
    using validated_range[OF valid that] ip_bytes_length[OF parse_ip]
    by (auto simp: range_values_def bytes_Compare_value split: if_splits)
  moreover have "outside_ranges net ip ranges \<longleftrightarrow> \<not> (\<exists>r \<in> set ranges. ip_value ip \<in> range_values net r)"
    using validated_range[OF valid] in_range_value[OF parse_ip len] by (auto simp: outside_ranges_iff)
  moreover have "IpOutsideOfRanges net u ranges = Inr (outside_ranges net ip ranges)"
    using url addr by (auto simp: IpOutsideOfRanges_def host_address_def ip_bytes_def Let_def
        split: option.splits sum.splits)
  ultimately show ?thesis using url by (simp add: CheckUrl_def)
qed

lemma tiny_net_16: "\<forall>s ip. ne_ParseIP tiny_net s = Some ip \<longrightarrow> length ip = 16"
  by (simp add: tiny_net_def tiny_ip_def)

theorem blacklist_intervals_witness:
  "CheckUrl tiny_net [\<lparr>ir_Start = ''3'', ir_End = ''6''\<rparr>] ''name:514'' = Inl ''Syslog Drain URL is blacklisted''"
proof -
  let ?r = "\<lparr>ir_Start = ''3'', ir_End = ''6''\<rparr>"
  let ?u = "\<lparr>du_Scheme = ''syslog'', du_Host = ''name:514'', du_Path = []\<rparr>"
  have "ValidateIpAddresses tiny_net [?r] = None" by code_simp
  moreover have "ne_Parse tiny_net ''name:514'' = Inr ?u" by code_simp
  moreover have "du_Host ?u \<noteq> []" by simp
  moreover have "host_address tiny_net (hd (split_on (CHR '':'') (du_Host ?u))) = Some (tiny_ip ''5'')" by code_simp
  moreover have "ip_value (tiny_ip ''5'') \<in> range_values tiny_net ?r" by code_simp
  ultimately show ?thesis using blacklist_intervals[OF tiny_net_16, of "[?r]" "''name:514''" ?u "tiny_ip ''5''"] by simp
qed

text \<open>
  A drain on a literal IPv6 address gets past the blacklist whatever the ranges are: the host
  is cut at its first colon, what is left of it starts with an opening bracket, and since that neither is an
  address nor resolves to one, the URL counts as not resolvable for now.
\<close>

theorem blacklist_ipv6_literal:
  assumes "ne_Parse net raw = Inr u" and "du_Host u = ''['' @ rest"
    and "\<forall>p. ne_ParseIP net (''['' @ p) = None" and "\<forall>p. \<exists>err. ne_ResolveIPAddr net (''['' @ p) = Inl err"
  shows "CheckUrl net ranges raw = Inr u"
proof -
  obtain p where p: "hd (split_on (CHR '':'') (du_Host u)) = ''['' @ p"
    using assms(2) by (cases "split_on (CHR '':'') rest") auto
  then show ?thesis
    using assms(1,2) assms(3)[rule_format, of p] assms(4)[rule_format, of p]
    by (auto simp: CheckUrl_def IpOutsideOfRanges_def Let_def)
qed

theorem blacklist_ipv6_literal_witness:
  "CheckUrl tiny_net [\<lparr>ir_Start = ''0'', ir_End = ''9''\<rparr>] ''[::5]:514'' =
     Inr \<lparr>du_Scheme = ''syslog'', du_Host = ''[::5]:514'', du_Path = []\<rparr>"
  by (rule blacklist_ipv6_literal[where rest = "''::5]:514''"]) (auto simp: tiny_net_def)

end
