(* ===== verification/Service_Store.thy ===== *)
theory Service_Store
  imports Go_Prelude
begin

text \<open>
  The drains that the store announces, \<open>doppler/internal/store\<close>: the cache of the services
  of each application, and the watcher that turns the events of the store into additions and
  removals.

  The hash of \<open>Id\<close> and the decoding of the JSON value of a node are arguments. The two output
  channels are one list of announcements, in the order in which they are sent. The locale
  \<open>service_cache\<close> is the interface \<open>AppServiceCache\<close> as the watcher relies on it, stated
  over the set of services that a cache holds; the watcher's lemmas are proved from it.
\<close>

section \<open>Services\<close>

record service_info =
  si_appId :: string
  si_url :: string
  si_hostname :: string

definition NewServiceInfo :: "string \<Rightarrow> string \<Rightarrow> string \<Rightarrow> service_info" where
  "NewServiceInfo appId url hostname = \<lparr>si_appId = appId, si_url = url, si_hostname = hostname\<rparr>"

text \<open>\<open>sha1\<close> gives the bytes of the hash; \<open>%x\<close> prints two digits for each.\<close>

definition hex_digit :: "nat \<Rightarrow> char" where
  "hex_digit n = ''0123456789abcdef'' ! (n mod 16)"

definition hex_string :: "string \<Rightarrow> string" where
  "hex_string bs = concat (map (\<lambda>b. [hex_digit (of_char b div 16), hex_digit (of_char b)]) bs)"

definition ServiceInfo_Id :: "(string \<Rightarrow> string) \<Rightarrow> service_info \<Rightarrow> string" where
  "ServiceInfo_Id sha1 s = hex_string (sha1 (si_url s))"

section \<open>The cache\<close>

type_synonym service_map = "(string, (string, service_info) gomap) gomap"

definition cache_Add :: "(string \<Rightarrow> string) \<Rightarrow> service_info \<Rightarrow> service_map \<Rightarrow> service_map" where
  "cache_Add sha1 s c =
     (let byId = (case mget c (si_appId s) of Some m \<Rightarrow> m | None \<Rightarrow> [])
      in mput (si_appId s) (mput (ServiceInfo_Id sha1 s) s byId) c)"

definition cache_Remove :: "(string \<Rightarrow> string) \<Rightarrow> service_info \<Rightarrow> service_map \<Rightarrow> service_map" where
  "cache_Remove sha1 s c =
     (case mget c (si_appId s) of
        None \<Rightarrow> mdel (si_appId s) c
      | Some m \<Rightarrow>
          let m' = mdel (ServiceInfo_Id sha1 s) m
          in if length m' = 0 then mdel (si_appId s) c else mput (si_appId s) m' c)"

definition cache_values :: "(string, service_info) gomap \<Rightarrow> service_info list" where
  "cache_values m = map snd m"

definition cache_RemoveApp :: "string \<Rightarrow> service_map \<Rightarrow> service_info list \<times> service_map" where
  "cache_RemoveApp appId c = (cache_values (mget_or [] c appId), mdel appId c)"

definition cache_Get :: "string \<Rightarrow> service_map \<Rightarrow> service_info list" where
  "cache_Get appId c = cache_values (mget_or [] c appId)"

definition cache_GetAll :: "service_map \<Rightarrow> service_info list" where
  "cache_GetAll c = concat (map (cache_values \<circ> snd) c)"

definition cache_Size :: "service_map \<Rightarrow> nat" where
  "cache_Size c = sum_list (map (\<lambda>(_, m). if length m > 0 then length m else 1) c)"

definition cache_Exists :: "(string \<Rightarrow> string) \<Rightarrow> service_info \<Rightarrow> service_map \<Rightarrow> bool" where
  "cache_Exists sha1 s c =
     (case mget c (si_appId s) of None \<Rightarrow> False | Some m \<Rightarrow> mget m (ServiceInfo_Id sha1 s) \<noteq> None)"

text \<open>The interface \<open>AppServiceWatcherCache\<close>, and the cache as a value of it.\<close>

record 'c cache_ops =
  co_Add :: "service_info \<Rightarrow> 'c \<Rightarrow> 'c"
  co_Remove :: "service_info \<Rightarrow> 'c \<Rightarrow> 'c"
  co_RemoveApp :: "string \<Rightarrow> 'c \<Rightarrow> service_info list \<times> 'c"
  co_Get :: "string \<Rightarrow> 'c \<Rightarrow> service_info list"
  co_Exists :: "service_info \<Rightarrow> 'c \<Rightarrow> bool"

definition NewAppServiceCache :: "(string \<Rightarrow> string) \<Rightarrow> service_map cache_ops" where
  "NewAppServiceCache sha1 =
     \<lparr>co_Add = cache_Add sha1, co_Remove = cache_Remove sha1, co_RemoveApp = cache_RemoveApp,
      co_Get = cache_Get, co_Exists = cache_Exists sha1\<rparr>"

section \<open>Paths of the store\<close>

text \<open>\<open>path.Clean\<close>, on the elements of a path; the flag says whether the path is rooted.\<close>

fun clean_elems :: "bool \<Rightarrow> string list \<Rightarrow> string list \<Rightarrow> string list" where
  "clean_elems rooted acc [] = rev acc"
| "clean_elems rooted acc (e # es) =
     (if e = [] \<or> e = ''.'' then clean_elems rooted acc es
      else if e = ''..'' then
        (case acc of
           [] \<Rightarrow> clean_elems rooted (if rooted then [] else [e]) es
         | a # as \<Rightarrow> if a = ''..'' then clean_elems rooted (e # acc) es else clean_elems rooted as es)
      else clean_elems rooted (e # acc) es)"

definition path_Clean :: "string \<Rightarrow> string" where
  "path_Clean p =
     (let rooted = hasPrefix p ''/''; es = clean_elems rooted [] (split_on (CHR ''/'') p)
      in if rooted then ''/'' @ join_with ''/'' es
         else if es = [] then ''.'' else join_with ''/'' es)"

text \<open>\<open>path.Dir\<close>: what stands before the last slash, cleaned.\<close>

definition path_Dir :: "string \<Rightarrow> string" where
  "path_Dir p = path_Clean (rev (dropWhile (\<lambda>c. c \<noteq> CHR ''/'') (rev p)))"

definition path_Base :: "string \<Rightarrow> string" where
  "path_Base p =
     (if p = [] then ''.''
      else let q = rev (dropWhile (\<lambda>c. c = CHR ''/'') (rev p));
               b = rev (takeWhile (\<lambda>c. c \<noteq> CHR ''/'') (rev q))
           in if b = [] then ''/'' else b)"

section \<open>The watcher\<close>

record store_node =
  sn_Key :: string
  sn_Value :: string
  sn_Dir :: bool

text \<open>The decoded metadata: drain URL and hostname. \<open>None\<close> is a decoding error.\<close>

type_synonym unmarshal_fun = "string \<Rightarrow> (string \<times> string) option"

definition appServiceFromStoreNode :: "unmarshal_fun \<Rightarrow> store_node \<Rightarrow> service_info option" where
  "appServiceFromStoreNode unmarshal node =
     (let appId = path_Base (path_Dir (sn_Key node))
      in case unmarshal (sn_Value node) of
           None \<Rightarrow> None
         | Some (drainURL, hostname) \<Rightarrow> Some (NewServiceInfo appId drainURL hostname))"

datatype announcement = Out_Add service_info | Out_Remove service_info

text \<open>The watcher: its cache and what it has sent so far.\<close>

type_synonym 'c watcher = "'c \<times> announcement list"

definition watcher_Add :: "'c cache_ops \<Rightarrow> service_info \<Rightarrow> 'c watcher \<Rightarrow> 'c watcher" where
  "watcher_Add ops s w =
     (let (c, out) = w
      in if \<not> co_Exists ops s c then (co_Add ops s c, out @ [Out_Add s]) else (c, out))"

definition watcher_Remove :: "'c cache_ops \<Rightarrow> service_info \<Rightarrow> 'c watcher \<Rightarrow> 'c watcher" where
  "watcher_Remove ops s w =
     (let (c, out) = w
      in if co_Exists ops s c then (co_Remove ops s c, out @ [Out_Remove s]) else (c, out))"

definition watcher_RemoveApp :: "'c cache_ops \<Rightarrow> string \<Rightarrow> 'c watcher \<Rightarrow> 'c watcher" where
  "watcher_RemoveApp ops appId w =
     (let (c, out) = w; (ss, c') = co_RemoveApp ops appId c in (c', out @ map Out_Remove ss))"

definition deleteEvent ::
    "'c cache_ops \<Rightarrow> unmarshal_fun \<Rightarrow> store_node \<Rightarrow> 'c watcher \<Rightarrow> 'c watcher" where
  "deleteEvent ops unmarshal node w =
     (if sn_Dir node then watcher_RemoveApp ops (path_Base (sn_Key node)) w
      else case appServiceFromStoreNode unmarshal node of
             None \<Rightarrow> w | Some s \<Rightarrow> watcher_Remove ops s w)"

definition registerExistingServicesFromStore ::
    "'c cache_ops \<Rightarrow> unmarshal_fun \<Rightarrow> store_node list list \<Rightarrow> 'c watcher \<Rightarrow> 'c watcher" where
  "registerExistingServicesFromStore ops unmarshal apps w =
     fold (\<lambda>node w. case appServiceFromStoreNode unmarshal node of
         None \<Rightarrow> w | Some s \<Rightarrow> watcher_Add ops s w) (concat apps) w"

datatype store_event =
    CreateEvent store_node
  | UpdateEvent store_node
  | DeleteEvent store_node
  | ExpireEvent store_node
  | OtherEvent

fun watcher_event ::
    "'c cache_ops \<Rightarrow> unmarshal_fun \<Rightarrow> store_event \<Rightarrow> 'c watcher \<Rightarrow> 'c watcher" where
  "watcher_event ops unmarshal (CreateEvent node) w =
     (if sn_Dir node \<or> length (sn_Value node) = 0 then w
      else case appServiceFromStoreNode unmarshal node of None \<Rightarrow> w | Some s \<Rightarrow> watcher_Add ops s w)"
| "watcher_event ops unmarshal (UpdateEvent node) w =
     (if sn_Dir node \<or> length (sn_Value node) = 0 then w
      else case appServiceFromStoreNode unmarshal node of None \<Rightarrow> w | Some s \<Rightarrow> watcher_Add ops s w)"
| "watcher_event ops unmarshal (DeleteEvent prev) w = deleteEvent ops unmarshal prev w"
| "watcher_event ops unmarshal (ExpireEvent prev) w = deleteEvent ops unmarshal prev w"
| "watcher_event ops unmarshal OtherEvent w = w"

text \<open>\<open>Run\<close>: the services already in the store, then the events.\<close>

definition watcher_Run ::
    "'c cache_ops \<Rightarrow> unmarshal_fun \<Rightarrow> store_node list list \<Rightarrow> store_event list
      \<Rightarrow> 'c watcher \<Rightarrow> 'c watcher" where
  "watcher_Run ops unmarshal existing evs w =
     fold (watcher_event ops unmarshal) evs (registerExistingServicesFromStore ops unmarshal existing w)"

section \<open>Specifications\<close>

text \<open>What a cache stands for: one service per application and identifier.\<close>

definition cache_abs :: "service_map \<Rightarrow> string \<times> string \<Rightarrow> service_info option" where
  "cache_abs c = (\<lambda>(a, i). case mget c a of None \<Rightarrow> None | Some m \<Rightarrow> mget m i)"

definition cache_inv :: "(string \<Rightarrow> string) \<Rightarrow> service_map \<Rightarrow> bool" where
  "cache_inv sha1 c \<longleftrightarrow>
     wf_map c \<and> (\<forall>a m. mget c a = Some m \<longrightarrow> m \<noteq> [] \<and> wf_map m) \<and>
     (\<forall>a i s. cache_abs c (a, i) = Some s \<longrightarrow> si_appId s = a \<and> ServiceInfo_Id sha1 s = i)"

text \<open>A listener that does what the announcements say, starting from nothing.\<close>

definition service_key :: "(string \<Rightarrow> string) \<Rightarrow> service_info \<Rightarrow> string \<times> string" where
  "service_key sha1 s = (si_appId s, ServiceInfo_Id sha1 s)"

fun heard :: "(service_info \<Rightarrow> 'k) \<Rightarrow> announcement list \<Rightarrow> ('k \<Rightarrow> service_info option) \<Rightarrow> 'k \<Rightarrow> service_info option" where
  "heard key [] f = f"
| "heard key (Out_Add s # as) f = heard key as (f(key s \<mapsto> s))"
| "heard key (Out_Remove s # as) f = heard key as (f(key s := None))"

text \<open>No service is announced twice without being withdrawn in between, and none withdrawn that is not there.\<close>

fun proper :: "(service_info \<Rightarrow> 'k) \<Rightarrow> announcement list \<Rightarrow> 'k set \<Rightarrow> bool" where
  "proper key [] A \<longleftrightarrow> True"
| "proper key (Out_Add s # as) A \<longleftrightarrow>
     key s \<notin> A \<and> proper key as (insert (key s) A)"
| "proper key (Out_Remove s # as) A \<longleftrightarrow>
     key s \<in> A \<and> proper key as (A - {key s})"

text \<open>A watcher whose announcements account for its cache.\<close>

definition told ::
    "(service_info \<Rightarrow> 'k) \<Rightarrow> ('c \<Rightarrow> 'k \<Rightarrow> service_info option) \<Rightarrow> ('c \<Rightarrow> bool) \<Rightarrow> 'c watcher \<Rightarrow> bool" where
  "told key abst keeps w \<longleftrightarrow>
     keeps (fst w) \<and> heard key (snd w) Map.empty = abst (fst w) \<and> proper key (snd w) {}"

text \<open>Additions and removals on the cache, and on the map it stands for.\<close>

datatype cache_action = Do_Add service_info | Do_Remove service_info | Do_RemoveApp string

fun cache_step :: "(string \<Rightarrow> string) \<Rightarrow> cache_action \<Rightarrow> service_map \<Rightarrow> service_map" where
  "cache_step sha1 (Do_Add s) c = cache_Add sha1 s c"
| "cache_step sha1 (Do_Remove s) c = cache_Remove sha1 s c"
| "cache_step sha1 (Do_RemoveApp a) c = snd (cache_RemoveApp a c)"

fun cache_spec ::
    "(string \<Rightarrow> string) \<Rightarrow> cache_action \<Rightarrow> (string \<times> string \<Rightarrow> service_info option)
      \<Rightarrow> string \<times> string \<Rightarrow> service_info option" where
  "cache_spec sha1 (Do_Add s) f = f(service_key sha1 s \<mapsto> s)"
| "cache_spec sha1 (Do_Remove s) f = f(service_key sha1 s := None)"
| "cache_spec sha1 (Do_RemoveApp a) f = (\<lambda>k. if fst k = a then None else f k)"

section \<open>Announcements\<close>

lemma heard_append: "heard key (as @ bs) f = heard key bs (heard key as f)"
proof (induction as arbitrary: f)
  case (Cons a as)
  then show ?case by (cases a) (simp_all del: fun_upd_apply)
qed simp

lemma heard_removes: "heard key (map Out_Remove ss) f = (\<lambda>k. if k \<in> key ` set ss then None else f k)"
  by (induction ss arbitrary: f) (auto simp: fun_eq_iff)

lemma proper_append: "proper key (as @ bs) (dom f) \<longleftrightarrow> proper key as (dom f) \<and> proper key bs (dom (heard key as f))"
proof (induction as arbitrary: f)
  case (Cons a as)
  show ?case
  proof (cases a)
    case (Out_Add s)
    then show ?thesis using Cons[of "f(key s \<mapsto> s)"] by (simp del: fun_upd_apply)
  next
    case (Out_Remove s)
    then show ?thesis using Cons[of "f(key s := None)"] by (simp del: fun_upd_apply)
  qed
qed simp

lemmas proper_append_start = proper_append[where f = Map.empty, simplified]

lemma proper_removes: "distinct (map key ss) \<Longrightarrow> key ` set ss \<subseteq> A \<Longrightarrow> proper key (map Out_Remove ss) A"
proof (induction ss arbitrary: A)
  case (Cons a ss)
  then have "key ` set ss \<subseteq> A - {key a}" by (metis (no_types, lifting) Diff_iff distinct.simps(2) image_subset_iff insert_subset list.set_map list.simps(15) list.simps(9) singletonD subset_Diff_insert Diff_empty)
  with Cons show ?case by simp
qed simp

section \<open>The cache refines a map\<close>

lemma cache_abs_Add:
  "cache_abs (cache_Add sha1 s c) = (cache_abs c)((si_appId s, ServiceInfo_Id sha1 s) \<mapsto> s)"
  by (auto simp: fun_eq_iff cache_abs_def cache_Add_def Let_def split: option.split)

lemma cache_abs_Remove:
  "cache_abs (cache_Remove sha1 s c) = (cache_abs c)((si_appId s, ServiceInfo_Id sha1 s) := None)"
proof (cases "mget c (si_appId s)")
  case None
  then show ?thesis by (auto simp: fun_eq_iff cache_abs_def cache_Remove_def split: option.split)
next
  case (Some m)
  have "mget m i = None" if "mdel (ServiceInfo_Id sha1 s) m = []" "i \<noteq> ServiceInfo_Id sha1 s" for i
    using that mget_mdel[of "ServiceInfo_Id sha1 s" m i] by simp
  then show ?thesis
    using Some by (auto simp: fun_eq_iff cache_abs_def cache_Remove_def Let_def split: option.split)
qed

lemma cache_abs_RemoveApp:
  "cache_abs (snd (cache_RemoveApp appId c)) = (\<lambda>(a, i). if a = appId then None else cache_abs c (a, i))"
  by (auto simp: fun_eq_iff cache_abs_def cache_RemoveApp_def)

lemma cache_Exists_abs: "cache_Exists sha1 s c \<longleftrightarrow> cache_abs c (si_appId s, ServiceInfo_Id sha1 s) \<noteq> None"
  by (simp add: cache_Exists_def cache_abs_def split: option.split)

lemma cache_inv_Add: "cache_inv sha1 c \<Longrightarrow> cache_inv sha1 (cache_Add sha1 s c)"
  unfolding cache_inv_def cache_abs_Add
  by (auto simp: cache_Add_def Let_def update_nonempty split: option.splits if_splits)

lemma cache_inv_Remove: "cache_inv sha1 c \<Longrightarrow> cache_inv sha1 (cache_Remove sha1 s c)"
  unfolding cache_inv_def cache_abs_Remove
  by (auto simp: cache_Remove_def Let_def split: option.splits if_splits)

lemma cache_inv_RemoveApp: "cache_inv sha1 c \<Longrightarrow> cache_inv sha1 (snd (cache_RemoveApp appId c))"
  unfolding cache_inv_def cache_abs_RemoveApp
  by (auto simp: cache_RemoveApp_def split: if_splits)

lemma cache_Get_abs:
  assumes "cache_inv sha1 c"
  shows "s \<in> set (cache_Get appId c) \<longleftrightarrow> cache_abs c (appId, ServiceInfo_Id sha1 s) = Some s \<and> si_appId s = appId"
proof (cases "mget c appId")
  case None
  then show ?thesis by (simp add: cache_Get_def cache_values_def mget_or_def cache_abs_def)
next
  case (Some m)
  then have wf: "wf_map m" using assms by (auto simp: cache_inv_def)
  have "cache_abs c (appId, i) = mget m i" for i by (simp add: cache_abs_def Some)
  moreover have "(i, s) \<in> set m \<longleftrightarrow> mget m i = Some s" for i
    using wf by (rule wf_map_mget_iff)
  moreover have "cache_abs c (appId, i) = Some s \<Longrightarrow> si_appId s = appId \<and> ServiceInfo_Id sha1 s = i" for i
    using assms by (auto simp: cache_inv_def)
  ultimately show ?thesis
    by (force simp: cache_Get_def cache_values_def mget_or_def Some)
qed

lemma cache_Get_distinct:
  assumes "cache_inv sha1 c"
  shows "distinct (map (ServiceInfo_Id sha1) (cache_Get appId c))"
proof (cases "mget c appId")
  case None
  then show ?thesis by (simp add: cache_Get_def cache_values_def mget_or_def)
next
  case (Some m)
  then have wf: "wf_map m" using assms by (auto simp: cache_inv_def)
  have "ServiceInfo_Id sha1 s = i" if "(i, s) \<in> set m" for i s
  proof -
    have "cache_abs c (appId, i) = Some s" using that wf by (simp add: cache_abs_def Some map_of_is_SomeI)
    then show ?thesis using assms unfolding cache_inv_def by blast
  qed
  then have "map (ServiceInfo_Id sha1 \<circ> snd) m = map fst m" by auto
  then show ?thesis using wf by (simp add: cache_Get_def cache_values_def mget_or_def Some flip: map_map)
qed

lemma cache_run:
  "cache_inv sha1 (fold (cache_step sha1) acts []) \<and>
   fold (cache_spec sha1) acts Map.empty = cache_abs (fold (cache_step sha1) acts [])"
proof (induction acts rule: rev_induct)
  case Nil
  show ?case by (simp add: cache_inv_def cache_abs_def fun_eq_iff)
next
  case (snoc x acts)
  then show ?case
    by (cases x) (auto simp: service_key_def cache_abs_Add cache_abs_Remove cache_abs_RemoveApp
        cache_inv_Add cache_inv_Remove cache_inv_RemoveApp)
qed

lemma cache_abs_Cons:
  "cache_abs ((a, m) # c) k = (if fst k = a then mget m (snd k) else cache_abs c k)"
  by (cases k) (simp add: cache_abs_def)

lemma mget_tail_all:
  assumes "wf_map ((a, m) # c)" and "\<forall>b m'. mget ((a, m) # c) b = Some m' \<longrightarrow> P m'"
  shows "\<forall>b m'. mget c b = Some m' \<longrightarrow> P m'"
proof (intro allI impI)
  fix b m'
  assume b: "mget c b = Some m'"
  then have "b \<noteq> a" using assms(1) by (metis distinct.simps(2) fst_conv list.simps(9) map_of_eq_None_iff option.distinct(1) list.set_map)
  then have "mget ((a, m) # c) b = Some m'" using b by simp
  then show "P m'" using assms(2) by blast
qed

lemma cache_GetAll_ran:
  assumes "wf_map c" and "\<forall>a m. mget c a = Some m \<longrightarrow> m \<noteq> [] \<and> wf_map m"
  shows "set (cache_GetAll c) = ran (cache_abs c)"
  using assms
proof (induction c)
  case Nil
  show ?case by (simp add: cache_GetAll_def cache_abs_def ran_def)
next
  case (Cons p c)
  obtain a m where p: "p = (a, m)" by (cases p)
  have notin: "mget c a = None" using Cons.prems(1) by (simp add: p map_of_eq_None_iff)
  have "\<forall>b m'. mget c b = Some m' \<longrightarrow> m' \<noteq> [] \<and> wf_map m'"
    using Cons.prems unfolding p by (rule mget_tail_all)
  then have IH: "set (cache_GetAll c) = ran (cache_abs c)" using Cons by (simp add: p)
  have "cache_abs c (a, i) = None" for i using notin by (simp add: cache_abs_def)
  then have "ran (cache_abs (p # c)) = ran (map_of m) \<union> ran (cache_abs c)"
    by (auto simp: p cache_abs_Cons ran_def split: if_splits) (metis fst_conv snd_conv option.distinct(1) prod.collapse)+
  moreover have "wf_map m" using Cons.prems(2)[rule_format, of a m] by (simp add: p)
  ultimately show ?case
    using IH by (simp add: cache_GetAll_def p cache_values_def ran_distinct)
qed

lemma cache_Size_card:
  assumes "wf_map c" and "\<forall>a m. mget c a = Some m \<longrightarrow> m \<noteq> [] \<and> wf_map m"
  shows "cache_Size c = card (dom (cache_abs c)) \<and> finite (dom (cache_abs c))"
  using assms
proof (induction c)
  case Nil
  show ?case by (simp add: cache_Size_def cache_abs_def dom_def)
next
  case (Cons p c)
  obtain a m where p: "p = (a, m)" by (cases p)
  have notin: "mget c a = None" using Cons.prems(1) by (simp add: p map_of_eq_None_iff)
  have "\<forall>b m'. mget c b = Some m' \<longrightarrow> m' \<noteq> [] \<and> wf_map m'"
    using Cons.prems unfolding p by (rule mget_tail_all)
  then have IH: "cache_Size c = card (dom (cache_abs c))" "finite (dom (cache_abs c))" using Cons by (simp_all add: p)
  have none: "cache_abs c (a, i) = None" for i using notin by (simp add: cache_abs_def)
  have m: "m \<noteq> []" "wf_map m" using Cons.prems(2)[rule_format, of a m] by (simp_all add: p)
  have "dom (cache_abs (p # c)) = Pair a ` set (map fst m) \<union> dom (cache_abs c)"
  proof (rule set_eqI)
    fix k :: "string \<times> string"
    show "k \<in> dom (cache_abs (p # c)) \<longleftrightarrow> k \<in> Pair a ` set (map fst m) \<union> dom (cache_abs c)"
      by (cases k) (auto simp: p cache_abs_Cons none domIff map_of_eq_None_iff simp del: not_None_eq)
  qed
  moreover have "Pair a ` set (map fst m) \<inter> dom (cache_abs c) = {}" using none by auto
  moreover have "card (Pair a ` set (map fst m)) = length m"
    using distinct_card[OF m(2)] by (simp add: card_image inj_on_def)
  ultimately show ?case
    using IH m by (simp add: card_Un_disjoint cache_Size_def p)
qed

section \<open>The watcher over any cache\<close>

locale service_cache =
  fixes ops :: "'c cache_ops" and key :: "service_info \<Rightarrow> string \<times> string"
    and abst :: "'c \<Rightarrow> string \<times> string \<Rightarrow> service_info option" and keeps :: "'c \<Rightarrow> bool"
  assumes abs_Add: "abst (co_Add ops s c) = (abst c)(key s \<mapsto> s)"
    and abs_Remove: "abst (co_Remove ops s c) = (abst c)(key s := None)"
    and abs_RemoveApp: "abst (snd (co_RemoveApp ops a c)) = (\<lambda>k. if fst k = a then None else abst c k)"
    and Exists_abs: "co_Exists ops s c \<longleftrightarrow> abst c (key s) \<noteq> None"
    and removed_distinct: "keeps c \<Longrightarrow> distinct (map key (fst (co_RemoveApp ops a c)))"
    and removed_keys: "keeps c \<Longrightarrow> key ` set (fst (co_RemoveApp ops a c)) = {k. fst k = a \<and> abst c k \<noteq> None}"
    and inv_Add: "keeps c \<Longrightarrow> keeps (co_Add ops s c)"
    and inv_Remove: "keeps c \<Longrightarrow> keeps (co_Remove ops s c)"
    and inv_RemoveApp: "keeps c \<Longrightarrow> keeps (snd (co_RemoveApp ops a c))"
begin

lemma told_Add: "told key abst keeps w \<Longrightarrow> told key abst keeps (watcher_Add ops s w)"
  by (cases w) (auto simp: told_def watcher_Add_def Exists_abs abs_Add inv_Add heard_append proper_append_start)

lemma told_Remove: "told key abst keeps w \<Longrightarrow> told key abst keeps (watcher_Remove ops s w)"
  by (cases w) (auto simp: told_def watcher_Remove_def Exists_abs abs_Remove inv_Remove heard_append proper_append_start)

lemma told_RemoveApp:
  assumes "told key abst keeps w"
  shows "told key abst keeps (watcher_RemoveApp ops a w)"
proof -
  obtain c out ss c' where w: "w = (c, out)" and r: "co_RemoveApp ops a c = (ss, c')" by (metis surj_pair)
  have inv: "keeps c" and h: "heard key out Map.empty = abst c" and p: "proper key out {}"
    using assms by (auto simp: told_def w)
  have ks: "key ` set ss = {k. fst k = a \<and> abst c k \<noteq> None}" and d: "distinct (map key ss)"
    using removed_keys[OF inv, of a] removed_distinct[OF inv, of a] by (simp_all add: r)
  have "heard key (map Out_Remove ss) (abst c) = abst c'"
    using abs_RemoveApp[of a c] ks by (auto simp: heard_removes r fun_eq_iff)
  moreover have "proper key (map Out_Remove ss) (dom (abst c))"
    using ks d by (intro proper_removes) auto
  ultimately show ?thesis
    using inv_RemoveApp[OF inv, of a] h p
    by (auto simp: told_def watcher_RemoveApp_def w r heard_append proper_append_start)
qed

lemma told_event: "told key abst keeps w \<Longrightarrow> told key abst keeps (watcher_event ops unmarshal e w)"
  by (cases e) (auto simp: deleteEvent_def told_Add told_Remove told_RemoveApp split: option.split)

lemma told_existing: "told key abst keeps w \<Longrightarrow> told key abst keeps (registerExistingServicesFromStore ops unmarshal apps w)"
  unfolding registerExistingServicesFromStore_def
  by (rule fold_invariant[where Q = "\<lambda>_. True"]) (auto simp: told_Add split: option.split)

lemma told_run: "told key abst keeps w \<Longrightarrow> told key abst keeps (watcher_Run ops unmarshal existing evs w)"
  unfolding watcher_Run_def
  by (rule fold_invariant[where Q = "\<lambda>_. True"]) (auto simp: told_event told_existing)

end

interpretation service: service_cache "NewAppServiceCache sha1" "service_key sha1" cache_abs "cache_inv sha1"
proof
  fix c :: service_map and a
  assume inv: "cache_inv sha1 c"
  have "service_key sha1 s = (a, ServiceInfo_Id sha1 s)" if "s \<in> set (cache_Get a c)" for s
    using that cache_Get_abs[OF inv] by (auto simp: service_key_def)
  then have "map (service_key sha1) (cache_Get a c) = map (Pair a) (map (ServiceInfo_Id sha1) (cache_Get a c))"
    by auto
  then show "distinct (map (service_key sha1) (fst (co_RemoveApp (NewAppServiceCache sha1) a c)))"
    using cache_Get_distinct[OF inv, of a]
    by (simp add: NewAppServiceCache_def cache_RemoveApp_def distinct_map inj_on_def flip: cache_Get_def)
  have "k \<in> service_key sha1 ` set (cache_Get a c) \<longleftrightarrow> fst k = a \<and> cache_abs c k \<noteq> None" for k
  proof
    assume "k \<in> service_key sha1 ` set (cache_Get a c)"
    then show "fst k = a \<and> cache_abs c k \<noteq> None"
      using cache_Get_abs[OF inv] by (auto simp: service_key_def)
  next
    assume k: "fst k = a \<and> cache_abs c k \<noteq> None"
    then obtain i s where ki: "k = (a, i)" and s: "cache_abs c (a, i) = Some s" by (cases k) auto
    then have "si_appId s = a" "ServiceInfo_Id sha1 s = i" using inv unfolding cache_inv_def by blast+
    then show "k \<in> service_key sha1 ` set (cache_Get a c)"
      using s cache_Get_abs[OF inv, of s a] by (auto simp: ki service_key_def image_iff)
  qed
  then have "service_key sha1 ` set (cache_Get a c) = {k. fst k = a \<and> cache_abs c k \<noteq> None}"
    by (intro set_eqI) (simp only: mem_Collect_eq)
  then show "service_key sha1 ` set (fst (co_RemoveApp (NewAppServiceCache sha1) a c)) = {k. fst k = a \<and> cache_abs c k \<noteq> None}"
    by (simp add: NewAppServiceCache_def cache_RemoveApp_def flip: cache_Get_def)
qed (auto simp: NewAppServiceCache_def service_key_def cache_abs_Add cache_abs_Remove cache_abs_RemoveApp
    cache_Exists_abs cache_inv_Add cache_inv_Remove cache_inv_RemoveApp)

section \<open>Properties\<close>

text \<open>
  C31: the two-level cache refines a map from application and identifier to services: after
  additions and removals in any order it answers \<open>Exists\<close>, \<open>Get\<close> and \<open>GetAll\<close> as that map does,
  and \<open>Size\<close> counts its entries.
\<close>

theorem service_cache_refines:
  fixes sha1 acts
  defines "c \<equiv> fold (cache_step sha1) acts []" and "f \<equiv> fold (cache_spec sha1) acts Map.empty"
  shows "(\<forall>s. cache_Exists sha1 s c \<longleftrightarrow> f (service_key sha1 s) \<noteq> None) \<and>
    (\<forall>a. set (cache_Get a c) = {s. \<exists>i. f (a, i) = Some s}) \<and>
    set (cache_GetAll c) = ran f \<and> cache_Size c = card (dom f)"
proof -
  have inv: "cache_inv sha1 c" and f: "f = cache_abs c"
    using cache_run[of sha1 acts] by (simp_all add: c_def f_def)
  have get: "set (cache_Get a c) = {s. \<exists>i. f (a, i) = Some s}" for a
    using inv cache_Get_abs[OF inv, of _ a] unfolding f cache_inv_def by blast
  have "set (cache_GetAll c) = ran f"
    using inv by (simp add: f cache_inv_def cache_GetAll_ran)
  moreover have "cache_Size c = card (dom f)"
    using inv by (simp add: f cache_inv_def cache_Size_card)
  ultimately show ?thesis
    using get by (simp add: cache_Exists_abs f service_key_def)
qed

text \<open>
  C17: whatever the store held at the start and whatever events follow, somebody who only listens to
  the additions and removals that the watcher sends holds exactly the services of its cache; no
  service is announced while it is already known and none is withdrawn that is not known.
\<close>

theorem watcher_announces_cache:
  fixes sha1 unmarshal existing evs
  defines "w \<equiv> watcher_Run (NewAppServiceCache sha1) unmarshal existing evs ([], [])"
  shows "heard (service_key sha1) (snd w) Map.empty = cache_abs (fst w) \<and>
    proper (service_key sha1) (snd w) {}"
proof -
  have "told (service_key sha1) cache_abs (cache_inv sha1) ([], [])"
    by (simp add: told_def cache_inv_def cache_abs_def fun_eq_iff)
  from service.told_run[OF this] show ?thesis by (simp add: told_def w_def)
qed

end
