(* ===== verification/Sink_Manager.thy ===== *)
theory Sink_Manager
  imports Grouped_Sinks Blacklist Service_Store
begin

text \<open>
  The sink manager of the doppler, \<open>doppler/internal/sinkserver/sinkmanager\<close>, with its sink
  counters (\<open>sinkserver/metrics\<close>) and the message router that feeds it
  (\<open>sinkserver/message_router.go\<close>).

  The loops that the manager starts (one per sink, one for new services, one for deleted ones,
  one for error messages) become actions of a machine, taken in any order: \<open>SM_SinkDone\<close> is the
  end of a sink's goroutine, which unregisters the sink. \<open>None\<close> is a send on the full error
  channel, which blocks, or a panic. Wrapping an error message into an envelope is an argument.
\<close>

section \<open>Counters\<close>

record sink_metrics =
  mt_dumpSinks :: "32 word"
  mt_websocketSinks :: "32 word"
  mt_syslogSinks :: "32 word"
  mt_firehoseSinks :: "32 word"
  mt_containerMetrics :: "32 word"

definition NewSinkManagerMetrics :: sink_metrics where
  "NewSinkManagerMetrics = \<lparr>mt_dumpSinks = 0, mt_websocketSinks = 0, mt_syslogSinks = 0,
     mt_firehoseSinks = 0, mt_containerMetrics = 0\<rparr>"

definition metrics_Inc :: "sink \<Rightarrow> sink_metrics \<Rightarrow> sink_metrics" where
  "metrics_Inc s m =
     (case sk_kind s of
        DumpSink \<Rightarrow> m\<lparr>mt_dumpSinks := mt_dumpSinks m + 1\<rparr>
      | SyslogSink \<Rightarrow> m\<lparr>mt_syslogSinks := mt_syslogSinks m + 1\<rparr>
      | WebsocketSink \<Rightarrow> m\<lparr>mt_websocketSinks := mt_websocketSinks m + 1\<rparr>
      | ContainerMetricSink \<Rightarrow> m\<lparr>mt_containerMetrics := mt_containerMetrics m + 1\<rparr>)"

definition metrics_Dec :: "sink \<Rightarrow> sink_metrics \<Rightarrow> sink_metrics" where
  "metrics_Dec s m =
     (case sk_kind s of
        DumpSink \<Rightarrow> m\<lparr>mt_dumpSinks := mt_dumpSinks m - 1\<rparr>
      | SyslogSink \<Rightarrow> m\<lparr>mt_syslogSinks := mt_syslogSinks m - 1\<rparr>
      | WebsocketSink \<Rightarrow> m\<lparr>mt_websocketSinks := mt_websocketSinks m - 1\<rparr>
      | ContainerMetricSink \<Rightarrow> m\<lparr>mt_containerMetrics := mt_containerMetrics m - 1\<rparr>)"

definition IncFirehose :: "sink_metrics \<Rightarrow> sink_metrics" where
  "IncFirehose m = m\<lparr>mt_firehoseSinks := mt_firehoseSinks m + 1\<rparr>"

definition DecFirehose :: "sink_metrics \<Rightarrow> sink_metrics" where
  "DecFirehose m = m\<lparr>mt_firehoseSinks := mt_firehoseSinks m - 1\<rparr>"

text \<open>The values of one tick of \<open>run\<close>.\<close>

definition metrics_values :: "sink_metrics \<Rightarrow> (string \<times> int) list" where
  "metrics_values m =
     [(''messageRouter.numberOfDumpSinks'', sint (mt_dumpSinks m)),
      (''messageRouter.numberOfWebsocketSinks'', sint (mt_websocketSinks m)),
      (''messageRouter.numberOfSyslogSinks'', sint (mt_syslogSinks m)),
      (''messageRouter.numberOfFirehoseSinks'', sint (mt_firehoseSinks m)),
      (''messageRouter.numberOfContainerMetricSinks'', sint (mt_containerMetrics m))]"

section \<open>The manager\<close>

text \<open>What \<open>New\<close> fixes: the blacklist, and the packages the manager calls.\<close>

record sm_config =
  sc_net :: net_env
  sc_blacklist :: "ip_range list"
  sc_ext :: envelope_ext
  sc_wrap :: "string \<Rightarrow> string \<Rightarrow> v1_envelope result"
  sc_recentLogCount :: uint32
  sc_metricTTL :: int

text \<open>\<open>sm_disconnected\<close> lists the syslog sinks that were told to disconnect.\<close>

record sink_manager =
  sm_sinks :: grouped_sinks
  sm_metrics :: sink_metrics
  sm_errorChannel :: "v1_envelope list"
  sm_disconnected :: "sink list"
  sm_stopped :: bool

definition NewSinkManager :: sink_manager where
  "NewSinkManager = \<lparr>sm_sinks = NewGroupedSinks, sm_metrics = NewSinkManagerMetrics,
     sm_errorChannel = [], sm_disconnected = [], sm_stopped = False\<rparr>"

definition RegisterSink :: "sink \<Rightarrow> sink_manager \<Rightarrow> bool \<times> sink_manager" where
  "RegisterSink s sm =
     (let (inputChan, gs) = with_channel 128 (sm_sinks sm);
          (ok, gs') = RegisterAppSink inputChan s gs;
          sm1 = sm\<lparr>sm_sinks := gs'\<rparr>
      in if \<not> ok then (False, sm1) else (True, sm1\<lparr>sm_metrics := metrics_Inc s (sm_metrics sm1)\<rparr>))"

definition UnregisterSink :: "sink \<Rightarrow> sink_manager \<Rightarrow> sink_manager option" where
  "UnregisterSink s sm =
     map_option (\<lambda>(ok, gs).
       let sm1 = sm\<lparr>sm_sinks := gs\<rparr>
       in if \<not> ok then sm1
          else let sm2 = sm1\<lparr>sm_metrics := metrics_Dec s (sm_metrics sm1)\<rparr>
               in if sk_kind s = SyslogSink then sm2\<lparr>sm_disconnected := sm_disconnected sm2 @ [s]\<rparr> else sm2)
       (CloseAndDelete s (sm_sinks sm))"

definition SM_RegisterFirehoseSink :: "sink \<Rightarrow> sink_manager \<Rightarrow> bool \<times> sink_manager" where
  "SM_RegisterFirehoseSink s sm =
     (let (inputChan, gs) = with_channel 128 (sm_sinks sm);
          (ok, gs') = RegisterFirehoseSink inputChan s gs;
          sm1 = sm\<lparr>sm_sinks := gs'\<rparr>
      in if \<not> ok then (False, sm1) else (True, sm1\<lparr>sm_metrics := IncFirehose (sm_metrics sm1)\<rparr>))"

definition UnregisterFirehoseSink :: "sink \<Rightarrow> sink_manager \<Rightarrow> sink_manager option" where
  "UnregisterFirehoseSink s sm =
     map_option (\<lambda>(ok, gs).
       let sm1 = sm\<lparr>sm_sinks := gs\<rparr>
       in if \<not> ok then sm1 else sm1\<lparr>sm_metrics := DecFirehose (sm_metrics sm1)\<rparr>)
       (CloseAndDeleteFirehose s (sm_sinks sm))"

text \<open>The sinks that the manager makes itself, as the registry sees them.\<close>

definition dump_sink_for :: "string \<Rightarrow> sink" where
  "dump_sink_for appId =
     \<lparr>sk_AppID = appId, sk_Identifier = appId, sk_ShouldReceiveErrors = True, sk_kind = DumpSink\<rparr>"

definition container_sink_for :: "string \<Rightarrow> sink" where
  "container_sink_for appId =
     \<lparr>sk_AppID = appId, sk_Identifier = ''container-metrics-'' @ appId, sk_ShouldReceiveErrors = False,
      sk_kind = ContainerMetricSink\<rparr>"

definition syslog_sink_for :: "string \<Rightarrow> drain_url \<Rightarrow> sink" where
  "syslog_sink_for appId u =
     \<lparr>sk_AppID = appId, sk_Identifier = SyslogSink_Identifier u, sk_ShouldReceiveErrors = False,
      sk_kind = SyslogSink\<rparr>"

definition ensureRecentLogsSinkFor :: "string \<Rightarrow> sink_manager \<Rightarrow> sink_manager" where
  "ensureRecentLogsSinkFor appId sm =
     (if DumpFor appId (sm_sinks sm) \<noteq> None then sm else snd (RegisterSink (dump_sink_for appId) sm))"

definition ensureContainerMetricsSinkFor :: "string \<Rightarrow> sink_manager \<Rightarrow> sink_manager" where
  "ensureContainerMetricsSinkFor appId sm =
     (if ContainerMetricsFor appId (sm_sinks sm) \<noteq> None then sm
      else snd (RegisterSink (container_sink_for appId) sm))"

definition SendTo :: "(string \<Rightarrow> nat) \<Rightarrow> string \<Rightarrow> v1_envelope \<Rightarrow> sink_manager \<Rightarrow> sink_manager option" where
  "SendTo draw appID msg sm =
     (let sm1 = ensureContainerMetricsSinkFor appID (ensureRecentLogsSinkFor appID sm)
      in map_option (\<lambda>gs. sm1\<lparr>sm_sinks := gs\<rparr>) (Broadcast draw appID msg (sm_sinks sm1)))"

text \<open>\<open>state\<close> gives the contents of the sink that the registry returns.\<close>

definition RecentLogsFor :: "(sink \<Rightarrow> dump_sink) \<Rightarrow> string \<Rightarrow> sink_manager \<Rightarrow> v1_envelope list" where
  "RecentLogsFor state appId sm =
     (case DumpFor appId (sm_sinks sm) of Some s \<Rightarrow> Dump (state s) | None \<Rightarrow> [])"

definition LatestContainerMetrics ::
    "(sink \<Rightarrow> container_sink) \<Rightarrow> int \<Rightarrow> string \<Rightarrow> sink_manager \<Rightarrow> v1_envelope list" where
  "LatestContainerMetrics state now appId sm =
     (case ContainerMetricsFor appId (sm_sinks sm) of
        Some s \<Rightarrow> fst (GetLatest now (state s)) | None \<Rightarrow> [])"

definition SendSyslogErrorToLoggregator ::
    "sm_config \<Rightarrow> string \<Rightarrow> string \<Rightarrow> sink_manager \<Rightarrow> sink_manager option" where
  "SendSyslogErrorToLoggregator cfg errorMsg appId sm =
     (case sc_wrap cfg errorMsg appId of
        Inl err \<Rightarrow> Some sm
      | Inr envelope \<Rightarrow>
          map_option (\<lambda>q. sm\<lparr>sm_errorChannel := q\<rparr>) (try_send 100 envelope (sm_errorChannel sm)))"

definition invalidSyslogURLErrorMsg :: "string \<Rightarrow> string \<Rightarrow> string \<Rightarrow> string" where
  "invalidSyslogURLErrorMsg appId syslogSinkURL err =
     ''SinkManager: Invalid syslog drain URL ('' @ syslogSinkURL @ '') for application '' @ appId @ ''. Err: '' @ err"

definition registerNewSyslogSink ::
    "sm_config \<Rightarrow> string \<Rightarrow> string \<Rightarrow> string \<Rightarrow> sink_manager \<Rightarrow> sink_manager option" where
  "registerNewSyslogSink cfg appId syslogSinkURL hostname sm =
     (case CheckUrl (sc_net cfg) (sc_blacklist cfg) syslogSinkURL of
        Inl err \<Rightarrow>
          SendSyslogErrorToLoggregator cfg (invalidSyslogURLErrorMsg appId syslogSinkURL err) appId sm
      | Inr u \<Rightarrow>
          (case NewWriter u appId hostname of
             Inl err \<Rightarrow>
               SendSyslogErrorToLoggregator cfg
                 (invalidSyslogURLErrorMsg appId (du_Scheme u @ ''://'' @ du_Host u @ du_Path u) err) appId sm
           | Inr w \<Rightarrow> Some (snd (RegisterSink (syslog_sink_for appId u) sm))))"

definition deletedAppService :: "service_info \<Rightarrow> sink_manager \<Rightarrow> sink_manager option" where
  "deletedAppService s sm =
     (case DrainFor (si_appId s) (si_url s) (sm_sinks sm) of
        None \<Rightarrow> Some sm | Some syslogSink \<Rightarrow> UnregisterSink syslogSink sm)"

definition nextErrorMessage :: "sm_config \<Rightarrow> (string \<Rightarrow> nat) \<Rightarrow> sink_manager \<Rightarrow> sink_manager option" where
  "nextErrorMessage cfg draw sm =
     (case sm_errorChannel sm of
        [] \<Rightarrow> Some sm
      | msg # q \<Rightarrow>
          map_option (\<lambda>gs. sm\<lparr>sm_sinks := gs, sm_errorChannel := q\<rparr>)
            (BroadcastError draw (GetAppId (sc_ext cfg) msg) msg (sm_sinks sm)))"

definition SinkManager_Stop :: "sink_manager \<Rightarrow> sink_manager option" where
  "SinkManager_Stop sm =
     (if sm_stopped sm then Some sm
      else map_option (\<lambda>gs. sm\<lparr>sm_sinks := gs, sm_stopped := True\<rparr>) (DeleteAll (sm_sinks sm)))"

text \<open>\<open>MessageRouter.Start\<close>: one envelope of the diode goes to every sender.\<close>

definition route_envelope ::
    "envelope_ext \<Rightarrow> (string \<Rightarrow> v1_envelope \<Rightarrow> 's \<Rightarrow> 's option) list \<Rightarrow> v1_envelope \<Rightarrow> 's \<Rightarrow> 's option" where
  "route_envelope ext senders envelope s = foldM (\<lambda>sendTo. sendTo (GetAppId ext envelope) envelope) senders s"

section \<open>The machine\<close>

datatype sm_action =
    SM_Register sink
  | SM_SinkDone sink
  | SM_RegisterFirehose sink
  | SM_FirehoseDone sink
  | SM_Message "string \<Rightarrow> nat" v1_envelope
  | SM_NewService service_info
  | SM_DeletedService service_info
  | SM_SyslogError string string
  | SM_NextError "string \<Rightarrow> nat"
  | SM_Receive nat
  | SM_Stop

fun sm_step :: "sm_config \<Rightarrow> sm_action \<Rightarrow> sink_manager \<Rightarrow> sink_manager option" where
  "sm_step cfg (SM_Register s) sm = Some (snd (RegisterSink s sm))"
| "sm_step cfg (SM_SinkDone s) sm = UnregisterSink s sm"
| "sm_step cfg (SM_RegisterFirehose s) sm = Some (snd (SM_RegisterFirehoseSink s sm))"
| "sm_step cfg (SM_FirehoseDone s) sm = UnregisterFirehoseSink s sm"
| "sm_step cfg (SM_Message draw msg) sm = route_envelope (sc_ext cfg) [SendTo draw] msg sm"
| "sm_step cfg (SM_NewService s) sm = registerNewSyslogSink cfg (si_appId s) (si_url s) (si_hostname s) sm"
| "sm_step cfg (SM_DeletedService s) sm = deletedAppService s sm"
| "sm_step cfg (SM_SyslogError msg appId) sm = SendSyslogErrorToLoggregator cfg msg appId sm"
| "sm_step cfg (SM_NextError draw) sm = nextErrorMessage cfg draw sm"
| "sm_step cfg (SM_Receive a) sm = map_option (\<lambda>gs. sm\<lparr>sm_sinks := gs\<rparr>) (gs_step (GS_Receive a) (sm_sinks sm))"
| "sm_step cfg SM_Stop sm = SinkManager_Stop sm"

text \<open>How many sinks of a kind, and how many firehose sinks, the registry holds.\<close>

definition slot_count :: "(sink_wrapper \<Rightarrow> bool) \<Rightarrow> (string, wrappers) gomap \<Rightarrow> nat" where
  "slot_count P m = card {(a, i). \<exists>w. slot m a i = Some w \<and> P w}"

definition registered_kind :: "sink_kind \<Rightarrow> grouped_sinks \<Rightarrow> nat" where
  "registered_kind kd gs = slot_count (\<lambda>w. sk_kind (sw_Sink w) = kd) (gs_apps gs)"

definition registered_firehoses :: "grouped_sinks \<Rightarrow> nat" where
  "registered_firehoses gs = slot_count (\<lambda>_. True) (gs_firehoses gs)"

definition counters_match :: "sink_manager \<Rightarrow> bool" where
  "counters_match sm \<longleftrightarrow>
     mt_dumpSinks (sm_metrics sm) = of_nat (registered_kind DumpSink (sm_sinks sm)) \<and>
     mt_containerMetrics (sm_metrics sm) = of_nat (registered_kind ContainerMetricSink (sm_sinks sm)) \<and>
     mt_syslogSinks (sm_metrics sm) = of_nat (registered_kind SyslogSink (sm_sinks sm)) \<and>
     mt_websocketSinks (sm_metrics sm) = of_nat (registered_kind WebsocketSink (sm_sinks sm)) \<and>
     mt_firehoseSinks (sm_metrics sm) = of_nat (registered_firehoses (sm_sinks sm))"

text \<open>
  Sinks of different kinds have different names: \<open>kinds\<close> says which kind goes with which
  application and identifier.
\<close>

fun names_agree :: "sm_config \<Rightarrow> (string \<Rightarrow> string \<Rightarrow> sink_kind) \<Rightarrow> sm_action \<Rightarrow> bool" where
  "names_agree cfg kinds (SM_Register s) \<longleftrightarrow> kinds (sk_AppID s) (sk_Identifier s) = sk_kind s"
| "names_agree cfg kinds (SM_SinkDone s) \<longleftrightarrow> kinds (sk_AppID s) (sk_Identifier s) = sk_kind s"
| "names_agree cfg kinds (SM_Message draw msg) \<longleftrightarrow>
     (let a = GetAppId (sc_ext cfg) msg
      in kinds a a = DumpSink \<and> kinds a (''container-metrics-'' @ a) = ContainerMetricSink)"
| "names_agree cfg kinds (SM_NewService s) \<longleftrightarrow>
     (case ne_Parse (sc_net cfg) (si_url s) of
        Inl _ \<Rightarrow> True | Inr u \<Rightarrow> kinds (si_appId s) (SyslogSink_Identifier u) = SyslogSink)"
| "names_agree cfg kinds _ \<longleftrightarrow> True"

definition sm_ok :: "(string \<Rightarrow> string \<Rightarrow> sink_kind) \<Rightarrow> sink_manager \<Rightarrow> bool" where
  "sm_ok kinds sm \<longleftrightarrow>
     gs_ok (sm_sinks sm) \<and>
     (\<forall>a i w. slot (gs_apps (sm_sinks sm)) a i = Some w \<longrightarrow> sk_kind (sw_Sink w) = kinds a i) \<and>
     (\<not> sm_stopped sm \<longrightarrow> counters_match sm)"

text \<open>A channel whose newest message is \<open>msg\<close>, unless it is full.\<close>

definition holds_message :: "v1_envelope \<Rightarrow> channels \<Rightarrow> nat \<Rightarrow> bool" where
  "holds_message msg cs a \<longleftrightarrow> chan_full cs a \<or> (ch_buf (cs ! a) \<noteq> [] \<and> last (ch_buf (cs ! a)) = msg)"

text \<open>A manager that knows one drain, for the examples.\<close>

definition demo_cfg :: sm_config where
  "demo_cfg = \<lparr>sc_net = tiny_net, sc_blacklist = [], sc_ext = small_ext, sc_wrap = (\<lambda>_ _. Inl ''no''),
     sc_recentLogCount = 10, sc_metricTTL = 0\<rparr>"

definition demo_kinds :: "string \<Rightarrow> string \<Rightarrow> sink_kind" where
  "demo_kinds a i = (if i = a then DumpSink else if i = ''container-metrics-'' @ a then ContainerMetricSink else SyslogSink)"

section \<open>The registry, slot by slot\<close>

lemma RegisterAppSink_slots:
  assumes "RegisterAppSink c s gs = (b, gs')"
  shows "b \<longleftrightarrow> sk_AppID s \<noteq> [] \<and> sk_Identifier s \<noteq> [] \<and> slot (gs_apps gs) (sk_AppID s) (sk_Identifier s) = None"
    and "slot (gs_apps gs') a i = (if b \<and> a = sk_AppID s \<and> i = sk_Identifier s
      then Some \<lparr>sw_InputChan = c, sw_Sink = s\<rparr> else slot (gs_apps gs) a i)"
    and "gs_firehoses gs' = gs_firehoses gs" and "gs_env gs' = gs_env gs"
  using assms
  by (auto simp: RegisterAppSink_def AppGroup_AddSink_def AppGroup_exists_def slot_def Let_def
      split: if_splits option.splits)

lemma RegisterFirehoseSink_slots:
  assumes "RegisterFirehoseSink c s gs = (b, gs')"
  shows "b \<longleftrightarrow> sk_AppID s \<noteq> [] \<and> slot (gs_firehoses gs) (sk_AppID s) (sk_Identifier s) = None"
    and "slot (gs_firehoses gs') a i = (if b \<and> a = sk_AppID s \<and> i = sk_Identifier s
      then Some \<lparr>sw_InputChan = c, sw_Sink = s\<rparr> else slot (gs_firehoses gs) a i)"
    and "gs_apps gs' = gs_apps gs" and "gs_env gs' = gs_env gs"
  using assms
  by (auto simp: RegisterFirehoseSink_def firehoseGroup_AddSink_def firehoseGroup_exists_def slot_def Let_def
      split: if_splits option.splits)

lemma lookups_slot:
  "DrainFor a u gs = map_option sw_Sink (slot (gs_apps gs) a u)"
  "DumpFor a gs = sink_as DumpSink (map_option sw_Sink (slot (gs_apps gs) a a))"
  "ContainerMetricsFor a gs =
     sink_as ContainerMetricSink (map_option sw_Sink (slot (gs_apps gs) a (''container-metrics-'' @ a)))"
  by (simp_all add: DrainFor_def DumpFor_def ContainerMetricsFor_def AppGroup_sink_def AppGroup_RecentLogsSink_def
      AppGroup_ContainerMetricsSink_def slot_def sink_as_def split: option.split)

lemma slot_remove:
  "slot (if mdel i g = [] then mdel k m else mput k (mdel i g) m) k' i' =
   (if k' = k then (if i' = i then None else mget g i') else slot m k' i')"
proof (cases "mdel i g = []")
  case True
  then have "i' \<noteq> i \<Longrightarrow> mget g i' = None" using mget_mdel[of i g i'] by simp
  with True show ?thesis by (simp add: slot_mdel)
next
  case False
  then show ?thesis by (simp add: slot_mput)
qed

lemma CloseAndDelete_slots:
  assumes "CloseAndDelete s gs = Some (b, gs')"
  shows "b \<longleftrightarrow> slot (gs_apps gs) (sk_AppID s) (sk_Identifier s) \<noteq> None"
    and "slot (gs_apps gs') a i = (if a = sk_AppID s \<and> i = sk_Identifier s then None else slot (gs_apps gs) a i)"
    and "gs_firehoses gs' = gs_firehoses gs"
proof -
  show "b \<longleftrightarrow> slot (gs_apps gs) (sk_AppID s) (sk_Identifier s) \<noteq> None" and "gs_firehoses gs' = gs_firehoses gs"
    using assms by (auto simp: CloseAndDelete_def AppGroup_removeSink_def Let_def slot_def split: option.splits)
  show "slot (gs_apps gs') a i = (if a = sk_AppID s \<and> i = sk_Identifier s then None else slot (gs_apps gs) a i)"
  proof (cases "mget (gs_apps gs) (sk_AppID s)")
    case None
    then show ?thesis using assms by (auto simp: CloseAndDelete_def slot_def)
  next
    case (Some g)
    then have "gs_apps gs' = (if mdel (sk_Identifier s) g = [] then mdel (sk_AppID s) (gs_apps gs)
        else mput (sk_AppID s) (mdel (sk_Identifier s) g) (gs_apps gs))"
      using assms by (auto simp: CloseAndDelete_def AppGroup_removeSink_def AppGroup_IsEmpty_def Let_def split: option.splits)
    then show ?thesis using Some by (simp add: slot_remove) (simp add: slot_def)
  qed
qed

lemma CloseAndDeleteFirehose_slots:
  assumes "CloseAndDeleteFirehose s gs = Some (b, gs')"
  shows "b \<longleftrightarrow> slot (gs_firehoses gs) (sk_AppID s) (sk_Identifier s) \<noteq> None"
    and "slot (gs_firehoses gs') a i = (if a = sk_AppID s \<and> i = sk_Identifier s then None else slot (gs_firehoses gs) a i)"
    and "gs_apps gs' = gs_apps gs"
proof -
  show "b \<longleftrightarrow> slot (gs_firehoses gs) (sk_AppID s) (sk_Identifier s) \<noteq> None" and "gs_apps gs' = gs_apps gs"
    using assms by (auto simp: CloseAndDeleteFirehose_def firehoseGroup_removeSink_def Let_def slot_def split: option.splits)
  show "slot (gs_firehoses gs') a i = (if a = sk_AppID s \<and> i = sk_Identifier s then None else slot (gs_firehoses gs) a i)"
  proof (cases "mget (gs_firehoses gs) (sk_AppID s)")
    case None
    then show ?thesis using assms by (auto simp: CloseAndDeleteFirehose_def slot_def)
  next
    case (Some g)
    then have "gs_firehoses gs' = (if mdel (sk_Identifier s) g = [] then mdel (sk_AppID s) (gs_firehoses gs)
        else mput (sk_AppID s) (mdel (sk_Identifier s) g) (gs_firehoses gs))"
      using assms by (auto simp: CloseAndDeleteFirehose_def firehoseGroup_removeSink_def firehoseGroup_IsEmpty_def Let_def split: option.splits)
    then show ?thesis using Some by (simp add: slot_remove) (simp add: slot_def)
  qed
qed

lemma finite_slots: "finite {(a, i). slot m a i \<noteq> None}"
proof (rule finite_subset)
  show "{(a, i). slot m a i \<noteq> None} \<subseteq> (\<Union>(a, g) \<in> set m. {a} \<times> fst ` set g)"
    by (force simp: slot_def dest: map_of_SomeD split: option.splits)
qed auto

lemma finite_slots_P: "finite {(a, i). \<exists>w. slot m a i = Some w \<and> P w}"
  by (rule finite_subset[OF _ finite_slots[of m]]) auto

lemma slot_count_add:
  assumes "\<And>a i. slot m' a i = (if a = a0 \<and> i = i0 then Some w else slot m a i)" and "slot m a0 i0 = None"
  shows "slot_count P m' = slot_count P m + (if P w then 1 else 0)"
proof -
  have "{(a, i). \<exists>w. slot m' a i = Some w \<and> P w} =
      (if P w then {(a0, i0)} else {}) \<union> {(a, i). \<exists>w. slot m a i = Some w \<and> P w}"
    using assms(2) by (auto simp: assms(1) split: if_splits)
  moreover have "(a0, i0) \<notin> {(a, i). \<exists>w. slot m a i = Some w \<and> P w}" using assms(2) by simp
  ultimately show ?thesis by (simp add: slot_count_def finite_slots_P)
qed

lemma slot_count_del:
  assumes "\<And>a i. slot m' a i = (if a = a0 \<and> i = i0 then None else slot m a i)" and "slot m a0 i0 = Some w"
  shows "slot_count P m = slot_count P m' + (if P w then 1 else 0)"
proof (rule slot_count_add)
  show "slot m a i = (if a = a0 \<and> i = i0 then Some w else slot m' a i)" for a i
    using assms by simp
  show "slot m' a0 i0 = None" by (simp add: assms(1))
qed

lemma slot_count_same: "(\<And>a i. slot m' a i = slot m a i) \<Longrightarrow> slot_count P m' = slot_count P m"
  by (simp add: slot_count_def)

section \<open>The counters\<close>

lemma counters_Inc:
  assumes "counters_match sm" and "\<And>P. slot_count P (gs_apps gs) =
      slot_count P (gs_apps (sm_sinks sm)) + (if P w then 1 else 0)"
    and "sw_Sink w = s" and "gs_firehoses gs = gs_firehoses (sm_sinks sm)"
  shows "counters_match (sm\<lparr>sm_sinks := gs, sm_metrics := metrics_Inc s (sm_metrics sm)\<rparr>)"
  using assms(1,3,4)
  by (cases "sk_kind s") (simp_all add: counters_match_def registered_kind_def registered_firehoses_def
      metrics_Inc_def assms(2))

lemma counters_Dec:
  assumes "counters_match sm" and "\<And>P. slot_count P (gs_apps (sm_sinks sm)) =
      slot_count P (gs_apps gs) + (if P w then 1 else 0)"
    and "sk_kind (sw_Sink w) = sk_kind s" and "gs_firehoses gs = gs_firehoses (sm_sinks sm)"
  shows "counters_match (sm\<lparr>sm_sinks := gs, sm_metrics := metrics_Dec s (sm_metrics sm)\<rparr>)"
  using assms(1,3,4)
  by (cases "sk_kind s") (simp_all add: counters_match_def registered_kind_def registered_firehoses_def
      metrics_Dec_def assms(2))

lemma counters_same:
  assumes "counters_match sm" and "\<And>a i. slot (gs_apps gs) a i = slot (gs_apps (sm_sinks sm)) a i"
    and "\<And>a i. slot (gs_firehoses gs) a i = slot (gs_firehoses (sm_sinks sm)) a i"
    and "sm_sinks sm' = gs" and "sm_metrics sm' = sm_metrics sm"
  shows "counters_match sm'"
  using assms(1,4,5) slot_count_same[OF assms(2)] slot_count_same[OF assms(3)]
  by (simp add: counters_match_def registered_kind_def registered_firehoses_def)

lemma with_channel_maps:
  "with_channel n gs = (c, gs1) \<Longrightarrow> gs_apps gs1 = gs_apps gs \<and> gs_firehoses gs1 = gs_firehoses gs"
  by (auto simp: with_channel_def chan_make_def)

lemma RegisterSink_ok:
  assumes ok: "sm_ok kinds sm" and k: "kinds (sk_AppID s) (sk_Identifier s) = sk_kind s"
    and r: "RegisterSink s sm = (b, sm')"
  shows "sm_ok kinds sm'"
    and "b \<longleftrightarrow> sk_AppID s \<noteq> [] \<and> sk_Identifier s \<noteq> [] \<and> slot (gs_apps (sm_sinks sm)) (sk_AppID s) (sk_Identifier s) = None"
    and "\<exists>c. \<forall>a i. slot (gs_apps (sm_sinks sm')) a i = (if b \<and> a = sk_AppID s \<and> i = sk_Identifier s
      then Some \<lparr>sw_InputChan = c, sw_Sink = s\<rparr> else slot (gs_apps (sm_sinks sm)) a i)"
proof -
  obtain c gs where w: "with_channel 128 (sm_sinks sm) = (c, gs)" by (cases "with_channel 128 (sm_sinks sm)")
  obtain ok' gs' where g: "RegisterAppSink c s gs = (ok', gs')" by (cases "RegisterAppSink c s gs")
  have gok: "gs_ok (sm_sinks sm)" using ok by (simp add: sm_ok_def)
  note maps = with_channel_maps[OF w] and sl = RegisterAppSink_slots[OF g]
  have b: "b = ok'" and sm': "sm' = (if ok' then sm\<lparr>sm_sinks := gs', sm_metrics := metrics_Inc s (sm_metrics sm)\<rparr>
      else sm\<lparr>sm_sinks := gs'\<rparr>)"
    using r by (auto simp: RegisterSink_def w g Let_def split: if_splits)
  have ok1: "gs_ok gs'"
    using RegisterAppSink_ok[OF with_channel_ok[OF gok w], of s] by (simp add: g)
  show "b \<longleftrightarrow> sk_AppID s \<noteq> [] \<and> sk_Identifier s \<noteq> [] \<and> slot (gs_apps (sm_sinks sm)) (sk_AppID s) (sk_Identifier s) = None"
    using sl(1) maps by (simp add: b)
  show "\<exists>c. \<forall>a i. slot (gs_apps (sm_sinks sm')) a i = (if b \<and> a = sk_AppID s \<and> i = sk_Identifier s
      then Some \<lparr>sw_InputChan = c, sw_Sink = s\<rparr> else slot (gs_apps (sm_sinks sm)) a i)"
    using sl(2) maps by (auto simp: b sm' intro: exI[of _ c])
  have kd: "sk_kind (sw_Sink w) = kinds a i" if "slot (gs_apps gs') a i = Some w" for a i w
    using that ok k maps by (auto simp: sl(2) sm_ok_def split: if_splits)
  show "sm_ok kinds sm'"
  proof (cases ok')
    case True
    have "counters_match sm'" if "counters_match sm"
    proof -
      have "slot_count P (gs_apps gs') = slot_count P (gs_apps (sm_sinks sm)) +
          (if P \<lparr>sw_InputChan = c, sw_Sink = s\<rparr> then 1 else 0)" for P
        using True sl(1,2) maps by (intro slot_count_add[of _ "sk_AppID s" "sk_Identifier s"]) auto
      from counters_Inc[OF that this] show ?thesis using True sl(3) maps by (simp add: sm')
    qed
    then show ?thesis using ok ok1 kd True by (auto simp: sm_ok_def sm')
  next
    case False
    have "counters_match sm'" if "counters_match sm"
      by (rule counters_same[OF that, of gs']) (use False sl maps in \<open>auto simp: sm'\<close>)
    then show ?thesis using ok ok1 kd False by (auto simp: sm_ok_def sm')
  qed
qed

lemma UnregisterSink_ok:
  assumes ok: "sm_ok kinds sm" and k: "kinds (sk_AppID s) (sk_Identifier s) = sk_kind s"
  shows "\<exists>sm'. UnregisterSink s sm = Some sm' \<and> sm_ok kinds sm' \<and>
    (\<forall>a i. slot (gs_apps (sm_sinks sm')) a i =
      (if a = sk_AppID s \<and> i = sk_Identifier s then None else slot (gs_apps (sm_sinks sm)) a i)) \<and>
    sm_disconnected sm' = sm_disconnected sm @
      (if slot (gs_apps (sm_sinks sm)) (sk_AppID s) (sk_Identifier s) \<noteq> None \<and> sk_kind s = SyslogSink then [s] else [])"
proof -
  have gok: "gs_ok (sm_sinks sm)" using ok by (simp add: sm_ok_def)
  then obtain b gs where g: "CloseAndDelete s (sm_sinks sm) = Some (b, gs)" and ok1: "gs_ok gs"
    using CloseAndDelete_ok by blast
  note sl = CloseAndDelete_slots[OF g]
  have kd: "sk_kind (sw_Sink w) = kinds a i" if "slot (gs_apps gs) a i = Some w" for a i w
    using that ok by (auto simp: sl(2) sm_ok_def split: if_splits)
  show ?thesis
  proof (cases "slot (gs_apps (sm_sinks sm)) (sk_AppID s) (sk_Identifier s)")
    case None
    have "counters_match (sm\<lparr>sm_sinks := gs\<rparr>)" if "counters_match sm"
      by (rule counters_same[OF that, of gs]) (use None sl in auto)
    then show ?thesis
      using ok ok1 kd None sl by (auto simp: UnregisterSink_def g sm_ok_def)
  next
    case (Some w)
    have "sk_kind (sw_Sink w) = sk_kind s" using ok k Some by (auto simp: sm_ok_def)
    moreover have "slot_count P (gs_apps (sm_sinks sm)) = slot_count P (gs_apps gs) + (if P w then 1 else 0)" for P
      using Some sl(2) by (intro slot_count_del) auto
    ultimately have "counters_match (sm\<lparr>sm_sinks := gs, sm_metrics := metrics_Dec s (sm_metrics sm)\<rparr>)"
      if "counters_match sm" using counters_Dec[OF that] sl(3) by blast
    then show ?thesis
      using ok ok1 kd Some sl
      by (auto simp: UnregisterSink_def g sm_ok_def counters_match_def registered_kind_def registered_firehoses_def)
  qed
qed

lemma sm_ok_env:
  assumes "sm_ok kinds sm" and "\<And>a. chan_open (en_chans en) a = chan_open (en_chans (gs_env (sm_sinks sm))) a"
  shows "sm_ok kinds (sm\<lparr>sm_sinks := (sm_sinks sm)\<lparr>gs_env := en\<rparr>\<rparr>)"
  using assms gs_ok_env[of "sm_sinks sm" en]
  by (simp add: sm_ok_def counters_match_def registered_kind_def registered_firehoses_def)

lemma sm_ok_queue: "sm_ok kinds sm \<Longrightarrow> sm_ok kinds (sm\<lparr>sm_errorChannel := q\<rparr>)"
  by (simp add: sm_ok_def counters_match_def)

lemma RegisterFirehose_ok:
  assumes ok: "sm_ok kinds sm"
  shows "sm_ok kinds (snd (SM_RegisterFirehoseSink s sm))"
proof -
  obtain c gs where w: "with_channel 128 (sm_sinks sm) = (c, gs)" by (cases "with_channel 128 (sm_sinks sm)")
  obtain b gs' where g: "RegisterFirehoseSink c s gs = (b, gs')" by (cases "RegisterFirehoseSink c s gs")
  have gok: "gs_ok (sm_sinks sm)" using ok by (simp add: sm_ok_def)
  note maps = with_channel_maps[OF w] and sl = RegisterFirehoseSink_slots[OF g]
  have ok1: "gs_ok gs'"
    using RegisterFirehoseSink_ok[OF with_channel_ok[OF gok w], of s] by (simp add: g)
  have "slot_count (\<lambda>_. True) (gs_firehoses gs') = slot_count (\<lambda>_. True) (gs_firehoses (sm_sinks sm)) + (if b then 1 else 0)"
  proof (cases b)
    case True
    then show ?thesis
      using slot_count_add[of "gs_firehoses gs'" "sk_AppID s" "sk_Identifier s" _ "gs_firehoses gs" "\<lambda>_. True"] sl maps
      by auto
  next
    case False
    then have "slot (gs_firehoses gs') a i = slot (gs_firehoses (sm_sinks sm)) a i" for a i
      using sl(2) maps by simp
    from slot_count_same[OF this] False show ?thesis by simp
  qed
  then show ?thesis
    using ok ok1 maps sl(3)
    by (auto simp: SM_RegisterFirehoseSink_def w g Let_def sm_ok_def IncFirehose_def counters_match_def
        registered_kind_def registered_firehoses_def)
qed

lemma UnregisterFirehose_ok:
  assumes ok: "sm_ok kinds sm"
  shows "\<exists>sm'. UnregisterFirehoseSink s sm = Some sm' \<and> sm_ok kinds sm'"
proof -
  have gok: "gs_ok (sm_sinks sm)" using ok by (simp add: sm_ok_def)
  then obtain b gs where g: "CloseAndDeleteFirehose s (sm_sinks sm) = Some (b, gs)" and ok1: "gs_ok gs"
    using CloseAndDeleteFirehose_ok by blast
  note sl = CloseAndDeleteFirehose_slots[OF g]
  have "slot_count (\<lambda>_. True) (gs_firehoses (sm_sinks sm)) = slot_count (\<lambda>_. True) (gs_firehoses gs) + (if b then 1 else 0)"
  proof (cases "slot (gs_firehoses (sm_sinks sm)) (sk_AppID s) (sk_Identifier s)")
    case None
    then have "slot (gs_firehoses gs) a i = slot (gs_firehoses (sm_sinks sm)) a i" for a i
      using sl(2) by auto
    from slot_count_same[OF this] None sl(1) show ?thesis by simp
  next
    case (Some w)
    then show ?thesis
      using slot_count_del[of "gs_firehoses gs" "sk_AppID s" "sk_Identifier s" "gs_firehoses (sm_sinks sm)" w "\<lambda>_. True"] sl
      by auto
  qed
  then show ?thesis
    using ok ok1 sl(3)
    by (auto simp: UnregisterFirehoseSink_def g Let_def sm_ok_def DecFirehose_def counters_match_def
        registered_kind_def registered_firehoses_def)
qed

lemma ensure_ok:
  assumes "sm_ok kinds sm"
  shows "kinds appId appId = DumpSink \<Longrightarrow> sm_ok kinds (ensureRecentLogsSinkFor appId sm)"
    and "kinds appId (''container-metrics-'' @ appId) = ContainerMetricSink \<Longrightarrow>
      sm_ok kinds (ensureContainerMetricsSinkFor appId sm)"
  using RegisterSink_ok(1)[OF assms, of "dump_sink_for appId", OF _ prod.collapse[symmetric]]
    RegisterSink_ok(1)[OF assms, of "container_sink_for appId", OF _ prod.collapse[symmetric]] assms
  by (simp_all add: ensureRecentLogsSinkFor_def ensureContainerMetricsSinkFor_def dump_sink_for_def container_sink_for_def)

lemma SendTo_ok:
  assumes "sm_ok kinds sm" and "kinds appId appId = DumpSink"
    and "kinds appId (''container-metrics-'' @ appId) = ContainerMetricSink"
  shows "\<exists>sm'. SendTo draw appId msg sm = Some sm' \<and> sm_ok kinds sm'"
proof -
  let ?sm = "ensureContainerMetricsSinkFor appId (ensureRecentLogsSinkFor appId sm)"
  have ok: "sm_ok kinds ?sm" using assms by (intro ensure_ok)
  then have gok: "gs_ok (sm_sinks ?sm)" by (simp add: sm_ok_def)
  show ?thesis
    unfolding SendTo_def Let_def Broadcast_eq[OF gok] using ok
    by (auto intro!: sm_ok_env)
qed

lemma SendSyslogError_ok:
  assumes "sm_ok kinds sm"
  shows "length (sm_errorChannel sm) < 100 \<Longrightarrow> \<exists>sm'. SendSyslogErrorToLoggregator cfg msg appId sm = Some sm'"
    and "SendSyslogErrorToLoggregator cfg msg appId sm = Some sm' \<Longrightarrow> sm_ok kinds sm'"
  using assms
  by (auto simp: SendSyslogErrorToLoggregator_def sm_ok_queue split: sum.splits)

lemma sm_step_ok:
  assumes ok: "sm_ok kinds sm" and names: "names_agree cfg kinds a"
  shows "length (sm_errorChannel sm) < 100 \<Longrightarrow> \<exists>sm'. sm_step cfg a sm = Some sm'"
    and "sm_step cfg a sm = Some sm' \<Longrightarrow> sm_ok kinds sm'"
proof -
  have gok: "gs_ok (sm_sinks sm)" using ok by (simp add: sm_ok_def)
  have "(length (sm_errorChannel sm) < 100 \<longrightarrow> (\<exists>sm'. sm_step cfg a sm = Some sm')) \<and>
    (\<forall>sm'. sm_step cfg a sm = Some sm' \<longrightarrow> sm_ok kinds sm')"
  proof (cases a)
    case (SM_Register s)
    then show ?thesis using names RegisterSink_ok(1)[OF ok _ prod.collapse[symmetric], of s] by simp
  next
    case (SM_SinkDone s)
    then show ?thesis using names UnregisterSink_ok[OF ok, of s] by auto
  next
    case (SM_RegisterFirehose s)
    then show ?thesis using RegisterFirehose_ok[OF ok, of s] by simp
  next
    case (SM_FirehoseDone s)
    then show ?thesis using UnregisterFirehose_ok[OF ok, of s] by auto
  next
    case (SM_Message draw msg)
    then show ?thesis
      using names SendTo_ok[OF ok, of "GetAppId (sc_ext cfg) msg" draw msg]
      by (auto simp: route_envelope_def Let_def)
  next
    case (SM_NewService s)
    then show ?thesis
      using names SendSyslogError_ok[OF ok] RegisterSink_ok(1)[OF ok _ prod.collapse[symmetric]]
      by (auto simp: registerNewSyslogSink_def CheckUrl_def syslog_sink_for_def split: sum.splits ip_error.splits if_splits)
  next
    case (SM_DeletedService s)
    have k: "kinds (sk_AppID x) (sk_Identifier x) = sk_kind x"
      if d: "DrainFor (si_appId s) (si_url s) (sm_sinks sm) = Some x" for x
    proof -
      obtain w where w: "slot (gs_apps (sm_sinks sm)) (si_appId s) (si_url s) = Some w" "sw_Sink w = x"
        using d by (auto simp: lookups_slot)
      have "family_ok (gs_apps (sm_sinks sm)) (en_chans (gs_env (sm_sinks sm)))" using gok by (simp add: gs_ok_def)
      from family_okD(3)[OF this w(1)] w ok show ?thesis by (auto simp: sm_ok_def)
    qed
    show ?thesis
    proof (cases "DrainFor (si_appId s) (si_url s) (sm_sinks sm)")
      case None
      then show ?thesis using ok by (simp add: SM_DeletedService deletedAppService_def)
    next
      case (Some x)
      then show ?thesis using UnregisterSink_ok[OF ok k[OF Some]] by (auto simp: SM_DeletedService deletedAppService_def)
    qed
  next
    case (SM_SyslogError msg appId)
    then show ?thesis using SendSyslogError_ok[OF ok] by auto
  next
    case (SM_NextError draw)
    then show ?thesis
      using ok sm_ok_queue[OF sm_ok_env[OF ok]]
      by (auto simp: nextErrorMessage_def BroadcastError_eq[OF gok] split: list.splits)
  next
    case (SM_Receive c)
    then show ?thesis using sm_ok_env[OF ok] by simp
  next
    case SM_Stop
    then show ?thesis
      using ok DeleteAll_ok[OF gok] by (auto simp: SinkManager_Stop_def sm_ok_def gs_ok_def)
  qed
  then show "length (sm_errorChannel sm) < 100 \<Longrightarrow> \<exists>sm'. sm_step cfg a sm = Some sm'"
    and "sm_step cfg a sm = Some sm' \<Longrightarrow> sm_ok kinds sm'" by blast+
qed

lemma sm_ok_new: "sm_ok kinds NewSinkManager"
  using gs_ok_new
  by (simp add: sm_ok_def NewSinkManager_def counters_match_def NewSinkManagerMetrics_def registered_kind_def
      registered_firehoses_def slot_count_def NewGroupedSinks_def)

lemma sm_run_ok:
  "foldM (sm_step cfg) acts NewSinkManager = Some sm \<Longrightarrow> \<forall>a \<in> set acts. names_agree cfg kinds a \<Longrightarrow> sm_ok kinds sm"
proof (induction acts arbitrary: sm rule: rev_induct)
  case Nil
  then show ?case by (simp add: sm_ok_new)
next
  case (snoc a acts)
  then obtain sm0 where "foldM (sm_step cfg) acts NewSinkManager = Some sm0" and step: "sm_step cfg a sm0 = Some sm"
    by (auto simp: foldM_append bind_eq_Some_conv)
  then have "sm_ok kinds sm0" using snoc by simp
  then show ?case using sm_step_ok(2)[OF _ _ step] snoc.prems(2) by simp
qed

lemma ensured_slots:
  assumes ok: "sm_ok kinds sm" and a: "a \<noteq> []" and d: "kinds a a = DumpSink"
    and c: "kinds a (''container-metrics-'' @ a) = ContainerMetricSink"
  shows "\<exists>wd wc. slot (gs_apps (sm_sinks (ensureContainerMetricsSinkFor a (ensureRecentLogsSinkFor a sm)))) a a = Some wd \<and>
    slot (gs_apps (sm_sinks (ensureContainerMetricsSinkFor a (ensureRecentLogsSinkFor a sm)))) a (''container-metrics-'' @ a) = Some wc"
proof -
  let ?sm1 = "ensureRecentLogsSinkFor a sm"
  have kd: "sk_kind (sw_Sink w) = kinds a i" if "sm_ok kinds s" "slot (gs_apps (sm_sinks s)) a i = Some w" for s i w
    using that by (auto simp: sm_ok_def)
  obtain wd where wd: "slot (gs_apps (sm_sinks ?sm1)) a a = Some wd"
  proof (cases "slot (gs_apps (sm_sinks sm)) a a")
    case None
    then show ?thesis
      using that RegisterSink_ok(2,3)[OF ok _ prod.collapse[symmetric], of "dump_sink_for a"] d a
      by (auto simp: ensureRecentLogsSinkFor_def lookups_slot sink_as_def dump_sink_for_def)
  next
    case (Some w)
    then have "ensureRecentLogsSinkFor a sm = sm"
      using kd[OF ok Some] d by (simp add: ensureRecentLogsSinkFor_def lookups_slot sink_as_def)
    then show ?thesis using that Some by simp
  qed
  have ok1: "sm_ok kinds ?sm1" using ok d by (rule ensure_ok)
  show ?thesis
  proof (cases "slot (gs_apps (sm_sinks ?sm1)) a (''container-metrics-'' @ a)")
    case None
    then have "ensureContainerMetricsSinkFor a ?sm1 = snd (RegisterSink (container_sink_for a) ?sm1)"
      by (simp add: ensureContainerMetricsSinkFor_def lookups_slot sink_as_def)
    moreover have "kinds (sk_AppID (container_sink_for a)) (sk_Identifier (container_sink_for a)) = sk_kind (container_sink_for a)"
      using c by (simp add: container_sink_for_def)
    ultimately show ?thesis
      using RegisterSink_ok(2,3)[OF ok1 _ prod.collapse[symmetric], of "container_sink_for a"] a wd None
      by (auto simp: container_sink_for_def)
  next
    case (Some w)
    then have "ensureContainerMetricsSinkFor a ?sm1 = ?sm1"
      using kd[OF ok1 Some] c by (simp add: ensureContainerMetricsSinkFor_def lookups_slot sink_as_def)
    then show ?thesis using wd Some by simp
  qed
qed

lemma slot_target:
  assumes "gs_ok gs" and "slot (gs_apps gs) a i = Some w"
  shows "sw_InputChan w \<in> set (app_targets a gs)" and "sw_InputChan w < length (en_chans (gs_env gs))"
proof -
  obtain g where "mget (gs_apps gs) a = Some g" "mget g i = Some w"
    using assms(2) by (auto simp: slot_def split: option.splits)
  then show "sw_InputChan w \<in> set (app_targets a gs)"
    by (force simp: app_targets_def group_chans_def mget_or_def dest: map_of_SomeD)
  have "family_ok (gs_apps gs) (en_chans (gs_env gs))" using assms(1) by (simp add: gs_ok_def)
  from family_okD(3)[OF this assms(2)] show "sw_InputChan w < length (en_chans (gs_env gs))"
    by (simp add: chan_open_def)
qed

lemma delivered_holds:
  "a \<in> set as \<Longrightarrow> a < length cs \<Longrightarrow> holds_message msg (delivered msg as cs) a"
  by (auto simp: holds_message_def nth_delivered chan_full_def)

section \<open>Properties\<close>

text \<open>
  C10: as long as the manager is not stopped, and sinks of different kinds do not share a name, the
  five counters are the numbers of sinks of each kind and of firehose sinks in the registry,
  whatever the order in which sinks come and go; and the next action neither panics nor blocks
  while the error channel has room.
\<close>

theorem sink_manager_counts:
  assumes "foldM (sm_step cfg) acts NewSinkManager = Some sm" and "\<forall>a \<in> set acts. names_agree cfg kinds a"
    and "\<not> sm_stopped sm" and "length (sm_errorChannel sm) < 100" and "names_agree cfg kinds act"
  shows "counters_match sm \<and> (\<exists>sm'. sm_step cfg act sm = Some sm')"
proof -
  have "sm_ok kinds sm" using assms(1,2) by (rule sm_run_ok)
  then show ?thesis using sm_step_ok(1)[of kinds sm cfg act] assms(3,4,5) by (auto simp: sm_ok_def)
qed

theorem sink_manager_counts_witness:
  "counters_match (snd (RegisterSink demo_sink NewSinkManager)) \<and>
   (\<exists>sm'. sm_step demo_cfg (SM_SinkDone demo_sink) (snd (RegisterSink demo_sink NewSinkManager)) = Some sm')"
proof (rule sink_manager_counts[of demo_cfg "[SM_Register demo_sink]" _ demo_kinds])
  show "foldM (sm_step demo_cfg) [SM_Register demo_sink] NewSinkManager = Some (snd (RegisterSink demo_sink NewSinkManager))"
    by simp
  show "\<forall>a \<in> set [SM_Register demo_sink]. names_agree demo_cfg demo_kinds a" by code_simp
  show "\<not> sm_stopped (snd (RegisterSink demo_sink NewSinkManager))" by code_simp
  show "length (sm_errorChannel (snd (RegisterSink demo_sink NewSinkManager))) < 100" by code_simp
  show "names_agree demo_cfg demo_kinds (SM_SinkDone demo_sink)" by code_simp
qed



text \<open>
  The drain of a service that is announced and then withdrawn goes away again, and its sink is
  told to disconnect, only if the URL of the service is literally scheme, host and path; with
  anything else in it, such as a query or user information, the sink is looked up under a name it
  does not have and stays registered.
\<close>

theorem withdrawn_drain:
  assumes run: "foldM (sm_step cfg) acts NewSinkManager = Some sm" "\<forall>x \<in> set acts. names_agree cfg kinds x"
    and url: "CheckUrl (sc_net cfg) (sc_blacklist cfg) (si_url s) = Inr u" "du_Host u \<noteq> []"
    and writer: "NewWriter u (si_appId s) (si_hostname s) = Inr w"
    and app: "si_appId s \<noteq> []" "kinds (si_appId s) (SyslogSink_Identifier u) = SyslogSink"
    and free: "slot (gs_apps (sm_sinks sm)) (si_appId s) (SyslogSink_Identifier u) = None"
      "slot (gs_apps (sm_sinks sm)) (si_appId s) (si_url s) = None"
  shows "\<exists>sm1 sm2 x. sm_step cfg (SM_NewService s) sm = Some sm1 \<and> sm_step cfg (SM_DeletedService s) sm1 = Some sm2 \<and>
    slot (gs_apps (sm_sinks sm1)) (si_appId s) (SyslogSink_Identifier u) = Some x \<and>
    (if si_url s = SyslogSink_Identifier u
     then slot (gs_apps (sm_sinks sm2)) (si_appId s) (SyslogSink_Identifier u) = None \<and>
       sm_disconnected sm2 = sm_disconnected sm1 @ [sw_Sink x]
     else sm2 = sm1)"
proof -
  let ?s = "syslog_sink_for (si_appId s) u" and ?sm1 = "snd (RegisterSink (syslog_sink_for (si_appId s) u) sm)"
  have ok: "sm_ok kinds sm" using run by (rule sm_run_ok)
  have kd: "kinds (sk_AppID ?s) (sk_Identifier ?s) = sk_kind ?s" using app by (simp add: syslog_sink_for_def)
  note r = RegisterSink_ok[OF ok kd prod.collapse[symmetric]]
  have id: "SyslogSink_Identifier u \<noteq> []" using url(2) by (simp add: SyslogSink_Identifier_def)
  have "fst (RegisterSink ?s sm)" using r(2) free(1) app id by (simp add: syslog_sink_for_def)
  with r(3) obtain c where sl: "\<And>a i. slot (gs_apps (sm_sinks ?sm1)) a i = (if a = si_appId s \<and> i = SyslogSink_Identifier u
      then Some \<lparr>sw_InputChan = c, sw_Sink = ?s\<rparr> else slot (gs_apps (sm_sinks sm)) a i)"
    by (auto simp: syslog_sink_for_def)
  have 1: "sm_step cfg (SM_NewService s) sm = Some ?sm1"
    using url writer by (simp add: registerNewSyslogSink_def)
  show ?thesis
  proof (cases "si_url s = SyslogSink_Identifier u")
    case True
    then have "sm_step cfg (SM_DeletedService s) ?sm1 = UnregisterSink ?s ?sm1"
      by (simp add: deletedAppService_def lookups_slot sl)
    then show ?thesis
      using UnregisterSink_ok[OF r(1) kd] 1 True sl by (auto simp: syslog_sink_for_def)
  next
    case False
    then have "sm_step cfg (SM_DeletedService s) ?sm1 = Some ?sm1"
      using free(2) by (simp add: deletedAppService_def lookups_slot sl)
    then show ?thesis using 1 False sl by auto
  qed
qed

theorem withdrawn_drain_witness:
  "\<exists>sm1. sm_step demo_cfg (SM_NewService (NewServiceInfo ''app'' ''host'' ''d'')) NewSinkManager = Some sm1 \<and>
     sm_step demo_cfg (SM_DeletedService (NewServiceInfo ''app'' ''host'' ''d'')) sm1 = Some sm1 \<and>
     DrainFor ''app'' ''syslog://host'' (sm_sinks sm1) \<noteq> None"
proof -
  let ?s = "NewServiceInfo ''app'' ''host'' ''d''" and ?u = "\<lparr>du_Scheme = ''syslog'', du_Host = ''host'', du_Path = []\<rparr>"
  have run: "foldM (sm_step demo_cfg) [] NewSinkManager = Some NewSinkManager" by simp
  have url: "CheckUrl (sc_net demo_cfg) (sc_blacklist demo_cfg) (si_url ?s) = Inr ?u" "du_Host ?u \<noteq> []" by code_simp+
  obtain w where w: "NewWriter ?u (si_appId ?s) (si_hostname ?s) = Inr w" 
    by (simp add: NewWriter_def NewSyslogWriter_def)
  have app: "si_appId ?s \<noteq> []" "demo_kinds (si_appId ?s) (SyslogSink_Identifier ?u) = SyslogSink" by code_simp+
  have free: "slot (gs_apps (sm_sinks NewSinkManager)) (si_appId ?s) i = None" for i
    by (simp add: NewSinkManager_def NewGroupedSinks_def)
  have id: "SyslogSink_Identifier ?u = ''syslog://host''" by code_simp
  from withdrawn_drain[where kinds = demo_kinds, OF run _ url w app free free] show ?thesis
    by (auto simp: lookups_slot id NewServiceInfo_def)
qed

text \<open>
  The goroutine of a sink unregisters by name: if its sink was withdrawn and a new one with the same
  name registered before the goroutine ends, it removes the new sink.
\<close>

lemma late_goroutine_removes_successor:
  assumes ok: "sm_ok kinds sm" and kd: "kinds (sk_AppID old) (sk_Identifier old) = sk_kind old"
    and same: "sk_AppID new = sk_AppID old" "sk_Identifier new = sk_Identifier old" "sk_kind new = sk_kind old"
    and names: "sk_AppID old \<noteq> []" "sk_Identifier old \<noteq> []"
    and gone: "slot (gs_apps (sm_sinks sm)) (sk_AppID old) (sk_Identifier old) = None"
  shows "\<exists>sm1 sm2 w. RegisterSink new sm = (True, sm1) \<and>
    slot (gs_apps (sm_sinks sm1)) (sk_AppID new) (sk_Identifier new) = Some w \<and> sw_Sink w = new \<and>
    UnregisterSink old sm1 = Some sm2 \<and>
    slot (gs_apps (sm_sinks sm2)) (sk_AppID new) (sk_Identifier new) = None"
proof -
  have kn: "kinds (sk_AppID new) (sk_Identifier new) = sk_kind new" using kd same by simp
  obtain b sm1 where r: "RegisterSink new sm = (b, sm1)" by (cases "RegisterSink new sm")
  note s = RegisterSink_ok[OF ok kn r]
  have b using s(2) same names gone by simp
  with s(3) same obtain w where "slot (gs_apps (sm_sinks sm1)) (sk_AppID new) (sk_Identifier new) = Some w" "sw_Sink w = new"
    by auto
  with \<open>b\<close> r UnregisterSink_ok[OF s(1) kd] same show ?thesis by auto
qed

end
