(* ===== verification/Doppler_Server.thy ===== *)
theory Doppler_Server
  imports Sink_Manager Conversion
begin

text \<open>
  The gRPC faces of the doppler: the router of subscriptions and the server that registers them
  (\<open>grpcmanager/v1/router.go\<close>, \<open>doppler_server.go\<close>), and the two ingress servers
  (\<open>grpcmanager/v1/ingestor_server.go\<close>, \<open>grpcmanager/v2/ingress_server.go\<close>).

  A subscriber's buffer is an address; what the router writes is the list of the addresses it
  writes the envelope to. The mutex makes each operation of the router one step. Marshalling and
  the stream of a client are arguments.
\<close>

section \<open>Subscriptions\<close>

datatype filter_message = Filter_Log | Filter_Metric

record request_filter =
  rf_AppID :: string
  rf_Message :: "filter_message option"

record subscription_request =
  sr_ShardID :: string
  sr_Filter :: "request_filter option"

datatype filterType = noType | logType | metricType

record type_filter =
  tf_appID :: string
  tf_envelopeType :: filterType

type_synonym shards = "(string, nat list) gomap"
type_synonym router = "(type_filter, shards) gomap"

definition convertFilter :: "subscription_request \<Rightarrow> type_filter" where
  "convertFilter req =
     (case sr_Filter req of
        None \<Rightarrow> \<lparr>tf_appID = [], tf_envelopeType = noType\<rparr>
      | Some f \<Rightarrow>
          \<lparr>tf_appID = rf_AppID f,
           tf_envelopeType = (case rf_Message f of
              None \<Rightarrow> noType | Some Filter_Log \<Rightarrow> logType | Some Filter_Metric \<Rightarrow> metricType)\<rparr>)"

definition filterTypeFromEnvelope :: "events_pkg \<Rightarrow> v1_envelope \<Rightarrow> filterType" where
  "filterTypeFromEnvelope pkg e = (if GetEventType pkg e = Envelope_LogMessage then logType else metricType)"

definition createTypedFilters :: "events_pkg \<Rightarrow> string \<Rightarrow> v1_envelope \<Rightarrow> type_filter list" where
  "createTypedFilters pkg appID e =
     [\<lparr>tf_appID = appID, tf_envelopeType = noType\<rparr>,
      \<lparr>tf_appID = appID, tf_envelopeType = filterTypeFromEnvelope pkg e\<rparr>,
      \<lparr>tf_appID = [], tf_envelopeType = filterTypeFromEnvelope pkg e\<rparr>,
      \<lparr>tf_appID = [], tf_envelopeType = noType\<rparr>]"

definition registerSetter :: "subscription_request \<Rightarrow> nat \<Rightarrow> router \<Rightarrow> router" where
  "registerSetter req setter r =
     (let f = convertFilter req;
          m = (case mget r f of Some m \<Rightarrow> m | None \<Rightarrow> [])
      in mput f (mput (sr_ShardID req) (mget_or [] m (sr_ShardID req) @ [setter]) m) r)"

definition buildCleanup :: "subscription_request \<Rightarrow> nat \<Rightarrow> router \<Rightarrow> router" where
  "buildCleanup req setter r =
     (let f = convertFilter req;
          m = mget_or [] r f;
          setters = filter (\<lambda>s. s \<noteq> setter) (mget_or [] m (sr_ShardID req))
      in if length setters > 0 then mput f (mput (sr_ShardID req) setters m) r
         else let m' = mdel (sr_ShardID req) m
              in if length m' = 0 then mdel f r
                 else mput f m' r)"

text \<open>\<open>None\<close> is the panic of \<open>rand.Intn(0)\<close>.\<close>

definition writeToShard :: "nat \<Rightarrow> string \<Rightarrow> nat list \<Rightarrow> nat list option" where
  "writeToShard draw shard setters =
     (if shard = [] then Some setters
      else if length setters = 0 then None else Some [setters ! (draw mod length setters)])"

fun write_shards :: "(string \<Rightarrow> nat) \<Rightarrow> shards \<Rightarrow> nat list option" where
  "write_shards draw [] = Some []"
| "write_shards draw ((shard, setters) # m) =
     Option.bind (writeToShard (draw shard) shard setters)
       (\<lambda>ws. map_option (\<lambda>ws'. ws @ ws') (write_shards draw m))"

fun write_filters :: "(type_filter \<Rightarrow> string \<Rightarrow> nat) \<Rightarrow> router \<Rightarrow> type_filter list \<Rightarrow> nat list option" where
  "write_filters draw r [] = Some []"
| "write_filters draw r (f # fs) =
     Option.bind (write_shards (draw f) (mget_or [] r f))
       (\<lambda>ws. map_option (\<lambda>ws'. ws @ ws') (write_filters draw r fs))"

text \<open>\<open>marshal\<close> gives nil on an error, and an empty slice is not nil.\<close>

definition Router_SendTo ::
    "events_pkg \<Rightarrow> (v1_envelope \<Rightarrow> string option) \<Rightarrow> (type_filter \<Rightarrow> string \<Rightarrow> nat) \<Rightarrow> string \<Rightarrow> v1_envelope
      \<Rightarrow> router \<Rightarrow> (nat \<times> string) list option" where
  "Router_SendTo pkg marshal draw appID e r =
     (case marshal e of
        None \<Rightarrow> Some []
      | Some data \<Rightarrow>
          map_option (map (\<lambda>s. (s, data))) (write_filters draw r (createTypedFilters pkg appID e)))"

section \<open>The server\<close>

record doppler_server =
  dr_router :: router
  dr_numSubscriptions :: int
  dr_health :: int
  dr_egress :: uint64
  dr_egressDropped :: uint64

definition NewDopplerServer :: doppler_server where
  "NewDopplerServer = \<lparr>dr_router = [], dr_numSubscriptions = 0, dr_health = 0, dr_egress = 0, dr_egressDropped = 0\<rparr>"

text \<open>
  One iteration of the loop of \<open>sendData\<close>: the context is done, the buffer is empty, or a
  payload is sent with or without an error.
\<close>

datatype send_turn = Turn_Done string | Turn_Empty | Turn_Sent string | Turn_Failed string string

fun sendData_loop :: "send_turn list \<Rightarrow> string list \<times> string option" where
  "sendData_loop [] = ([], None)"
| "sendData_loop (Turn_Done err # ts) = ([], Some err)"
| "sendData_loop (Turn_Empty # ts) = sendData_loop ts"
| "sendData_loop (Turn_Sent data # ts) = (let (out, err) = sendData_loop ts in (data # out, err))"
| "sendData_loop (Turn_Failed data err # ts) = ([], Some err)"

text \<open>
  A subscription is a goroutine of gRPC: \<open>Subscribe_Begin\<close> runs to the loop of \<open>sendData\<close>,
  \<open>Subscribe_End\<close> is what the deferred calls do when it returns.
\<close>

definition Subscribe_Begin :: "subscription_request \<Rightarrow> nat \<Rightarrow> doppler_server \<Rightarrow> doppler_server" where
  "Subscribe_Begin req setter d =
     d\<lparr>dr_numSubscriptions := dr_numSubscriptions d + 1, dr_health := dr_health d + 1,
       dr_router := registerSetter req setter (dr_router d)\<rparr>"

definition Subscribe_End :: "subscription_request \<Rightarrow> nat \<Rightarrow> doppler_server \<Rightarrow> doppler_server" where
  "Subscribe_End req setter d =
     d\<lparr>dr_router := buildCleanup req setter (dr_router d), dr_health := dr_health d - 1,
       dr_numSubscriptions := dr_numSubscriptions d - 1\<rparr>"

definition DopplerServer_Alert :: "int \<Rightarrow> doppler_server \<Rightarrow> doppler_server" where
  "DopplerServer_Alert missed d = d\<lparr>dr_egressDropped := dr_egressDropped d + of_int missed\<rparr>"

fun marshalEnvelopes :: "(v1_envelope \<Rightarrow> string option) \<Rightarrow> v1_envelope list \<Rightarrow> string list" where
  "marshalEnvelopes marshal [] = []"
| "marshalEnvelopes marshal (e # es) =
     (case marshal e of None \<Rightarrow> marshalEnvelopes marshal es | Some bts \<Rightarrow> bts # marshalEnvelopes marshal es)"

definition ContainerMetrics ::
    "(v1_envelope \<Rightarrow> string option) \<Rightarrow> (sink \<Rightarrow> container_sink) \<Rightarrow> int \<Rightarrow> string \<Rightarrow> sink_manager \<Rightarrow> string list" where
  "ContainerMetrics marshal state now appID sm = marshalEnvelopes marshal (LatestContainerMetrics state now appID sm)"

definition RecentLogs ::
    "(v1_envelope \<Rightarrow> string option) \<Rightarrow> (sink \<Rightarrow> dump_sink) \<Rightarrow> string \<Rightarrow> sink_manager \<Rightarrow> string list" where
  "RecentLogs marshal state appID sm = marshalEnvelopes marshal (RecentLogsFor state appID sm)"

datatype ds_action = DS_Subscribe subscription_request nat | DS_Return subscription_request nat

fun ds_step :: "ds_action \<Rightarrow> doppler_server \<Rightarrow> doppler_server" where
  "ds_step (DS_Subscribe req s) d = Subscribe_Begin req s d"
| "ds_step (DS_Return req s) d = Subscribe_End req s d"

section \<open>Ingress\<close>

text \<open>What \<open>Pusher\<close> sees in one turn: the context is done, the end of the stream, an error, or bytes.\<close>

datatype push_turn = Push_Done | Push_EOF | Push_Error | Push_Payload string

text \<open>The envelopes that are set, how often the counter of all messages goes up, and whether it returned.\<close>

fun Pusher ::
    "(string \<Rightarrow> v1_envelope option) \<Rightarrow> push_turn list \<Rightarrow> v1_envelope list \<times> nat \<times> bool" where
  "Pusher unmarshal [] = ([], 0, False)"
| "Pusher unmarshal (Push_Done # ts) = ([], 0, True)"
| "Pusher unmarshal (Push_EOF # ts) = ([], 0, True)"
| "Pusher unmarshal (Push_Error # ts) = Pusher unmarshal ts"
| "Pusher unmarshal (Push_Payload p # ts) =
     (case unmarshal p of
        None \<Rightarrow> Pusher unmarshal ts
      | Some env \<Rightarrow> (let (out, n, ret) = Pusher unmarshal ts in (env # out, n + 1, ret)))"

record ingress =
  ig_buffer :: "v1_envelope list"
  ig_total :: nat
  ig_ingress :: uint64

definition ingress_envelope :: "v1_envelope \<Rightarrow> ingress \<Rightarrow> ingress" where
  "ingress_envelope v1e g =
     (if e1_EventType v1e = None then g
      else g\<lparr>ig_buffer := ig_buffer g @ [v1e], ig_total := ig_total g + 1, ig_ingress := ig_ingress g + 1\<rparr>)"

definition ingress_v2 ::
    "events_pkg \<Rightarrow> float_impl \<Rightarrow> v2_envelope \<Rightarrow> ingress \<times> tag_heap \<Rightarrow> ingress \<times> tag_heap" where
  "ingress_v2 pkg fi v2e s =
     (let (envelopes, h) = ToV1 pkg fi v2e (snd s) in (fold ingress_envelope envelopes (fst s), h))"

text \<open>Every batch received before the error that ends the stream.\<close>

definition BatchSender ::
    "events_pkg \<Rightarrow> float_impl \<Rightarrow> v2_envelope list list \<Rightarrow> ingress \<times> tag_heap \<Rightarrow> ingress \<times> tag_heap" where
  "BatchSender pkg fi batches s = fold (\<lambda>batch. fold (ingress_v2 pkg fi) batch) batches s"

definition Sender ::
    "events_pkg \<Rightarrow> float_impl \<Rightarrow> v2_envelope list \<Rightarrow> ingress \<times> tag_heap \<Rightarrow> ingress \<times> tag_heap" where
  "Sender pkg fi es s = fold (ingress_v2 pkg fi) es s"

section \<open>What a subscription promises\<close>

text \<open>The subscriptions that are open, in the order in which they were made.\<close>

definition subscription :: "subscription_request \<Rightarrow> nat \<Rightarrow> type_filter \<times> string \<times> nat" where
  "subscription req s = (convertFilter req, sr_ShardID req, s)"

fun open_subscriptions :: "ds_action list \<Rightarrow> (type_filter \<times> string \<times> nat) list \<Rightarrow> (type_filter \<times> string \<times> nat) list" where
  "open_subscriptions [] L = L"
| "open_subscriptions (DS_Subscribe req s # as) L = open_subscriptions as (L @ [subscription req s])"
| "open_subscriptions (DS_Return req s # as) L = open_subscriptions as (filter (\<lambda>x. x \<noteq> subscription req s) L)"

text \<open>Every subscription has a buffer of its own, and returns once, after it began.\<close>

fun well_nested :: "ds_action list \<Rightarrow> (type_filter \<times> string \<times> nat) list \<Rightarrow> bool" where
  "well_nested [] L \<longleftrightarrow> True"
| "well_nested (DS_Subscribe req s # as) L \<longleftrightarrow>
     s \<notin> (\<lambda>(f, sh, s). s) ` set L \<and> well_nested as (L @ [subscription req s])"
| "well_nested (DS_Return req s # as) L \<longleftrightarrow>
     subscription req s \<in> set L \<and> well_nested as (filter (\<lambda>x. x \<noteq> subscription req s) L)"

text \<open>Whether a filter asks for an envelope of an application.\<close>

definition wants :: "events_pkg \<Rightarrow> type_filter \<Rightarrow> string \<Rightarrow> v1_envelope \<Rightarrow> bool" where
  "wants pkg f appID e \<longleftrightarrow>
     (tf_appID f = [] \<or> tf_appID f = appID) \<and>
     (tf_envelopeType f = noType \<or> tf_envelopeType f = filterTypeFromEnvelope pkg e)"

definition setters_of :: "type_filter \<Rightarrow> string \<Rightarrow> (type_filter \<times> string \<times> nat) list \<Rightarrow> nat list" where
  "setters_of f sh L = map (\<lambda>(f, sh, s). s) (filter (\<lambda>(f', sh', s). f' = f \<and> sh' = sh) L)"

definition router_holds :: "router \<Rightarrow> (type_filter \<times> string \<times> nat) list \<Rightarrow> bool" where
  "router_holds r L \<longleftrightarrow>
     (\<forall>f m. mget r f = Some m \<longrightarrow> wf_map m \<and> m \<noteq> [] \<and> (\<forall>sh. mget m sh \<noteq> Some [])) \<and>
     (\<forall>f sh. mget_or [] (mget_or [] r f) sh = setters_of f sh L)"

text \<open>The members of one shard that a draw picks.\<close>

definition shard_out :: "nat \<Rightarrow> string \<Rightarrow> nat list \<Rightarrow> nat list" where
  "shard_out draw sh ss = (if sh = [] then ss else [ss ! (draw mod length ss)])"

definition small_request :: subscription_request where
  "small_request = \<lparr>sr_ShardID = ''shard'', sr_Filter = None\<rparr>"

text \<open>The addresses written to, for any list of filters.\<close>

definition router_out :: "(type_filter \<Rightarrow> string \<Rightarrow> nat) \<Rightarrow> router \<Rightarrow> type_filter list \<Rightarrow> nat list" where
  "router_out draw r fs =
     concat (map (\<lambda>f. concat (map (\<lambda>(sh, ss). shard_out (draw f sh) sh ss) (mget_or [] r f))) fs)"

section \<open>The router holds the open subscriptions\<close>

lemma setters_of_append [simp]:
  "setters_of f sh (L @ [subscription req s]) =
   setters_of f sh L @ (if f = convertFilter req \<and> sh = sr_ShardID req then [s] else [])"
  by (auto simp: setters_of_def subscription_def)

lemma setters_of_filter:
  "setters_of f sh (filter (\<lambda>x. x \<noteq> subscription req s) L) =
   (if f = convertFilter req \<and> sh = sr_ShardID req then filter (\<lambda>t. t \<noteq> s) (setters_of f sh L) else setters_of f sh L)"
  by (induction L) (auto simp: setters_of_def subscription_def)

lemma router_holds_register:
  assumes "router_holds r L"
  shows "router_holds (registerSetter req s r) (L @ [subscription req s])"
  using assms unfolding router_holds_def registerSetter_def
  by (auto simp: Let_def mget_or_def update_nonempty split: option.splits if_splits)

lemma mget_or_Nil_iff: "(\<forall>k. mget m k \<noteq> Some []) \<Longrightarrow> mget_or [] m k = [] \<longleftrightarrow> mget m k = None"
  by (auto simp: mget_or_def split: option.split)

lemma router_holds_cleanup:
  assumes "router_holds r L"
  shows "router_holds (buildCleanup req s r) (filter (\<lambda>x. x \<noteq> subscription req s) L)"
proof -
  let ?f = "convertFilter req" and ?m = "mget_or [] r (convertFilter req)" and ?sh = "sr_ShardID req"
  let ?ss = "filter (\<lambda>t. t \<noteq> s) (mget_or [] ?m ?sh)"
  have groups: "mget r f = Some m \<Longrightarrow> wf_map m \<and> m \<noteq> [] \<and> (\<forall>sh. mget m sh \<noteq> Some [])" for f m
    using assms by (auto simp: router_holds_def)
  have subs: "mget_or [] (mget_or [] r f) sh = setters_of f sh L" for f sh
    using assms by (auto simp: router_holds_def)
  have m: "wf_map ?m" "mget ?m sh \<noteq> Some []" for sh
    using groups by (auto simp: mget_or_def split: option.split)
  consider "?ss \<noteq> []" | "?ss = []" "mdel ?sh ?m = []" | "?ss = []" "mdel ?sh ?m \<noteq> []" by blast
  then show ?thesis
  proof cases
    case 1
    then have eq: "buildCleanup req s r = mput ?f (mput ?sh ?ss ?m) r" by (simp add: buildCleanup_def Let_def)
    show ?thesis
      unfolding router_holds_def eq
      using 1 groups m by (auto simp: setters_of_filter subs update_nonempty split: if_splits)
  next
    case 2
    then have eq: "buildCleanup req s r = mdel ?f r" by (simp add: buildCleanup_def Let_def)
    have "setters_of ?f sh L = []" if "sh \<noteq> ?sh" for sh
      using that 2(2) mget_mdel[of ?sh ?m sh] by (simp add: mget_or_def flip: subs)
    then show ?thesis
      unfolding router_holds_def eq
      using 2(1) groups by (auto simp: setters_of_filter subs mget_or_def[of _ "[]"] split: if_splits)
  next
    case 3
    then have eq: "buildCleanup req s r = mput ?f (mdel ?sh ?m) r" by (simp add: buildCleanup_def Let_def)
    show ?thesis
      unfolding router_holds_def eq
      using 3 groups m by (auto simp: setters_of_filter subs split: if_splits)
  qed
qed

lemma length_filter_remove: "distinct L \<Longrightarrow> x \<in> set L \<Longrightarrow> length (filter (\<lambda>y. y \<noteq> x) L) + 1 = length L"
proof (induction L)
  case (Cons a L)
  show ?case
  proof (cases "x = a")
    case True
    with Cons.prems have "filter (\<lambda>y. y \<noteq> x) L = L" by (auto simp: filter_id_conv)
    with True show ?thesis by simp
  next
    case False
    with Cons show ?thesis by auto
  qed
qed simp

lemma ds_run:
  assumes "router_holds (dr_router d) L" and "well_nested as L" and "distinct (map (\<lambda>(f, sh, s). s) L)"
    and "dr_numSubscriptions d = int (length L)" and "dr_health d = int (length L)"
  shows "let d' = fold ds_step as d; L' = open_subscriptions as L
    in router_holds (dr_router d') L' \<and> distinct (map (\<lambda>(f, sh, s). s) L') \<and>
       dr_numSubscriptions d' = int (length L') \<and> dr_health d' = int (length L')"
  using assms
proof (induction as arbitrary: d L)
  case Nil
  then show ?case by simp
next
  case (Cons a as)
  show ?case
  proof (cases a)
    case (DS_Subscribe req s)
    then show ?thesis
      using Cons.prems Cons.IH[of "Subscribe_Begin req s d" "L @ [subscription req s]"]
        router_holds_register[OF Cons.prems(1), of req s]
      by (force simp: Subscribe_Begin_def subscription_def)
  next
    case (DS_Return req s)
    let ?L = "filter (\<lambda>x. x \<noteq> subscription req s) L"
    have dL: "distinct L" using Cons.prems(3) by (simp add: distinct_map)
    have "subscription req s \<in> set L" using Cons.prems(2) DS_Return by simp
    then have "int (length ?L) = int (length L) - 1" using length_filter_remove[OF dL] by fastforce
    moreover have "distinct (map (\<lambda>(f, sh, s). s) ?L)" using Cons.prems(3) by (simp add: distinct_map_filter)
    ultimately show ?thesis
      using Cons.prems Cons.IH[of "Subscribe_End req s d" ?L] router_holds_cleanup[OF Cons.prems(1), of req s]
      by (simp add: DS_Return Subscribe_End_def)
  qed
qed

lemma ds_run_start:
  assumes "well_nested as []"
  shows "router_holds (dr_router (fold ds_step as NewDopplerServer)) (open_subscriptions as [])"
    and "distinct (map (\<lambda>(f, sh, s). s) (open_subscriptions as []))"
    and "dr_numSubscriptions (fold ds_step as NewDopplerServer) = int (length (open_subscriptions as []))"
    and "dr_health (fold ds_step as NewDopplerServer) = int (length (open_subscriptions as []))"
  using ds_run[of NewDopplerServer "[]" as] assms
  by (simp_all add: Let_def NewDopplerServer_def router_holds_def setters_of_def mget_or_def)

section \<open>Who gets an envelope\<close>

lemma write_shards_eq:
  "\<forall>(sh, ss) \<in> set m. ss \<noteq> [] \<Longrightarrow> write_shards draw m = Some (concat (map (\<lambda>(sh, ss). shard_out (draw sh) sh ss) m))"
  by (induction m) (auto simp: writeToShard_def shard_out_def)

lemma write_filters_eq:
  "\<forall>f \<in> set fs. \<forall>(sh, ss) \<in> set (mget_or [] r f). ss \<noteq> [] \<Longrightarrow>
   write_filters draw r fs = Some (concat (map (\<lambda>f. concat (map (\<lambda>(sh, ss). shard_out (draw f sh) sh ss) (mget_or [] r f))) fs))"
  by (induction fs) (simp_all add: write_shards_eq)

lemma distinct_concat_map:
  "distinct xs \<Longrightarrow> (\<And>x. x \<in> set xs \<Longrightarrow> distinct (g x)) \<Longrightarrow>
   (\<And>x y. x \<in> set xs \<Longrightarrow> y \<in> set xs \<Longrightarrow> x \<noteq> y \<Longrightarrow> set (g x) \<inter> set (g y) = {}) \<Longrightarrow> distinct (concat (map g xs))"
  by (induction xs) fastforce+

lemma holds_entries:
  assumes "router_holds r L" and "mget_or [] r f = m"
  shows "wf_map m" and "(sh, ss) \<in> set m \<longleftrightarrow> ss = setters_of f sh L \<and> ss \<noteq> []"
proof -
  have g: "mget r f = Some m' \<Longrightarrow> wf_map m' \<and> m' \<noteq> [] \<and> (\<forall>sh. mget m' sh \<noteq> Some [])" for m'
    using assms by (auto simp: router_holds_def)
  have subs: "mget_or [] m sh = setters_of f sh L" for sh using assms by (auto simp: router_holds_def)
  show wf: "wf_map m" using assms(2) g by (auto simp: mget_or_def split: option.splits)
  have "mget m sh \<noteq> Some []" for sh using assms(2) g by (auto simp: mget_or_def split: option.splits)
  then show "(sh, ss) \<in> set m \<longleftrightarrow> ss = setters_of f sh L \<and> ss \<noteq> []"
    using wf_map_mget_iff[OF wf, of sh ss] subs[of sh] by (auto simp: mget_or_def split: option.splits)
qed

lemma typed_filters_wants:
  "f \<in> set (createTypedFilters pkg appID e) \<longleftrightarrow> wants pkg f appID e"
  by (cases f) (auto simp: createTypedFilters_def wants_def)

lemma typed_filters_distinct: "appID \<noteq> [] \<Longrightarrow> distinct (createTypedFilters pkg appID e)"
  by (auto simp: createTypedFilters_def filterTypeFromEnvelope_def)

lemma in_setters_of: "s \<in> set (setters_of f sh L) \<longleftrightarrow> (f, sh, s) \<in> set L"
  by (auto simp: setters_of_def image_iff)

lemma setter_owner:
  assumes "distinct (map (\<lambda>(f, sh, s). s) L)" and "(f, sh, s) \<in> set L" and "(f', sh', s) \<in> set L"
  shows "f' = f \<and> sh' = sh"
  using assms by (fastforce simp: distinct_map inj_on_def)

lemma setters_of_distinct: "distinct (map (\<lambda>(f, sh, s). s) L) \<Longrightarrow> distinct (setters_of f sh L)"
  by (simp add: setters_of_def distinct_map_filter)

lemma shard_out_sub: "ss \<noteq> [] \<Longrightarrow> set (shard_out n sh ss) \<subseteq> set ss"
  by (auto simp: shard_out_def)

lemma shard_out_distinct: "distinct ss \<Longrightarrow> distinct (shard_out n sh ss)"
  by (simp add: shard_out_def)

lemma router_out_mem:
  assumes "router_holds r L"
  shows "s \<in> set (router_out draw r fs) \<longleftrightarrow>
    (\<exists>f \<in> set fs. \<exists>sh. setters_of f sh L \<noteq> [] \<and> s \<in> set (shard_out (draw f sh) sh (setters_of f sh L)))"
proof -
  have "set (mget_or [] r f) = (\<lambda>sh. (sh, setters_of f sh L)) ` {sh. setters_of f sh L \<noteq> []}" for f
    unfolding set_eq_iff using holds_entries(2)[OF assms refl, of _ _ f] by (auto simp: image_iff)
  then show ?thesis by (auto simp: router_out_def)
qed

lemma router_out_owner:
  assumes "router_holds r L" and "distinct (map (\<lambda>(f, sh, s). s) L)" and "(f, sh, s) \<in> set L"
  shows "s \<in> set (router_out draw r fs) \<longleftrightarrow> f \<in> set fs \<and> s \<in> set (shard_out (draw f sh) sh (setters_of f sh L))"
proof -
  have ne: "setters_of f sh L \<noteq> []" using assms(3) in_setters_of[of s f sh L] by auto
  have "f' = f \<and> sh' = sh" if "setters_of f' sh' L \<noteq> []" "s \<in> set (shard_out n sh' (setters_of f' sh' L))" for f' sh' n
    using that shard_out_sub setter_owner[OF assms(2,3)] in_setters_of by fast
  then show ?thesis unfolding router_out_mem[OF assms(1)] using ne by blast
qed

lemma router_out_distinct:
  assumes "router_holds r L" and d: "distinct (map (\<lambda>(f, sh, s). s) L)" and "distinct fs"
  shows "distinct (router_out draw r fs)"
  unfolding router_out_def
proof (rule distinct_concat_map[OF assms(3)])
  note e = holds_entries[OF assms(1) refl]
  let ?o = "\<lambda>f (sh, ss). shard_out (draw f sh) sh ss"
  have own: "(f, fst p, s) \<in> set L" if "p \<in> set (mget_or [] r f)" "s \<in> set (?o f p)" for f p s
  proof -
    obtain sh ss where p: "p = (sh, ss)" by (cases p)
    then have "ss = setters_of f sh L \<and> ss \<noteq> []" using that(1) e(2)[of sh ss f] by blast
    then show ?thesis using that(2) shard_out_sub[of ss] by (auto simp: p simp flip: in_setters_of)
  qed
  show "distinct (concat (map (?o f) (mget_or [] r f)))" for f
  proof (rule distinct_concat_map)
    show "distinct (mget_or [] r f)" using e(1) by (simp add: distinct_map)
    show "distinct (?o f p)" if "p \<in> set (mget_or [] r f)" for p
    proof -
      obtain sh ss where p: "p = (sh, ss)" by (cases p)
      then have "ss = setters_of f sh L" using that e(2)[of sh ss f] by blast
      then show ?thesis by (simp add: p shard_out_distinct setters_of_distinct[OF d])
    qed
    show "set (?o f p) \<inter> set (?o f q) = {}"
      if pq: "p \<in> set (mget_or [] r f)" "q \<in> set (mget_or [] r f)" "p \<noteq> q" for p q
    proof (rule ccontr)
      assume "set (?o f p) \<inter> set (?o f q) \<noteq> {}"
      then obtain s where "s \<in> set (?o f p)" "s \<in> set (?o f q)" by blast
      with own pq have "(f, fst p, s) \<in> set L" "(f, fst q, s) \<in> set L" by blast+
      then have "fst p = fst q" using setter_owner[OF d] by blast
      then show False using pq e(1) by (metis eq_key_imp_eq_value prod.collapse)
    qed
  qed
  show "set (concat (map (?o f) (mget_or [] r f))) \<inter> set (concat (map (?o g) (mget_or [] r g))) = {}" if "f \<noteq> g" for f g
  proof (rule ccontr)
    assume "set (concat (map (?o f) (mget_or [] r f))) \<inter> set (concat (map (?o g) (mget_or [] r g))) \<noteq> {}"
    then obtain s p q where "p \<in> set (mget_or [] r f)" "s \<in> set (?o f p)" "q \<in> set (mget_or [] r g)" "s \<in> set (?o g q)"
      by auto
    with own have "(f, fst p, s) \<in> set L" "(g, fst q, s) \<in> set L" by blast+
    then show False using setter_owner[OF d] that by blast
  qed
qed

lemma Router_SendTo_run:
  fixes draw pkg acts appID e marshal data
  assumes nested: "well_nested acts []" and app: "appID \<noteq> []" and data: "marshal e = Some data"
  defines "r \<equiv> dr_router (fold ds_step acts NewDopplerServer)"
  defines "outs \<equiv> router_out draw r (createTypedFilters pkg appID e)"
  shows "Router_SendTo pkg marshal draw appID e r = Some (map (\<lambda>s. (s, data)) outs)" and "distinct outs"
    and "(f, [], s) \<in> set (open_subscriptions acts []) \<Longrightarrow> s \<in> set outs \<longleftrightarrow> wants pkg f appID e"
proof -
  note run = ds_run_start[OF nested, folded r_def]
  have "\<forall>f \<in> set (createTypedFilters pkg appID e). \<forall>(sh, ss) \<in> set (mget_or [] r f). ss \<noteq> []"
    using holds_entries(2)[OF run(1) refl] by blast
  from write_filters_eq[OF this] show "Router_SendTo pkg marshal draw appID e r = Some (map (\<lambda>s. (s, data)) outs)"
    by (simp add: Router_SendTo_def data router_out_def outs_def)
  show "distinct outs"
    using router_out_distinct[OF run(1,2) typed_filters_distinct[OF app]] by (simp add: outs_def)
  show "s \<in> set outs \<longleftrightarrow> wants pkg f appID e" if "(f, [], s) \<in> set (open_subscriptions acts [])"
    using router_out_owner[OF run(1,2) that] that by (simp add: typed_filters_wants shard_out_def in_setters_of outs_def)
qed

section \<open>Properties\<close>

text \<open>
  C4: an envelope of an application goes to every open subscription without a shard that asks for
  it, to exactly one member of every shard that asks for it, to nobody else, and to nobody twice;
  no draw hits an empty shard. The subscription count is the number of open subscriptions.
\<close>

theorem router_delivers:
  fixes acts
  defines "d \<equiv> fold ds_step acts NewDopplerServer" and "L \<equiv> open_subscriptions acts []"
  assumes nested: "well_nested acts []" and app: "appID \<noteq> []" and data: "marshal e = Some data"
  shows "\<exists>outs. Router_SendTo pkg marshal draw appID e (dr_router d) = Some (map (\<lambda>s. (s, data)) outs) \<and>
    distinct outs \<and> set outs \<subseteq> (\<lambda>(f, sh, s). s) ` set L \<and>
    (\<forall>f s. (f, [], s) \<in> set L \<longrightarrow> (s \<in> set outs \<longleftrightarrow> wants pkg f appID e)) \<and>
    (\<forall>f sh. sh \<noteq> [] \<longrightarrow> setters_of f sh L \<noteq> [] \<longrightarrow>
       card (set outs \<inter> set (setters_of f sh L)) = (if wants pkg f appID e then 1 else 0)) \<and>
    dr_numSubscriptions d = int (length L)"
proof -
  note run = ds_run_start[OF nested, folded d_def L_def]
  let ?fs = "createTypedFilters pkg appID e" and ?r = "dr_router d"
  let ?outs = "router_out draw ?r ?fs"
  note own = router_out_owner[OF run(1,2)]
  note sends = Router_SendTo_run[where marshal = marshal and e = e and draw = draw and pkg = pkg, OF nested app data, folded d_def L_def]
  have "set ?outs \<subseteq> (\<lambda>(f, sh, s). s) ` set L"
  proof
    fix s assume "s \<in> set ?outs"
    then obtain f sh where "s \<in> set (setters_of f sh L)"
      unfolding router_out_mem[OF run(1)] using shard_out_sub by blast
    then show "s \<in> (\<lambda>(f, sh, s). s) ` set L" by (force simp: in_setters_of)
  qed
  moreover have "card (set ?outs \<inter> set (setters_of f sh L)) = (if wants pkg f appID e then 1 else 0)"
    if sh: "sh \<noteq> []" "setters_of f sh L \<noteq> []" for f sh
  proof -
    let ?x = "setters_of f sh L ! (draw f sh mod length (setters_of f sh L))"
    have "s \<in> set ?outs \<longleftrightarrow> wants pkg f appID e \<and> s = ?x" if "s \<in> set (setters_of f sh L)" for s
      using own[of f sh s] that sh by (simp add: typed_filters_wants shard_out_def in_setters_of)
    moreover have "?x \<in> set (setters_of f sh L)" using sh by simp
    ultimately have "set ?outs \<inter> set (setters_of f sh L) = (if wants pkg f appID e then {?x} else {})" by auto
    then show ?thesis by simp
  qed
  ultimately show ?thesis using run(3) sends by (intro exI[of _ ?outs]) blast
qed

theorem router_delivers_witness:
  "\<exists>outs. Router_SendTo small_pkg (\<lambda>_. Some ''x'') (\<lambda>_ _. 5) ''app'' small_message
      (dr_router (fold ds_step [DS_Subscribe small_request 1, DS_Subscribe small_request 2] NewDopplerServer)) =
      Some (map (\<lambda>s. (s, ''x'')) outs) \<and> card (set outs \<inter> {1, 2}) = 1"
proof -
  let ?acts = "[DS_Subscribe small_request 1, DS_Subscribe small_request 2]"
  have nested: "well_nested ?acts []" by (simp add: subscription_def)
  have two: "setters_of (convertFilter small_request) ''shard'' (open_subscriptions ?acts []) = [1, 2]"
    by (simp add: setters_of_def subscription_def small_request_def)
  have w: "wants small_pkg (convertFilter small_request) ''app'' small_message"
    by (simp add: wants_def convertFilter_def small_request_def)
  obtain outs where "Router_SendTo small_pkg (\<lambda>_. Some ''x'') (\<lambda>_ _. 5) ''app'' small_message
      (dr_router (fold ds_step ?acts NewDopplerServer)) = Some (map (\<lambda>s. (s, ''x'')) outs)"
    and each: "\<forall>f sh. sh \<noteq> [] \<longrightarrow> setters_of f sh (open_subscriptions ?acts []) \<noteq> [] \<longrightarrow>
      card (set outs \<inter> set (setters_of f sh (open_subscriptions ?acts []))) =
      (if wants small_pkg f ''app'' small_message then 1 else 0)"
    using router_delivers[OF nested, of "''app''" "\<lambda>_. Some ''x''" small_message "''x''" small_pkg "\<lambda>_ _. 5"] by auto
  moreover have "card (set outs \<inter> {1, 2}) = 1"
    using each[rule_format, of "''shard''" "convertFilter small_request"] unfolding two by (simp add: w)
  ultimately show ?thesis by blast
qed

text \<open>An envelope without an application id goes to a firehose subscription twice.\<close>

lemma no_app_delivers_twice:
  assumes "marshal e = Some data"
  shows "Router_SendTo pkg marshal draw [] e
      (dr_router (ds_step (DS_Subscribe \<lparr>sr_ShardID = [], sr_Filter = None\<rparr> 7) NewDopplerServer)) =
    Some [(7, data), (7, data)]"
  using assms
  by (auto simp: Router_SendTo_def createTypedFilters_def Subscribe_Begin_def registerSetter_def NewDopplerServer_def
      convertFilter_def mget_or_def writeToShard_def filterTypeFromEnvelope_def)

text \<open>The two ways into the version 2 server do the same work.\<close>

lemma BatchSender_Sender: "BatchSender pkg fi batches s = Sender pkg fi (concat batches) s"
  unfolding BatchSender_def Sender_def by (induction batches arbitrary: s) auto

lemma ingress_envelopes:
  "fold ingress_envelope vs g =
   (let new = filter (\<lambda>v. e1_EventType v \<noteq> None) vs
    in g\<lparr>ig_buffer := ig_buffer g @ new, ig_total := ig_total g + length new, ig_ingress := ig_ingress g + of_nat (length new)\<rparr>)"
  by (induction vs arbitrary: g) (auto simp: ingress_envelope_def Let_def)

end
