(* ===== verification/Grpc_Connector.thy ===== *)
theory Grpc_Connector
  imports Go_Prelude
begin

text \<open>
  How the traffic controller keeps its connections to the dopplers, package \<open>plumbing\<close>: the
  connector that follows the finder's events and counts the consumers of each doppler
  (\<open>grpc_connector.go\<close>), the pool of connections behind it (\<open>pool.go\<close>), the finder for a fixed list
  (\<open>static_finder.go\<close>) and the averager of envelope sizes (\<open>envelope_averager.go\<close>).

  A \<open>dopplerClientInfo\<close> is shared between the connector and the goroutines of its consumers, so
  the infos are a store and a client is an address into it. A goroutine of \<open>consumeSubscription\<close>
  begins and ends as a step of the machine, with \<open>consume_delays\<close> for its waits in between; what it
  reads is in \<open>Consumer_Streams\<close>.
\<close>

section \<open>The pool\<close>

text \<open>
  Each doppler has a slice with one slot per connection; \<open>None\<close> is a nil pointer, a connection
  not yet made. The goroutine that makes a connection keeps the slice it was started with, so the
  slices are a store.
\<close>

record pool =
  pl_dopplers :: "(string, nat) gomap"
  pl_slices :: "nat option list list"

definition NewPool :: pool where
  "NewPool = \<lparr>pl_dopplers = [], pl_slices = []\<rparr>"

definition RegisterDoppler :: "nat \<Rightarrow> string \<Rightarrow> pool \<Rightarrow> pool" where
  "RegisterDoppler psize addr p =
     \<lparr>pl_dopplers = mput addr (length (pl_slices p)) (pl_dopplers p),
      pl_slices = pl_slices p @ [replicate psize None]\<rparr>"

definition connectToDoppler :: "nat \<Rightarrow> nat \<Rightarrow> nat \<Rightarrow> pool \<Rightarrow> pool" where
  "connectToDoppler sl idx conn p =
     p\<lparr>pl_slices := (pl_slices p)[sl := (pl_slices p ! sl)[idx := Some conn]]\<rparr>"

definition clients_of :: "string \<Rightarrow> pool \<Rightarrow> nat option list" where
  "clients_of addr p = (case mget (pl_dopplers p) addr of None \<Rightarrow> [] | Some sl \<Rightarrow> pl_slices p ! sl)"

text \<open>The connections that are closed, and the pool without the doppler.\<close>

definition Pool_Close :: "string \<Rightarrow> pool \<Rightarrow> nat list \<times> pool" where
  "Pool_Close addr p = (List.map_filter id (clients_of addr p), p\<lparr>pl_dopplers := mdel addr (pl_dopplers p)\<rparr>)"

text \<open>\<open>None\<close> is the panic of an index out of range.\<close>

fun fetch_from :: "nat list \<Rightarrow> int \<Rightarrow> nat \<Rightarrow> nat option list \<Rightarrow> nat option option" where
  "fetch_from [] seed psize clients = Some None"
| "fetch_from (i # is) seed psize clients =
     (let idx = pool_index i seed psize
      in if idx < 0 \<or> int (length clients) \<le> idx then None
         else case clients ! nat idx of
                None \<Rightarrow> fetch_from is seed psize clients
              | Some client \<Rightarrow> Some (Some client))"

definition fetchClient :: "int \<Rightarrow> nat \<Rightarrow> nat option list \<Rightarrow> nat option option" where
  "fetchClient seed psize clients = fetch_from [0..<length clients] seed psize clients"

definition Pool_client :: "string \<Rightarrow> int \<Rightarrow> nat \<Rightarrow> string \<Rightarrow> pool \<Rightarrow> nat result option" where
  "Pool_client purpose seed psize addr p =
     map_option (\<lambda>c. case c of None \<Rightarrow> Inl (''no connections available for '' @ purpose) | Some client \<Rightarrow> Inr client)
       (fetchClient seed psize (clients_of addr p))"

definition Pool_Subscribe :: "int \<Rightarrow> nat \<Rightarrow> string \<Rightarrow> pool \<Rightarrow> nat result option" where
  "Pool_Subscribe = Pool_client ''subscription''"

definition Pool_ContainerMetrics :: "int \<Rightarrow> nat \<Rightarrow> string \<Rightarrow> pool \<Rightarrow> nat result option" where
  "Pool_ContainerMetrics = Pool_client ''container metrics''"

definition Pool_RecentLogs :: "int \<Rightarrow> nat \<Rightarrow> string \<Rightarrow> pool \<Rightarrow> nat result option" where
  "Pool_RecentLogs = Pool_client ''recent logs''"

section \<open>The connector\<close>

record doppler_client =
  dc_uri :: string
  dc_disconnect :: bool
  dc_refCount :: int

record connector =
  cn_store :: "doppler_client list"
  cn_clients :: "nat list"
  cn_pool :: pool
  cn_seen :: "(nat \<times> string) list"
  cn_active :: "(nat \<times> nat) list"

definition NewGRPCConnector :: connector where
  "NewGRPCConnector = \<lparr>cn_store = [], cn_clients = [], cn_pool = NewPool, cn_seen = [], cn_active = []\<rparr>"

fun subtractClient ::
    "doppler_client list \<Rightarrow> nat list \<Rightarrow> string \<Rightarrow> nat list \<times> doppler_client list \<times> bool" where
  "subtractClient st [] uri = ([], st, False)"
| "subtractClient st (a # as) uri =
     (if uri = dc_uri (st ! a) then (as, st[a := (st ! a)\<lparr>dc_disconnect := False\<rparr>], True)
      else let (r, st', contained) = subtractClient st as uri in (a # r, st', contained))"

fun delta_loop ::
    "string list \<Rightarrow> string list \<times> nat list \<times> doppler_client list \<Rightarrow> string list \<times> nat list \<times> doppler_client list" where
  "delta_loop [] s = s"
| "delta_loop (newURI # uris) (add, dead, st) =
     (let (dead', st', contained) = subtractClient st dead newURI
      in delta_loop uris (if contained then add else add @ [newURI], dead', st'))"

definition connector_delta :: "string list \<Rightarrow> connector \<Rightarrow> string list \<times> nat list \<times> doppler_client list" where
  "connector_delta uris c = delta_loop uris ([], cn_clients c, cn_store c)"

definition connector_close :: "nat \<Rightarrow> connector \<Rightarrow> connector" where
  "connector_close a c =
     c\<lparr>cn_pool := snd (Pool_Close (dc_uri (cn_store c ! a)) (cn_pool c)), cn_clients := remove1 a (cn_clients c)\<rparr>"

definition add_client :: "nat \<Rightarrow> string \<Rightarrow> connector \<Rightarrow> connector" where
  "add_client psize addr c =
     c\<lparr>cn_pool := RegisterDoppler psize addr (cn_pool c),
       cn_store := cn_store c @ [\<lparr>dc_uri = addr, dc_disconnect = False, dc_refCount = 0\<rparr>],
       cn_clients := cn_clients c @ [length (cn_store c)]\<rparr>"

definition kill_client :: "nat \<Rightarrow> connector \<Rightarrow> connector" where
  "kill_client a c =
     (let c1 = c\<lparr>cn_store := (cn_store c)[a := (cn_store c ! a)\<lparr>dc_disconnect := True\<rparr>]\<rparr>
      in if dc_refCount (cn_store c1 ! a) = 0 then connector_close a c1 else c1)"

definition handleFinderEvent :: "nat \<Rightarrow> string list \<Rightarrow> connector \<Rightarrow> connector" where
  "handleFinderEvent psize uris c =
     (let (newURIs, deadClients, st) = connector_delta uris c
      in fold kill_client deadClients (fold (add_client psize) newURIs (c\<lparr>cn_store := st\<rparr>)))"

definition tryAddDoppler :: "nat \<Rightarrow> string \<Rightarrow> (nat \<times> string) list \<Rightarrow> bool \<times> (nat \<times> string) list" where
  "tryAddDoppler cs doppler seen = (if (cs, doppler) \<in> set seen then (False, seen) else (True, (cs, doppler) # seen))"

definition forgetDoppler :: "nat \<Rightarrow> string \<Rightarrow> (nat \<times> string) list \<Rightarrow> (nat \<times> string) list" where
  "forgetDoppler cs doppler seen = filter (\<lambda>x. x \<noteq> (cs, doppler)) seen"

definition consume_begin :: "nat \<Rightarrow> nat \<Rightarrow> connector \<Rightarrow> connector" where
  "consume_begin cs a c =
     (let (ok, seen) = tryAddDoppler cs (dc_uri (cn_store c ! a)) (cn_seen c)
      in if \<not> ok then c
         else c\<lparr>cn_seen := seen, cn_active := (cs, a) # cn_active c,
                cn_store := (cn_store c)[a := (cn_store c ! a)\<lparr>dc_refCount := dc_refCount (cn_store c ! a) + 1\<rparr>]\<rparr>)"

definition consume_end :: "nat \<Rightarrow> nat \<Rightarrow> connector \<Rightarrow> connector" where
  "consume_end cs a c =
     (let c1 = c\<lparr>cn_active := remove1 (cs, a) (cn_active c),
                 cn_store := (cn_store c)[a := (cn_store c ! a)\<lparr>dc_refCount := dc_refCount (cn_store c ! a) - 1\<rparr>]\<rparr>;
          c2 = (if dc_refCount (cn_store c1 ! a) \<le> 0 \<and> dc_disconnect (cn_store c1 ! a) then connector_close a c1 else c1)
      in c2\<lparr>cn_seen := forgetDoppler cs (dc_uri (cn_store c2 ! a)) (cn_seen c2)\<rparr>)"

datatype cn_action = CN_Event "string list" | CN_Begin nat nat | CN_End nat nat

text \<open>Only a goroutine that began can end.\<close>

fun cn_step :: "nat \<Rightarrow> cn_action \<Rightarrow> connector \<Rightarrow> connector" where
  "cn_step psize (CN_Event uris) c = handleFinderEvent psize uris c"
| "cn_step psize (CN_Begin cs a) c = (if a < length (cn_store c) then consume_begin cs a c else c)"
| "cn_step psize (CN_End cs a) c = (if (cs, a) \<in> set (cn_active c) then consume_end cs a c else c)"

text \<open>The wait after each failed attempt of \<open>consumeSubscription\<close>, in milliseconds.\<close>

fun consume_delays :: "int \<Rightarrow> bool list \<Rightarrow> int list" where
  "consume_delays delay [] = []"
| "consume_delays delay (ok # rest) =
     (if ok then consume_delays 1 rest
      else delay # consume_delays (if delay < 60000 then delay * 10 else delay) rest)"

text \<open>
  The slots of the consumers: \<open>Some dead\<close> is a consumer that is dead or not. The result is
  the slot, or an error when every slot holds a live one.
\<close>

fun addConsumerState :: "bool option list \<Rightarrow> nat result \<times> bool option list" where
  "addConsumerState [] = (Inl ''at connection limit: 2000'', [])"
| "addConsumerState (s # ss) =
     (if s = None \<or> s = Some True then (Inr 0, Some False # ss)
      else let (r, ss') = addConsumerState ss in (map_sum id Suc r, s # ss'))"

text \<open>
  \<open>RecentLogs\<close> and \<open>ContainerMetrics\<close>: one answer per client, appended in the order in which
  the answers arrive; a failed call answers nil and counts if the deadline has passed.
\<close>

definition query_all ::
    "(string \<Rightarrow> string list option) \<Rightarrow> bool \<Rightarrow> nat list \<Rightarrow> connector \<Rightarrow> string list \<times> nat" where
  "query_all ask deadline arrival c =
     (concat (map (\<lambda>a. case ask (dc_uri (cn_store c ! a)) of None \<Rightarrow> [] | Some payload \<Rightarrow> payload) arrival),
      if deadline then length (filter (\<lambda>a. ask (dc_uri (cn_store c ! a)) = None) (cn_clients c)) else 0)"

section \<open>A fixed list of dopplers\<close>

definition NewStaticFinder :: "string list \<Rightarrow> string list list" where
  "NewStaticFinder addrs = [addrs]"

definition StaticFinder_Stop :: "string list list \<Rightarrow> string list list option" where
  "StaticFinder_Stop q = try_send 10 [] q"

section \<open>The averager\<close>

unbundle bit_operations_syntax

definition averager_decode :: "uint64 \<Rightarrow> uint16 \<times> uint64" where
  "averager_decode u = (ucast (drop_bit 48 (u AND 0xFFFF000000000000)), u AND 0x0000FFFFFFFFFFFF)"

definition encodeDelta :: "uint16 \<Rightarrow> uint64 \<Rightarrow> uint64 \<Rightarrow> uint64" where
  "encodeDelta count0 total0 u =
     (let (currentCount, currentTotal) = averager_decode u;
          count1 = count0 + currentCount; total1 = total0 + currentTotal
      in push_bit 48 (ucast count1) + (total1 AND 0x0000FFFFFFFFFFFF))"

definition averager_Track :: "int \<Rightarrow> int \<Rightarrow> uint64 \<Rightarrow> uint64" where
  "averager_Track count0 sz u = encodeDelta (of_int count0) (of_int sz) u"

text \<open>
  One tick of \<open>Start\<close>: the state of the loop and the storage give the reported average, as
  numerator and denominator, and the next state.
\<close>

definition averager_tick :: "uint64 \<Rightarrow> uint16 \<times> uint64 \<Rightarrow> (uint64 \<times> uint16) \<times> uint16 \<times> uint64" where
  "averager_tick current prev =
     (let (cnt, tot) = averager_decode current;
          deltaCount = cnt - fst prev; deltaTotal = tot - snd prev
      in (if deltaCount = 0 then (0, 1) else (deltaTotal, deltaCount), cnt, tot))"

definition track_all :: "(nat \<times> nat) list \<Rightarrow> uint64 \<Rightarrow> uint64" where
  "track_all ts u = fold (\<lambda>(n, sz). averager_Track (int n) (int sz)) ts u"

section \<open>Specifications\<close>

definition client_uri :: "connector \<Rightarrow> nat \<Rightarrow> string" where
  "client_uri c a = dc_uri (cn_store c ! a)"

text \<open>The dopplers that new consumers are told to connect to.\<close>

definition connected_uris :: "connector \<Rightarrow> string set" where
  "connected_uris c = client_uri c ` {a \<in> set (cn_clients c). \<not> dc_disconnect (cn_store c ! a)}"

definition cn_ok :: "connector \<Rightarrow> bool" where
  "cn_ok c \<longleftrightarrow>
     distinct (map (client_uri c) (cn_clients c)) \<and>
     (\<forall>a \<in> set (cn_clients c). a < length (cn_store c) \<and>
        dc_refCount (cn_store c ! a) = int (count_list (map snd (cn_active c)) a) \<and>
        (dc_disconnect (cn_store c ! a) \<longrightarrow> dc_refCount (cn_store c ! a) > 0)) \<and>
     snd ` set (cn_active c) \<subseteq> set (cn_clients c) \<and>
     wf_map (pl_dopplers (cn_pool c)) \<and> fst ` set (pl_dopplers (cn_pool c)) = client_uri c ` set (cn_clients c)"

text \<open>
  The finder lists no doppler twice, and a goroutine begins while its client is still known.
\<close>

fun prompt :: "nat \<Rightarrow> cn_action list \<Rightarrow> connector \<Rightarrow> bool" where
  "prompt psize [] c \<longleftrightarrow> True"
| "prompt psize (CN_Event uris # as) c \<longleftrightarrow> distinct uris \<and> prompt psize as (cn_step psize (CN_Event uris) c)"
| "prompt psize (CN_Begin cs a # as) c \<longleftrightarrow> a \<in> set (cn_clients c) \<and> prompt psize as (cn_step psize (CN_Begin cs a) c)"
| "prompt psize (CN_End cs a # as) c \<longleftrightarrow> prompt psize as (cn_step psize (CN_End cs a) c)"

fun last_event :: "cn_action list \<Rightarrow> string list \<Rightarrow> string list" where
  "last_event [] uris = uris"
| "last_event (CN_Event uris' # as) uris = last_event as uris'"
| "last_event (a # as) uris = last_event as uris"

text \<open>The store in which the clients whose uri is in a set are told not to disconnect.\<close>

definition revive :: "(string \<Rightarrow> bool) \<Rightarrow> nat set \<Rightarrow> doppler_client list \<Rightarrow> doppler_client list" where
  "revive P A st = map (\<lambda>a. if a \<in> A \<and> P (dc_uri (st ! a)) then (st ! a)\<lparr>dc_disconnect := False\<rparr> else st ! a) [0..<length st]"

section \<open>The pool tries every connection\<close>

lemma fetch_from_eq:
  assumes "0 \<le> seed" and "seed + int psize < 2 ^ 63" and "length clients = psize" and "set is \<subseteq> {..<psize}"
  shows "fetch_from is seed psize clients =
    Some (case dropWhile (\<lambda>j. clients ! j = None) (map (\<lambda>i. (i + nat seed) mod psize) is) of [] \<Rightarrow> None | j # _ \<Rightarrow> clients ! j)"
  using assms(4)
proof (induction "is")
  case (Cons i "is")
  then have i: "i < psize" by simp
  define j where "j = (i + nat seed) mod psize"
  have "pool_index i seed psize = int j"
    unfolding j_def using assms i by (intro pool_index_rotation) auto
  moreover have "j < length clients" using i assms(3) by (simp add: j_def)
  ultimately show ?case using Cons by (auto simp: Let_def simp flip: j_def split: option.split)
qed simp

section \<open>Properties\<close>

text \<open>
  With a draw that leaves room for the loop counter, a call through the pool panics nowhere
  and finds a connection to the doppler whenever there is one, whatever the draw: the loop looks
  into every slot.
\<close>

theorem pool_finds_connection:
  assumes "0 \<le> seed" and "seed + int psize < 2 ^ 63" and "clients_of addr p \<noteq> [] \<longrightarrow> length (clients_of addr p) = psize"
  shows "\<exists>r. Pool_Subscribe seed psize addr p = Some r \<and>
    (case r of Inr client \<Rightarrow> Some client \<in> set (clients_of addr p)
     | Inl err \<Rightarrow> set (clients_of addr p) \<subseteq> {None})"
proof (cases "clients_of addr p = []")
  case True
  then show ?thesis by (simp add: Pool_Subscribe_def Pool_client_def fetchClient_def)
next
  case False
  let ?cs = "clients_of addr p" and ?js = "rotation psize (nat seed)"
  have len: "length ?cs = psize" using assms(3) False by simp
  have "fetchClient seed psize ?cs = Some (case dropWhile (\<lambda>j. ?cs ! j = None) ?js of [] \<Rightarrow> None | j # _ \<Rightarrow> ?cs ! j)"
    unfolding fetchClient_def rotation_def using fetch_from_eq[OF assms(1,2) len, of "[0..<psize]"] len by (simp add: atLeast0LessThan)
  moreover have "set ?cs \<subseteq> {None}" if "dropWhile (\<lambda>j. ?cs ! j = None) ?js = []"
    using that len by (auto simp: dropWhile_eq_Nil_conv set_rotation in_set_conv_nth)
  moreover have "\<exists>client. ?cs ! j = Some client \<and> Some client \<in> set ?cs" if "dropWhile (\<lambda>j. ?cs ! j = None) ?js = j # js" for j js
  proof -
    have "j \<in> set ?js" using that set_dropWhileD[of j] by (metis list.set_intros(1))
    then have "j < length ?cs" using len rotation_bound by blast
    moreover have "?cs ! j \<noteq> None" using that by (simp add: dropWhile_eq_Cons_conv)
    ultimately show ?thesis by (metis nth_mem option.exhaust)
  qed
  ultimately show ?thesis
    by (cases "dropWhile (\<lambda>j. ?cs ! j = None) ?js") (auto simp: Pool_Subscribe_def Pool_client_def)
qed

theorem pool_finds_connection_witness:
  "Pool_Subscribe 41 3 ''d'' (connectToDoppler 0 1 77 (RegisterDoppler 3 ''d'' NewPool)) = Some (Inr 77)"
proof -
  let ?p = "connectToDoppler 0 1 77 (RegisterDoppler 3 ''d'' NewPool)"
  have cs: "clients_of ''d'' ?p = [None, Some 77, None]" by code_simp
  obtain r where r: "Pool_Subscribe 41 3 ''d'' ?p = Some r"
    "case r of Inr client \<Rightarrow> Some client \<in> set (clients_of ''d'' ?p) | Inl err \<Rightarrow> set (clients_of ''d'' ?p) \<subseteq> {None}"
    using pool_finds_connection[of 41 3 "''d''" ?p] unfolding cs by auto
  then show ?thesis unfolding cs by (cases r) auto
qed

section \<open>The connector follows the finder\<close>

lemma subtractClient_notin:
  "uri \<notin> (\<lambda>a. dc_uri (st ! a)) ` set as \<Longrightarrow> subtractClient st as uri = (as, st, False)"
  by (induction as) auto

lemma subtractClient_in:
  assumes "distinct (map (\<lambda>a. dc_uri (st ! a)) as)" and "a \<in> set as" and "dc_uri (st ! a) = uri"
  shows "subtractClient st as uri = (filter (\<lambda>b. dc_uri (st ! b) \<noteq> uri) as, st[a := (st ! a)\<lparr>dc_disconnect := False\<rparr>], True)"
  using assms
proof (induction as)
  case (Cons b as)
  show ?case
  proof (cases "dc_uri (st ! b) = uri")
    case True
    with Cons.prems have "a = b" by (auto simp: image_iff)
    moreover have "\<forall>x \<in> set as. dc_uri (st ! x) \<noteq> uri" using True Cons.prems(1) by (auto simp: image_iff)
    then have "filter (\<lambda>b. dc_uri (st ! b) \<noteq> uri) as = as" by (simp add: filter_id_conv)
    ultimately show ?thesis using True by simp
  next
    case False
    with Cons show ?thesis by auto
  qed
qed simp

lemma revive_simps [simp]:
  "length (revive P A st) = length st"
  "a < length st \<Longrightarrow> dc_uri (revive P A st ! a) = dc_uri (st ! a)"
  "a < length st \<Longrightarrow> dc_refCount (revive P A st ! a) = dc_refCount (st ! a)"
  "a < length st \<Longrightarrow> dc_disconnect (revive P A st ! a) \<longleftrightarrow> dc_disconnect (st ! a) \<and> \<not> (a \<in> A \<and> P (dc_uri (st ! a)))"
  by (auto simp: revive_def)

lemma delta_loop_eq:
  assumes "distinct uris" and "distinct (map (\<lambda>a. dc_uri (st ! a)) as)" and "set as \<subseteq> {..<length st}"
  shows "delta_loop uris (add, as, st) =
    (add @ filter (\<lambda>u. u \<notin> (\<lambda>a. dc_uri (st ! a)) ` set as) uris,
     filter (\<lambda>a. dc_uri (st ! a) \<notin> set uris) as,
     revive (\<lambda>u. u \<in> set uris) (set as) st)"
  using assms
proof (induction uris arbitrary: add as st)
  case Nil
  then show ?case by (simp add: revive_def map_nth)
next
  case (Cons u uris)
  show ?case
  proof (cases "u \<in> (\<lambda>a. dc_uri (st ! a)) ` set as")
    case False
    then have "filter (\<lambda>a. dc_uri (st ! a) \<notin> set uris) as = filter (\<lambda>a. dc_uri (st ! a) \<notin> set (u # uris)) as"
      by (intro filter_cong) auto
    moreover have "revive (\<lambda>v. v \<in> set uris) (set as) st = revive (\<lambda>v. v \<in> set (u # uris)) (set as) st"
      using False by (auto simp: revive_def)
    ultimately show ?thesis
      using False Cons by (simp add: subtractClient_notin)
  next
    case True
    then obtain a where a: "a \<in> set as" "dc_uri (st ! a) = u" by auto
    let ?as = "filter (\<lambda>b. dc_uri (st ! b) \<noteq> u) as" and ?st = "st[a := (st ! a)\<lparr>dc_disconnect := False\<rparr>]"
    have al: "a < length st" using a Cons.prems(3) by auto
    have uri: "dc_uri (?st ! b) = dc_uri (st ! b)" for b by (cases "b = a") (use al in auto)
    have unique: "b \<in> set as \<Longrightarrow> dc_uri (st ! b) = u \<Longrightarrow> b = a" for b
      using a Cons.prems(2) by (auto simp: distinct_map inj_on_def)
    have "delta_loop (u # uris) (add, as, st) = delta_loop uris (add, ?as, ?st)"
      using subtractClient_in[OF Cons.prems(2) a] by simp
    also have "\<dots> = (add @ filter (\<lambda>v. v \<notin> (\<lambda>b. dc_uri (?st ! b)) ` set ?as) uris,
        filter (\<lambda>b. dc_uri (?st ! b) \<notin> set uris) ?as, revive (\<lambda>v. v \<in> set uris) (set ?as) ?st)"
      by (rule Cons.IH) (use Cons.prems in \<open>auto simp: uri distinct_map_filter\<close>)
    also have "filter (\<lambda>v. v \<notin> (\<lambda>b. dc_uri (?st ! b)) ` set ?as) uris =
        filter (\<lambda>v. v \<notin> (\<lambda>b. dc_uri (st ! b)) ` set as) (u # uris)"
      using True Cons.prems(1) by (auto simp: uri image_iff intro!: filter_cong)
    also have "filter (\<lambda>b. dc_uri (?st ! b) \<notin> set uris) ?as = filter (\<lambda>b. dc_uri (st ! b) \<notin> set (u # uris)) as"
      by (auto simp: uri intro!: filter_cong)
    also have "revive (\<lambda>v. v \<in> set uris) (set ?as) ?st = revive (\<lambda>v. v \<in> set (u # uris)) (set as) st"
    proof (rule nth_equalityI)
      fix i assume "i < length (revive (\<lambda>v. v \<in> set uris) (set ?as) ?st)"
      then have i: "i < length st" by simp
      show "revive (\<lambda>v. v \<in> set uris) (set ?as) ?st ! i = revive (\<lambda>v. v \<in> set (u # uris)) (set as) st ! i"
      proof (cases "i = a")
        case True
        then show ?thesis using a al by (simp add: revive_def)
      next
        case False
        then have "\<not> (i \<in> set as \<and> dc_uri (st ! i) = u)" using unique by blast
        with False show ?thesis using i by (auto simp: revive_def)
      qed
    qed simp
    finally show ?thesis .
  qed
qed

lemma cn_okD:
  assumes "cn_ok c"
  shows "distinct (cn_clients c)" and "distinct (map (client_uri c) (cn_clients c))"
    and "a \<in> set (cn_clients c) \<Longrightarrow> a < length (cn_store c)"
    and "a \<in> set (cn_clients c) \<Longrightarrow> dc_refCount (cn_store c ! a) = int (count_list (map snd (cn_active c)) a)"
    and "a \<in> set (cn_clients c) \<Longrightarrow> dc_disconnect (cn_store c ! a) \<Longrightarrow> dc_refCount (cn_store c ! a) > 0"
    and "(cs, a) \<in> set (cn_active c) \<Longrightarrow> a \<in> set (cn_clients c)"
    and "wf_map (pl_dopplers (cn_pool c))"
    and "fst ` set (pl_dopplers (cn_pool c)) = client_uri c ` set (cn_clients c)"
  using assms by (auto simp: cn_ok_def distinct_map)

lemma client_inj:
  "cn_ok c \<Longrightarrow> a \<in> set (cn_clients c) \<Longrightarrow> b \<in> set (cn_clients c) \<Longrightarrow> client_uri c a = client_uri c b \<Longrightarrow> a = b"
  using cn_okD(2) by (auto simp: distinct_map inj_on_def)

lemma add_client_ok:
  assumes ok: "cn_ok c" and new: "addr \<notin> client_uri c ` set (cn_clients c)"
  shows "cn_ok (add_client psize addr c)"
    and "connected_uris (add_client psize addr c) = insert addr (connected_uris c)"
    and "client_uri (add_client psize addr c) ` set (cn_clients (add_client psize addr c)) =
      insert addr (client_uri c ` set (cn_clients c))"
    and "set (cn_clients c) \<subseteq> set (cn_clients (add_client psize addr c))"
    and "\<And>a. a < length (cn_store c) \<Longrightarrow> client_uri (add_client psize addr c) a = client_uri c a"
    and "length (cn_store c) \<le> length (cn_store (add_client psize addr c))"
proof -
  let ?c = "add_client psize addr c"
  note d = cn_okD[OF ok]
  have old: "cn_store ?c ! a = cn_store c ! a" if "a \<in> set (cn_clients c)" for a
    using d(3)[OF that] by (simp add: add_client_def nth_append)
  then have uri: "client_uri ?c a = client_uri c a" if "a \<in> set (cn_clients c)" for a
    using that by (simp add: client_uri_def)
  have here: "cn_store ?c ! length (cn_store c) = \<lparr>dc_uri = addr, dc_disconnect = False, dc_refCount = 0\<rparr>"
    by (simp add: add_client_def)
  have cl: "cn_clients ?c = cn_clients c @ [length (cn_store c)]" and act: "cn_active ?c = cn_active c"
    by (simp_all add: add_client_def)
  have fresh: "length (cn_store c) \<notin> set (cn_clients c)" using d(3) by blast
  have none: "count_list (map snd (cn_active c)) (length (cn_store c)) = 0"
    using d(6) fresh by (force simp: count_list_0_iff)
  have "map (client_uri ?c) (cn_clients ?c) = map (client_uri c) (cn_clients c) @ [addr]"
    using uri here by (simp add: cl client_uri_def)
  then have dm: "distinct (map (client_uri ?c) (cn_clients ?c))" using d(2) new by simp
  have each: "a < length (cn_store ?c) \<and>
        dc_refCount (cn_store ?c ! a) = int (count_list (map snd (cn_active ?c)) a) \<and>
        (dc_disconnect (cn_store ?c ! a) \<longrightarrow> dc_refCount (cn_store ?c ! a) > 0)" if "a \<in> set (cn_clients ?c)" for a
  proof (cases "a = length (cn_store c)")
    case True
    then show ?thesis using here none by (simp add: act) (simp add: add_client_def)
  next
    case False
    then have "a \<in> set (cn_clients c)" using that by (simp add: cl)
    then show ?thesis using old[of a] d(3,4,5)[of a] by (auto simp: act) (simp add: add_client_def)
  qed
  have sub: "snd ` set (cn_active ?c) \<subseteq> set (cn_clients ?c)" using d(6) by (auto simp: act cl)
  show im: "client_uri ?c ` set (cn_clients ?c) = insert addr (client_uri c ` set (cn_clients c))"
    using uri here by (auto simp: cl client_uri_def)
  have "wf_map (pl_dopplers (cn_pool ?c))" "fst ` set (pl_dopplers (cn_pool ?c)) = insert addr (client_uri c ` set (cn_clients c))"
    using d(7,8) by (simp_all add: add_client_def RegisterDoppler_def keys_mput)
  then show "cn_ok ?c" unfolding cn_ok_def im using dm each sub by blast
  show "connected_uris ?c = insert addr (connected_uris c)"
  proof -
    have "{a \<in> set (cn_clients ?c). \<not> dc_disconnect (cn_store ?c ! a)} =
        insert (length (cn_store c)) {a \<in> set (cn_clients c). \<not> dc_disconnect (cn_store c ! a)}"
      using here old by (auto simp: cl)
    then show ?thesis unfolding connected_uris_def using uri here by (auto simp: client_uri_def)
  qed
  show "set (cn_clients c) \<subseteq> set (cn_clients ?c)" by (auto simp: cl)
  show "client_uri ?c a = client_uri c a" if "a < length (cn_store c)" for a
    using that by (simp add: client_uri_def add_client_def nth_append)
  show "length (cn_store c) \<le> length (cn_store ?c)" by (simp add: add_client_def)
qed

lemma close_ok:
  assumes ok: "distinct (map (client_uri c) (cn_clients c))"
    and each: "\<forall>b \<in> set (cn_clients c) - {a}. b < length (cn_store c) \<and>
        dc_refCount (cn_store c ! b) = int (count_list (map snd (cn_active c)) b) \<and>
        (dc_disconnect (cn_store c ! b) \<longrightarrow> dc_refCount (cn_store c ! b) > 0)"
    and act: "snd ` set (cn_active c) \<subseteq> set (cn_clients c) - {a}"
    and pool: "wf_map (pl_dopplers (cn_pool c))" "fst ` set (pl_dopplers (cn_pool c)) = client_uri c ` set (cn_clients c)"
    and a: "a \<in> set (cn_clients c)"
  shows "cn_ok (connector_close a c)"
proof -
  let ?c = "connector_close a c"
  have cl: "set (cn_clients ?c) = set (cn_clients c) - {a}" "cn_clients ?c = remove1 a (cn_clients c)"
    using ok by (auto simp: connector_close_def distinct_map)
  have uri: "client_uri ?c b = client_uri c b" for b by (simp add: client_uri_def connector_close_def)
  have uri': "client_uri ?c = client_uri c" using uri by auto
  have "distinct (map (client_uri ?c) (cn_clients ?c))"
    using ok by (auto simp: distinct_map uri' cl(2) inj_on_def)
  moreover have "client_uri c ` set (cn_clients c) - {client_uri c a} = client_uri c ` (set (cn_clients c) - {a})"
    using ok a by (auto simp: distinct_map inj_on_def)
  moreover have "wf_map (pl_dopplers (cn_pool ?c))"
    "fst ` set (pl_dopplers (cn_pool ?c)) = client_uri c ` set (cn_clients c) - {client_uri c a}"
    using pool by (simp_all add: connector_close_def Pool_Close_def keys_mdel client_uri_def)
  moreover have "cn_store ?c = cn_store c" "cn_active ?c = cn_active c" by (simp_all add: connector_close_def)
  ultimately show ?thesis
    unfolding cn_ok_def cl(1) uri' using each act by auto
qed

lemma kill_client_ok:
  assumes ok: "cn_ok c" and a: "a \<in> set (cn_clients c)"
  shows "cn_ok (kill_client a c)"
    and "connected_uris (kill_client a c) = connected_uris c - {client_uri c a}"
    and "set (cn_clients c) - {a} \<subseteq> set (cn_clients (kill_client a c))"
    and "client_uri (kill_client a c) = client_uri c"
proof -
  note d = cn_okD[OF ok]
  let ?c1 = "c\<lparr>cn_store := (cn_store c)[a := (cn_store c ! a)\<lparr>dc_disconnect := True\<rparr>]\<rparr>"
  have al: "a < length (cn_store c)" using d(3)[OF a] .
  have uri1: "client_uri ?c1 b = client_uri c b" for b
    using al by (cases "b = a") (auto simp: client_uri_def)
  then have uri1': "client_uri ?c1 = client_uri c" by auto
  have k: "kill_client a c = (if dc_refCount (cn_store c ! a) = 0 then connector_close a ?c1 else ?c1)"
    using al by (simp add: kill_client_def Let_def)
  show "client_uri (kill_client a c) = client_uri c"
    using uri1' by (auto simp: k connector_close_def client_uri_def fun_eq_iff)
  show "set (cn_clients c) - {a} \<subseteq> set (cn_clients (kill_client a c))"
    using d(1) by (auto simp: k connector_close_def)
  show "connected_uris (kill_client a c) = connected_uris c - {client_uri c a}"
  proof -
    have "connected_uris ?c1 = connected_uris c - {client_uri c a}"
      unfolding connected_uris_def uri1' using client_inj[OF ok a] al by (auto simp: nth_list_update)
    moreover have "connected_uris (connector_close a ?c1) = connected_uris ?c1"
    proof -
      have "{b \<in> set (remove1 a (cn_clients c)). \<not> dc_disconnect (cn_store ?c1 ! b)} =
          {b \<in> set (cn_clients c). \<not> dc_disconnect (cn_store ?c1 ! b)}"
        using d(1) al by auto
      moreover have "client_uri (connector_close a ?c1) = client_uri ?c1"
        by (simp add: fun_eq_iff client_uri_def connector_close_def)
      ultimately show ?thesis by (simp add: connected_uris_def connector_close_def)
    qed
    ultimately show ?thesis by (simp add: k)
  qed
  show "cn_ok (kill_client a c)"
  proof (cases "dc_refCount (cn_store c ! a) = 0")
    case False
    then have "dc_refCount (cn_store c ! a) > 0" using d(4)[OF a] by simp
    then have "cn_ok ?c1"
      unfolding cn_ok_def uri1' using ok[unfolded cn_ok_def] al by (auto simp: nth_list_update)
    then show ?thesis using False by (simp add: k)
  next
    case True
    have none: "count_list (map snd (cn_active c)) a = 0" using d(4)[OF a] True by simp
    have "cn_ok (connector_close a ?c1)"
    proof (rule close_ok)
      show "snd ` set (cn_active ?c1) \<subseteq> set (cn_clients ?c1) - {a}"
        using d(6) none by (force simp: count_list_0_iff)
    qed (use d a al uri1' in \<open>auto simp: nth_list_update\<close>)
    then show ?thesis using True by (simp add: k)
  qed
qed

lemma revive_ok:
  fixes c P
  defines "c1 \<equiv> c\<lparr>cn_store := revive P (set (cn_clients c)) (cn_store c)\<rparr>"
  assumes ok: "cn_ok c"
  shows "cn_ok c1" and "a \<in> set (cn_clients c) \<Longrightarrow> client_uri c1 a = client_uri c a"
    and "connected_uris c1 = client_uri c ` {a \<in> set (cn_clients c). \<not> dc_disconnect (cn_store c ! a) \<or> P (client_uri c a)}"
proof -
  note d = cn_okD[OF ok]
  have uri: "client_uri c1 a = client_uri c a" if "a \<in> set (cn_clients c)" for a
    using d(3)[OF that] by (simp add: client_uri_def c1_def)
  then show "a \<in> set (cn_clients c) \<Longrightarrow> client_uri c1 a = client_uri c a" .
  have eq: "map (client_uri c1) (cn_clients c1) = map (client_uri c) (cn_clients c)"
    "client_uri c1 ` set (cn_clients c1) = client_uri c ` set (cn_clients c)"
    using uri by (auto simp: c1_def)
  show "cn_ok c1" unfolding cn_ok_def eq using d by (auto simp: c1_def)
  have "{a \<in> set (cn_clients c1). \<not> dc_disconnect (cn_store c1 ! a)} =
      {a \<in> set (cn_clients c). \<not> dc_disconnect (cn_store c ! a) \<or> P (client_uri c a)}"
    using d(3) by (auto simp: c1_def client_uri_def)
  then show "connected_uris c1 = client_uri c ` {a \<in> set (cn_clients c). \<not> dc_disconnect (cn_store c ! a) \<or> P (client_uri c a)}"
    unfolding connected_uris_def using uri by (auto intro!: image_cong)
qed

lemma add_clients_ok:
  assumes "cn_ok c" and "distinct adds" and "set adds \<inter> client_uri c ` set (cn_clients c) = {}"
  shows "cn_ok (fold (add_client psize) adds c) \<and>
    connected_uris (fold (add_client psize) adds c) = connected_uris c \<union> set adds \<and>
    set (cn_clients c) \<subseteq> set (cn_clients (fold (add_client psize) adds c)) \<and>
    (\<forall>a < length (cn_store c). client_uri (fold (add_client psize) adds c) a = client_uri c a)"
  using assms
proof (induction adds arbitrary: c)
  case (Cons u adds)
  then have new: "u \<notin> client_uri c ` set (cn_clients c)" by auto
  note s = add_client_ok[where psize = psize, OF Cons.prems(1) new]
  have "set adds \<inter> client_uri (add_client psize u c) ` set (cn_clients (add_client psize u c)) = {}"
    using Cons.prems(2,3) by (auto simp: s(3))
  note IH = Cons.IH[OF s(1) _ this]
  have "\<forall>a < length (cn_store c). a < length (cn_store (add_client psize u c))" using s(6) by auto
  then show ?case
    using IH Cons.prems(2) s(2,4,5) by (simp add: subset_trans[OF s(4)])
qed simp

lemma kill_clients_ok:
  assumes "cn_ok c" and "distinct dead" and "set dead \<subseteq> set (cn_clients c)"
  shows "cn_ok (fold kill_client dead c) \<and>
    connected_uris (fold kill_client dead c) = connected_uris c - client_uri c ` set dead"
  using assms
proof (induction dead arbitrary: c)
  case (Cons a dead)
  then have a: "a \<in> set (cn_clients c)" by simp
  note k = kill_client_ok[OF Cons.prems(1) a]
  have "set dead \<subseteq> set (cn_clients (kill_client a c))" using k(3) Cons.prems(2,3) by auto
  from Cons.IH[OF k(1) _ this] Cons.prems(2) show ?case
    by (auto simp: k(2,4))
qed simp

lemma event_ok:
  assumes ok: "cn_ok c" and uris: "distinct uris"
  shows "cn_ok (handleFinderEvent psize uris c)" and "connected_uris (handleFinderEvent psize uris c) = set uris"
proof -
  note d = cn_okD[OF ok]
  let ?P = "\<lambda>u. u \<in> set uris"
  let ?c1 = "c\<lparr>cn_store := revive ?P (set (cn_clients c)) (cn_store c)\<rparr>"
  let ?adds = "filter (\<lambda>u. u \<notin> client_uri c ` set (cn_clients c)) uris"
  let ?dead = "filter (\<lambda>a. client_uri c a \<notin> set uris) (cn_clients c)"
  let ?c2 = "fold (add_client psize) ?adds ?c1"
  have "connector_delta uris c = (?adds, ?dead, revive ?P (set (cn_clients c)) (cn_store c))"
    using delta_loop_eq[OF uris, of "cn_store c" "cn_clients c" "[]"] d(2,3)
    by (auto simp: connector_delta_def client_uri_def[abs_def])
  then have h: "handleFinderEvent psize uris c = fold kill_client ?dead ?c2"
    by (simp add: handleFinderEvent_def)
  note r = revive_ok[where P = ?P, OF ok]
  have im: "client_uri ?c1 ` set (cn_clients ?c1) = client_uri c ` set (cn_clients c)" using r(2) by auto
  have disj: "set ?adds \<inter> client_uri ?c1 ` set (cn_clients ?c1) = {}" unfolding im by auto
  note s = add_clients_ok[OF r(1) distinct_filter[OF uris] disj, where psize = psize]
  have sub: "set ?dead \<subseteq> set (cn_clients ?c2)" using s by auto
  have uri2: "client_uri ?c2 a = client_uri c a" if "a \<in> set (cn_clients c)" for a
    using s r(2)[OF that] d(3)[OF that] by auto
  note k = kill_clients_ok[OF _ distinct_filter[OF d(1)] sub]
  show "cn_ok (handleFinderEvent psize uris c)" using k s by (simp add: h)
  have im2: "client_uri ?c2 ` set ?dead = client_uri c ` set ?dead" using uri2 by (intro image_cong) auto
  have "connected_uris (handleFinderEvent psize uris c) = (connected_uris ?c1 \<union> set ?adds) - client_uri c ` set ?dead"
    using k s im2 by (simp add: h)
  also have "\<dots> = set uris" unfolding r(3) by auto
  finally show "connected_uris (handleFinderEvent psize uris c) = set uris" .
qed

lemma begin_ok:
  assumes ok: "cn_ok c" and a: "a \<in> set (cn_clients c)"
  shows "cn_ok (consume_begin cs a c)" and "connected_uris (consume_begin cs a c) = connected_uris c"
proof -
  note d = cn_okD[OF ok]
  let ?st = "(cn_store c)[a := (cn_store c ! a)\<lparr>dc_refCount := dc_refCount (cn_store c ! a) + 1\<rparr>]"
  let ?c = "c\<lparr>cn_seen := (cs, client_uri c a) # cn_seen c, cn_active := (cs, a) # cn_active c, cn_store := ?st\<rparr>"
  have al: "a < length (cn_store c)" using d(3)[OF a] .
  have uri: "client_uri ?c = client_uri c" using al by (auto simp: fun_eq_iff client_uri_def nth_list_update)
  have "cn_ok ?c" unfolding cn_ok_def uri using d a al by (auto simp: nth_list_update)
  moreover have "{b \<in> set (cn_clients c). \<not> dc_disconnect (?st ! b)} = {b \<in> set (cn_clients c). \<not> dc_disconnect (cn_store c ! b)}"
    using al by (auto simp: nth_list_update)
  then have "connected_uris ?c = connected_uris c" by (simp add: connected_uris_def uri)
  moreover have "consume_begin cs a c = (if (cs, client_uri c a) \<in> set (cn_seen c) then c else ?c)"
    by (simp add: consume_begin_def tryAddDoppler_def client_uri_def)
  ultimately show "cn_ok (consume_begin cs a c)" and "connected_uris (consume_begin cs a c) = connected_uris c"
    using ok by auto
qed

lemma count_list_remove1: "x \<in> set xs \<Longrightarrow> count_list (remove1 x xs) y + (if y = x then 1 else 0) = count_list xs y"
  by (induction xs) auto

lemma count_snd_remove1:
  "(cs, a) \<in> set xs \<Longrightarrow> count_list (map snd (remove1 (cs, a) xs)) b + (if b = a then 1 else 0) = count_list (map snd xs) b"
  by (induction xs) auto

lemma end_ok:
  assumes ok: "cn_ok c" and act: "(cs, a) \<in> set (cn_active c)"
  shows "cn_ok (consume_end cs a c)" and "connected_uris (consume_end cs a c) = connected_uris c"
proof -
  note d = cn_okD[OF ok]
  have a: "a \<in> set (cn_clients c)" using d(6) act by blast
  have al: "a < length (cn_store c)" using d(3)[OF a] .
  let ?st = "(cn_store c)[a := (cn_store c ! a)\<lparr>dc_refCount := dc_refCount (cn_store c ! a) - 1\<rparr>]"
  let ?c1 = "c\<lparr>cn_active := remove1 (cs, a) (cn_active c), cn_store := ?st\<rparr>"
  let ?closes = "dc_refCount (cn_store c ! a) \<le> 1 \<and> dc_disconnect (cn_store c ! a)"
  let ?c2 = "if ?closes then connector_close a ?c1 else ?c1"
  have uri: "client_uri ?c1 = client_uri c" using al by (auto simp: fun_eq_iff client_uri_def nth_list_update)
  have cnt: "int (count_list (map snd (remove1 (cs, a) (cn_active c))) b) =
      int (count_list (map snd (cn_active c)) b) - (if b = a then 1 else 0)" for b
    using count_snd_remove1[OF act, of b] by auto
  have sub: "set (remove1 (cs, a) (cn_active c)) \<subseteq> set (cn_active c)" by (rule set_remove1_subset)
  have e: "consume_end cs a c = ?c2\<lparr>cn_seen := forgetDoppler cs (dc_uri (cn_store ?c2 ! a)) (cn_seen ?c2)\<rparr>"
    using al by (simp add: consume_end_def Let_def)
  have ok2: "cn_ok ?c2"
  proof (cases ?closes)
    case False
    have "cn_ok ?c1"
      unfolding cn_ok_def uri using d al False cnt sub
      by (auto simp: nth_list_update split: if_splits)
    then show ?thesis unfolding if_not_P[OF False] .
  next
    case True
    have zero: "count_list (map snd (remove1 (cs, a) (cn_active c))) a = 0"
      using True cnt[of a] d(4)[OF a] by simp
    have "cn_ok (connector_close a ?c1)"
    proof (rule close_ok)
      show "snd ` set (cn_active ?c1) \<subseteq> set (cn_clients ?c1) - {a}"
        using d(6) sub zero by (force simp: count_list_0_iff)
    qed (use d a al uri cnt in \<open>auto simp: nth_list_update\<close>)
    then show ?thesis unfolding if_P[OF True] .
  qed
  have con: "connected_uris ?c2 = connected_uris c"
  proof -
    have "{b \<in> set (cn_clients ?c2). \<not> dc_disconnect (cn_store ?c2 ! b)} = {b \<in> set (cn_clients c). \<not> dc_disconnect (cn_store c ! b)}"
      using al d(1) by (auto simp: nth_list_update connector_close_def split: if_splits)
    moreover have "client_uri ?c2 = client_uri c"
      using uri by (auto simp: fun_eq_iff client_uri_def connector_close_def)
    ultimately show ?thesis by (simp add: connected_uris_def)
  qed
  have "cn_ok (c'\<lparr>cn_seen := s\<rparr>) = cn_ok c'" "connected_uris (c'\<lparr>cn_seen := s\<rparr>) = connected_uris c'" for c' s
    by (simp_all add: cn_ok_def connected_uris_def client_uri_def[abs_def])
  then show "cn_ok (consume_end cs a c)" and "connected_uris (consume_end cs a c) = connected_uris c"
    using ok2 con by (simp_all add: e)
qed

lemma cn_run:
  "cn_ok c \<Longrightarrow> prompt psize as c \<Longrightarrow> connected_uris c = set uris \<Longrightarrow>
   cn_ok (fold (cn_step psize) as c) \<and> connected_uris (fold (cn_step psize) as c) = set (last_event as uris)"
proof (induction as arbitrary: c uris)
  case (Cons x as)
  show ?case
  proof (cases x)
    case (CN_Event us)
    then show ?thesis using Cons event_ok[OF Cons.prems(1), of us psize] by simp
  next
    case (CN_Begin cs a)
    then show ?thesis using Cons begin_ok[OF Cons.prems(1), of a cs] by simp
  next
    case (CN_End cs a)
    then show ?thesis using Cons end_ok[OF Cons.prems(1), of cs a] by simp
  qed
qed simp



text \<open>
  An event that lists a doppler twice makes two clients with one address; the next event drops
  one of them and with it the connections that the other needs.
\<close>

lemma listed_twice_loses_connections:
  "let c = fold (cn_step 2) [CN_Event [''a'', ''a''], CN_Event [''a'']] NewGRPCConnector
   in map (client_uri c) (cn_clients c) = [''a''] \<and> clients_of ''a'' (cn_pool c) = []"
  by code_simp

text \<open>
  A goroutine that starts after its client was dropped closes, when it ends, the connections of
  the client that has taken its place.
\<close>

lemma late_consumer_closes_successor:
  "let c = fold (cn_step 2) [CN_Event [''a''], CN_Event [], CN_Event [''a''], CN_Begin 5 0, CN_Event [''a''], CN_End 5 0] NewGRPCConnector
   in map (client_uri c) (cn_clients c) = [''a''] \<and> clients_of ''a'' (cn_pool c) = []"
  by code_simp

lemma consume_delays_bound:
  "0 < delay \<Longrightarrow> delay \<le> 100000 \<Longrightarrow> (\<exists>k. delay = 10 ^ k) \<Longrightarrow> d \<in> set (consume_delays delay rs) \<Longrightarrow> 0 < d \<and> d \<le> 100000"
proof (induction rs arbitrary: delay)
  case (Cons ok rs)
  have step: "delay * 10 \<le> 100000" if "delay < 60000"
  proof -
    obtain k where k: "delay = 10 ^ k" using Cons.prems(3) by blast
    have "k < 5"
    proof (rule ccontr)
      assume "\<not> k < 5"
      then have "(10 :: int) ^ 5 \<le> 10 ^ k" by (intro power_increasing) auto
      then show False using that k by simp
    qed
    then have "(10 :: int) ^ k \<le> 10 ^ 4" by (intro power_increasing) auto
    then show ?thesis using k by simp
  qed
  have next_power: "\<exists>k. delay * 10 = 10 ^ k" using Cons.prems(3) by (metis power_Suc2)
  have one: "\<exists>k. (1 :: int) = 10 ^ k" by (rule exI[of _ 0]) simp
  show ?case
    using Cons.prems Cons.IH[of "delay * 10"] Cons.IH[of delay] Cons.IH[OF _ _ one] step next_power
    by (auto split: if_splits)
qed simp

section \<open>The averager\<close>

lemma averager_masks:
  "(0x0000FFFFFFFFFFFF :: 64 word) = mask 48" "(0xFFFF000000000000 :: 64 word) = push_bit 48 (mask 16)"
  by (simp_all add: mask_eq_exp_minus_1 push_bit_eq_mult)

lemma decode_encode:
  "averager_decode (encodeDelta n t u) = (n + fst (averager_decode u), take_bit 48 (t + snd (averager_decode u)))"
proof -
  let ?n = "n + fst (averager_decode u)" and ?t = "t + snd (averager_decode u)"
  have e: "encodeDelta n t u = push_bit 48 (ucast ?n) OR take_bit 48 ?t"
    unfolding encodeDelta_def averager_masks
    by (simp add: case_prod_unfold Let_def disjunctive_add bit_simps flip: take_bit_eq_mask)
  have "ucast (drop_bit 48 ((push_bit 48 (ucast ?n) OR take_bit 48 ?t) AND push_bit 48 (mask 16))) = ?n"
    by (rule bit_word_eqI) (auto simp: bit_simps)
  moreover have "(push_bit 48 (ucast ?n) OR take_bit 48 ?t) AND mask 48 = take_bit 48 ?t"
    by (rule bit_word_eqI) (auto simp: bit_simps)
  ultimately show ?thesis unfolding e averager_decode_def averager_masks by simp
qed

lemma take_bit_word_add: "take_bit n (take_bit n a + b) = take_bit n (a + b)" for a b :: "64 word"
  by transfer (simp add: take_bit_eq_mod mod_simps)

lemma decode_track_all:
  "averager_decode (track_all ts u) =
   (fst (averager_decode u) + of_nat (sum_list (map fst ts)),
    take_bit 48 (snd (averager_decode u) + of_nat (sum_list (map snd ts))))"
proof (induction ts arbitrary: u)
  case Nil
  have "snd (averager_decode u) = take_bit 48 (snd (averager_decode u))"
    unfolding averager_decode_def averager_masks by (simp add: take_bit_eq_mask)
  then show ?case by (simp add: track_all_def)
next
  case (Cons t ts)
  obtain n sz where t: "t = (n, sz)" by (cases t)
  have "take_bit 48 (take_bit 48 (a + b) + c) = take_bit 48 (b + (a + c))" for a b c :: "64 word"
    using take_bit_word_add[of 48 "a + b" c] by (simp add: ac_simps)
  then show ?case
    using Cons[of "averager_Track (int n) (int sz) u"]
    by (simp add: track_all_def t averager_Track_def decode_encode add.commute add.left_commute)
qed

lemma mod_once: "n \<le> r \<Longrightarrow> r < n + n \<Longrightarrow> r mod n = r - n" for n r :: nat
  by (simp add: le_mod_geq)

lemma unat_take_bit_48: "unat (take_bit 48 (of_nat k :: 64 word)) = k mod 2 ^ 48"
proof -
  have "unat (take_bit 48 (of_nat k :: 64 word)) = take_bit 48 (unat (of_nat k :: 64 word))"
    by (rule unsigned_take_bit_eq)
  also have "\<dots> = k mod 2 ^ 64 mod 2 ^ 48" by (simp add: take_bit_eq_mod unat_of_nat)
  also have "\<dots> = k mod 2 ^ 48" by (rule mod_mod_cancel) simp
  finally show ?thesis .
qed



end
