(* ===== verification/Sha1.thy ===== *)
theory Sha1
  imports Go_Numbers
begin

unbundle bit_operations_syntax

text \<open>
  The function \<open>sha1\<close> of Go's \<open>crypto/sha1\<close> (FIPS 180-4), which both counter aggregators of
  the metron agent use to make keys from tag maps. That the digest has twenty bytes is proved;
  that it has no collisions is not true of any hash and never assumed beyond the strings a
  statement is about.
\<close>

type_synonym sha1_state = "uint32 \<times> uint32 \<times> uint32 \<times> uint32 \<times> uint32"

definition rotl32 :: "nat \<Rightarrow> uint32 \<Rightarrow> uint32" where
  "rotl32 n w = push_bit n w OR drop_bit (32 - n) w"

text \<open>\<open>binary.BigEndian\<close>\<close>

definition be_bytes :: "nat list \<Rightarrow> 'a::len word \<Rightarrow> bytes" where
  "be_bytes shifts w = map (\<lambda>i. char_of (uint (drop_bit i w))) shifts"

definition be_word :: "bytes \<Rightarrow> uint32" where
  "be_word bs = foldl (\<lambda>w b. push_bit 8 w OR of_char b) 0 bs"

text \<open>A one bit, zeros up to 56 modulo 64 bytes, and the length in bits.\<close>

definition sha1_pad :: "bytes \<Rightarrow> bytes" where
  "sha1_pad m =
     m @ [CHR 0x80] @ replicate ((119 - length m mod 64) mod 64) (CHR 0x00)
       @ be_bytes [56, 48, 40, 32, 24, 16, 8, 0] (8 * of_nat (length m) :: uint64)"

fun chunks :: "nat \<Rightarrow> 'a list \<Rightarrow> 'a list list" where
  "chunks k xs = (if k = 0 \<or> xs = [] then [] else take k xs # chunks k (drop k xs))"

declare chunks.simps [simp del]

text \<open>The message schedule, newest word first.\<close>

fun sha1_extend :: "nat \<Rightarrow> uint32 list \<Rightarrow> uint32 list" where
  "sha1_extend 0 ws = ws"
| "sha1_extend (Suc n) ws =
     sha1_extend n (rotl32 1 (ws ! 2 XOR ws ! 7 XOR ws ! 13 XOR ws ! 15) # ws)"

definition sha1_schedule :: "bytes \<Rightarrow> uint32 list" where
  "sha1_schedule block = rev (sha1_extend 64 (rev (map be_word (chunks 4 block))))"

definition sha1_f :: "nat \<Rightarrow> uint32 \<Rightarrow> uint32 \<Rightarrow> uint32 \<Rightarrow> uint32" where
  "sha1_f t b c d =
     (if t < 20 then (b AND c) OR (NOT b AND d)
      else if t < 40 then b XOR c XOR d
      else if t < 60 then (b AND c) OR (b AND d) OR (c AND d)
      else b XOR c XOR d)"

definition sha1_k :: "nat \<Rightarrow> uint32" where
  "sha1_k t =
     (if t < 20 then 0x5A827999 else if t < 40 then 0x6ED9EBA1
      else if t < 60 then 0x8F1BBCDC else 0xCA62C1D6)"

fun sha1_rounds :: "nat \<Rightarrow> uint32 list \<Rightarrow> sha1_state \<Rightarrow> sha1_state" where
  "sha1_rounds t [] s = s"
| "sha1_rounds t (w # ws) (a, b, c, d, e) =
     sha1_rounds (Suc t) ws
       (rotl32 5 a + sha1_f t b c d + e + w + sha1_k t, a, rotl32 30 b, c, d)"

definition sha1_block :: "bytes \<Rightarrow> sha1_state \<Rightarrow> sha1_state" where
  "sha1_block block s =
     (case (s, sha1_rounds 0 (sha1_schedule block) s) of
        ((a, b, c, d, e), (a', b', c', d', e')) \<Rightarrow> (a + a', b + b', c + c', d + d', e + e'))"

definition sha1_init :: sha1_state where
  "sha1_init = (0x67452301, 0xEFCDAB89, 0x98BADCFE, 0x10325476, 0xC3D2E1F0)"

definition sha1 :: "bytes \<Rightarrow> bytes" where
  "sha1 m =
     (case fold sha1_block (chunks 64 (sha1_pad m)) sha1_init of
        (a, b, c, d, e) \<Rightarrow> concat (map (be_bytes [24, 16, 8, 0]) [a, b, c, d, e]))"

lemma length_sha1 [simp]: "length (sha1 m) = 20"
  by (simp add: sha1_def be_bytes_def split: prod.split)

end
