(* ===== verification/Metron_Counters.thy ===== *)
theory Metron_Counters
  imports Envelopes Sha1 "HOL-Library.List_Lexorder" "HOL-Library.Char_ord"
begin

text \<open>
  The path of a v1 envelope through the metron agent (\<open>metron/internal/ingress/v1\<close> and
  \<open>metron/internal/egress/v1\<close>) and the counter aggregators of both API versions
  (\<open>message_aggregator.go\<close>, \<open>egress/v2/counteraggregator.go\<close>).

  A datagram is unmarshalled and validated, counters get their running total, missing tags are
  filled in, and the envelope is marshalled again for the doppler pool. The protobuf functions
  and the dropsonde packages are not part of the repository: unmarshalling and marshalling are
  arguments, the calls on the metric batcher are values of \<open>metric_call\<close> that an operation
  returns in the order it makes them. \<open>None\<close> is a panic.

  The locale \<open>counter_store\<close> is the contract both aggregators keep: a total per key to which
  only counters with that key add.
\<close>

section \<open>Calls on the metric batcher\<close>

record chainer =
  chn_name :: string
  chn_tags :: "(string \<times> string) list"

datatype metric_call =
    BatchIncrementCounter string
  | BatchAddCounter string uint64
  | Chainer_Increment chainer

definition BatchCounter :: "string \<Rightarrow> chainer" where
  "BatchCounter name = \<lparr>chn_name = name, chn_tags = []\<rparr>"

definition SetTag :: "string \<Rightarrow> string \<Rightarrow> chainer \<Rightarrow> chainer" where
  "SetTag k v c = c\<lparr>chn_tags := chn_tags c @ [(k, v)]\<rparr>"

section \<open>Hashing tags\<close>

text \<open>
  The loops of both \<open>hashTags\<close>: the elements sorted by key (the keys of a map are distinct, so
  the order is determined), then the hexadecimal digests of each key and value.
\<close>

definition hash_elements :: "(string \<times> string) list \<Rightarrow> string" where
  "hash_elements elements =
     concat (map (\<lambda>(k, v). hex_encode (sha1 k) @ hex_encode (sha1 v)) (sort_key fst elements))"

definition hashTags :: "tagmap \<Rightarrow> string" where
  "hashTags tags = hash_elements tags"

text \<open>
  Version 2 hashes the text form of each value; \<open>value_string\<close> is the \<open>String\<close> method that
  the protobuf package provides.
\<close>

definition hashTags_v2 :: "(v2_value option \<Rightarrow> string) \<Rightarrow> (string, v2_value option) gomap \<Rightarrow> string" where
  "hashTags_v2 value_string tags = hash_elements (map (\<lambda>(k, v). (k, value_string v)) tags)"

section \<open>The aggregator of version 1\<close>

record counterID =
  cid_origin :: string
  cid_name :: string
  cid_tagsHash :: string

type_synonym totals = "(counterID, uint64) gomap"

definition counter_id :: "tag_heap \<Rightarrow> v1_envelope \<Rightarrow> counter_event option \<Rightarrow> counterID" where
  "counter_id h e c =
     \<lparr>cid_origin = getS (e1_Origin e),
      cid_name = (case c of None \<Rightarrow> [] | Some ce \<Rightarrow> getS (ce_Name ce)),
      cid_tagsHash = hashTags (tags_at h (e1_Tags e))\<rparr>"

text \<open>
  The getters accept a nil counter event, the assignment to its \<open>Total\<close> does not: a counter
  envelope without a counter event is a panic.
\<close>

definition handleCounter ::
  "tag_heap \<Rightarrow> v1_envelope \<Rightarrow> totals \<Rightarrow> (v1_envelope \<times> totals \<times> metric_call list) option" where
  "handleCounter h e counterTotals =
     (let countID = counter_id h e (e1_CounterEvent e);
          delta = (case e1_CounterEvent e of None \<Rightarrow> 0 | Some c \<Rightarrow> getU (ce_Delta c));
          newVal = mget_or 0 counterTotals countID + delta
      in case e1_CounterEvent e of
           None \<Rightarrow> None
         | Some c \<Rightarrow>
             Some (e\<lparr>e1_CounterEvent := Some (c\<lparr>ce_Total := Some newVal\<rparr>)\<rparr>,
                   mput countID newVal counterTotals,
                   [BatchIncrementCounter ''MessageAggregator.counterEventReceived'']))"

definition MessageAggregator_Write ::
  "events_pkg \<Rightarrow> tag_heap \<Rightarrow> v1_envelope \<Rightarrow> totals \<Rightarrow> (v1_envelope \<times> totals \<times> metric_call list) option" where
  "MessageAggregator_Write pkg h e counterTotals =
     (if GetEventType pkg e = Envelope_CounterEvent then handleCounter h e counterTotals
      else Some (e, counterTotals, []))"

text \<open>What the aggregator passes on for a sequence of envelopes.\<close>

fun MessageAggregator_run ::
  "events_pkg \<Rightarrow> tag_heap \<Rightarrow> v1_envelope list \<Rightarrow> totals \<Rightarrow> (v1_envelope list \<times> totals) option" where
  "MessageAggregator_run pkg h [] t = Some ([], t)"
| "MessageAggregator_run pkg h (e # es) t =
     Option.bind (MessageAggregator_Write pkg h e t) (\<lambda>(e', t', _).
       map_option (\<lambda>(es', t''). (e' # es', t'')) (MessageAggregator_run pkg h es t'))"

section \<open>The aggregator of version 2\<close>

record counterID_v2 =
  cid2_name :: string
  cid2_tagsHash :: string

type_synonym totals_v2 = "(counterID_v2, uint64) gomap"

definition counter_id_v2 ::
  "(v2_value option \<Rightarrow> string) \<Rightarrow> v2_envelope \<Rightarrow> v2_counter \<Rightarrow> counterID_v2" where
  "counter_id_v2 value_string e c =
     \<lparr>cid2_name = ct_Name c, cid2_tagsHash = hashTags_v2 value_string (deprecated_tags e)\<rparr>"

fun GetCounter :: "v2_envelope \<Rightarrow> v2_counter option" where
  "GetCounter e = (case e2_Message e of Some (Envelope_Counter c) \<Rightarrow> Some c | _ \<Rightarrow> None)"

text \<open>The body of the loop in \<open>Write\<close>.\<close>

definition aggregate ::
  "(v2_value option \<Rightarrow> string) \<Rightarrow> v2_envelope \<Rightarrow> totals_v2 \<Rightarrow> v2_envelope \<times> totals_v2" where
  "aggregate value_string e counterTotals =
     (case GetCounter e of
        None \<Rightarrow> (e, counterTotals)
      | Some c \<Rightarrow>
          (let totals = (if length counterTotals > 10000 then [] else counterTotals);
               id = counter_id_v2 value_string e c;
               total' = mget_or 0 totals id + GetDelta (ct_Value c)
           in (e\<lparr>e2_Message := Some (Envelope_Counter (c\<lparr>ct_Value := Some (Counter_Total total')\<rparr>))\<rparr>,
               mput id total' totals)))"

fun CounterAggregator_loop ::
  "(v2_value option \<Rightarrow> string) \<Rightarrow> v2_envelope list \<Rightarrow> totals_v2 \<Rightarrow> v2_envelope list \<times> totals_v2" where
  "CounterAggregator_loop value_string [] t = ([], t)"
| "CounterAggregator_loop value_string (e # es) t =
     (let (e', t') = aggregate value_string e t;
          (es', t'') = CounterAggregator_loop value_string es t'
      in (e' # es', t''))"

text \<open>\<open>Write\<close> hands the changed messages to the next writer and returns its error.\<close>

definition CounterAggregator_Write ::
  "(v2_value option \<Rightarrow> string) \<Rightarrow> (v2_envelope list \<Rightarrow> 'w \<Rightarrow> string option \<times> 'w) \<Rightarrow>
     v2_envelope list \<Rightarrow> totals_v2 \<times> 'w \<Rightarrow> string option \<times> totals_v2 \<times> 'w" where
  "CounterAggregator_Write value_string writer msgs =
     (\<lambda>(t, w). let (msgs', t') = CounterAggregator_loop value_string msgs t;
                   (err, w') = writer msgs' w
               in (err, t', w'))"

section \<open>Tagging and marshalling\<close>

record Tagger =
  tg_deploymentName :: string
  tg_job :: string
  tg_index :: string
  tg_ip :: string

definition setDefault :: "string \<Rightarrow> string option \<Rightarrow> string option" where
  "setDefault d x = (case x of None \<Rightarrow> Some d | Some s \<Rightarrow> Some s)"

definition setDefaultTags :: "Tagger \<Rightarrow> v1_envelope \<Rightarrow> v1_envelope" where
  "setDefaultTags t e =
     e\<lparr>e1_Deployment := setDefault (tg_deploymentName t) (e1_Deployment e),
       e1_Job := setDefault (tg_job t) (e1_Job e),
       e1_Index := setDefault (tg_index t) (e1_Index e),
       e1_Ip := setDefault (tg_ip t) (e1_Ip e)\<rparr>"

text \<open>
  \<open>EventMarshaller.Write\<close>: what it writes, with the chainer that the byte writer is to
  increment. Without a byte writer, and for an envelope that does not marshal, nothing.
\<close>

definition EventMarshaller_Write ::
  "events_pkg \<Rightarrow> (tag_heap \<Rightarrow> v1_envelope \<Rightarrow> bytes result) \<Rightarrow> bool \<Rightarrow> tag_heap \<Rightarrow> v1_envelope \<Rightarrow>
     (bytes \<times> chainer list) option \<times> metric_call list" where
  "EventMarshaller_Write pkg marshal has_writer h e =
     (if \<not> has_writer then (None, [])
      else case marshal h e of
             Inl _ \<Rightarrow> (None, [BatchIncrementCounter ''dropsondeMarshaller.marshalErrors''])
           | Inr b \<Rightarrow>
               (Some (b, [SetTag ''event_type'' (event_type_string (GetEventType pkg e))
                            (BatchCounter ''dropsondeMarshaller.sentEnvelopes'')]), []))"

text \<open>
  \<open>GRPCWrapper.Write\<close>, where \<open>err\<close> is what the connection pool returns for the message.
\<close>

definition GRPCWrapper_Write ::
  "string option \<Rightarrow> bytes \<Rightarrow> chainer list \<Rightarrow> string option \<times> metric_call list" where
  "GRPCWrapper_Write err message chainers =
     (case err of
        Some e \<Rightarrow> (Some e, [BatchIncrementCounter ''grpc.sendErrorCount''])
      | None \<Rightarrow>
          (None,
           [BatchIncrementCounter ''grpc.sentMessageCount'',
            BatchAddCounter ''grpc.sentByteCount'' (of_nat (length message)),
            BatchIncrementCounter ''DopplerForwarder.sentMessages''] @
           map (\<lambda>c. Chainer_Increment (SetTag ''protocol'' ''grpc'' c)) chainers))"

section \<open>Unmarshalling\<close>

definition valid :: "events_pkg \<Rightarrow> v1_envelope \<Rightarrow> bool" where
  "valid pkg env =
     (case GetEventType pkg env of
        Envelope_HttpStartStop \<Rightarrow> e1_HttpStartStop env \<noteq> None
      | Envelope_LogMessage \<Rightarrow> e1_LogMessage env \<noteq> None
      | Envelope_ValueMetric \<Rightarrow> e1_ValueMetric env \<noteq> None
      | Envelope_CounterEvent \<Rightarrow> e1_CounterEvent env \<noteq> None
      | Envelope_Error \<Rightarrow> e1_Error env \<noteq> None
      | Envelope_ContainerMetric \<Rightarrow> e1_ContainerMetric env \<noteq> None
      | _ \<Rightarrow> True)"

text \<open>
  The table of metric names, made from the names of the event types with the first letter in
  lower case. The names are identifiers of a protobuf file, so ASCII.
\<close>

definition lower_first :: "string \<Rightarrow> string" where
  "lower_first s =
     (case s of
        [] \<Rightarrow> [CHR 0xEF, CHR 0xBF, CHR 0xBD]
      | c # cs \<Rightarrow>
          (if (65 :: nat) \<le> of_char c \<and> of_char c \<le> (90 :: nat) then char_of (of_char c + 32 :: nat) else c) # cs)"

definition metricNames :: "(event_type, string) gomap \<Rightarrow> (event_type, string) gomap" where
  "metricNames EventType_name =
     map (\<lambda>(t, n). (t, ''dropsondeUnmarshaller.'' @ lower_first n @ ''Received'')) EventType_name"

definition incrementReceiveCount ::
  "(event_type, string) gomap \<Rightarrow> event_type \<Rightarrow> string option \<times> metric_call list" where
  "incrementReceiveCount EventType_name eventType =
     (let received = Chainer_Increment
            (SetTag ''event_type'' (event_type_string eventType)
              (SetTag ''protocol'' ''udp'' (BatchCounter ''dropsondeUnmarshaller.receivedEnvelopes'')))
      in if eventType = Envelope_LogMessage
         then (None, [BatchIncrementCounter ''dropsondeUnmarshaller.logMessageTotal'', received])
         else case mget_or [] (metricNames EventType_name) eventType of
                [] \<Rightarrow> (Some ''eventUnmarshaller: received unknown event type'',
                       [BatchIncrementCounter ''dropsondeUnmarshaller.unknownEventTypeReceived'', received])
              | name \<Rightarrow> (None, [BatchIncrementCounter name, received]))"

text \<open>The protobuf decoder allocates the tag map of the envelope it returns.\<close>

type_synonym unmarshaller = "tag_heap \<Rightarrow> bytes \<Rightarrow> (v1_envelope \<times> tag_heap) result"

definition UnmarshallMessage ::
  "events_pkg \<Rightarrow> (event_type, string) gomap \<Rightarrow> unmarshaller \<Rightarrow> tag_heap \<Rightarrow> bytes \<Rightarrow>
     (v1_envelope \<times> tag_heap) result \<times> metric_call list" where
  "UnmarshallMessage pkg EventType_name unmarshal h message =
     (case unmarshal h message of
        Inl err \<Rightarrow> (Inl err, [BatchIncrementCounter ''dropsondeUnmarshaller.unmarshalErrors''])
      | Inr (e, h') \<Rightarrow>
          (if \<not> valid pkg e
           then (Inl ''Invalid Envelope'', [BatchIncrementCounter ''dropsondeUnmarshaller.unmarshalErrors''])
           else case incrementReceiveCount EventType_name (GetEventType pkg e) of
                  (Some err, ms) \<Rightarrow> (Inl err, ms)
                | (None, ms) \<Rightarrow> (Inr (e, h'), ms)))"

section \<open>The agent for version 1\<close>

text \<open>
  The writers as \<open>AppV1.Start\<close> chains them: the unmarshaller writes to the aggregator, that to
  the tagger, that to the marshaller. The state is the heap of tag maps, the totals, what was
  handed to the byte writer and the calls on the metric batcher.
\<close>

record v1_agent =
  va_heap :: tag_heap
  va_totals :: totals
  va_sent :: "(v1_envelope \<times> bytes \<times> chainer list) list"
  va_metrics :: "metric_call list"

record v1_config =
  vc_pkg :: events_pkg
  vc_names :: "(event_type, string) gomap"
  vc_unmarshal :: unmarshaller
  vc_marshal :: "tag_heap \<Rightarrow> v1_envelope \<Rightarrow> bytes result"
  vc_tagger :: Tagger
  vc_has_writer :: bool
  vc_contextName :: string

definition v1_write :: "v1_config \<Rightarrow> v1_envelope \<Rightarrow> v1_agent \<Rightarrow> v1_agent option" where
  "v1_write cfg e s =
     Option.bind (MessageAggregator_Write (vc_pkg cfg) (va_heap s) e (va_totals s)) (\<lambda>(e1, t, ms).
       let e2 = setDefaultTags (vc_tagger cfg) e1;
           (out, ms') = EventMarshaller_Write (vc_pkg cfg) (vc_marshal cfg) (vc_has_writer cfg) (va_heap s) e2
       in Some (s\<lparr>va_totals := t,
                  va_sent := va_sent s @ (case out of None \<Rightarrow> [] | Some (b, cs) \<Rightarrow> [(e2, b, cs)]),
                  va_metrics := va_metrics s @ ms @ ms'\<rparr>))"

text \<open>\<open>EventUnmarshaller.Write\<close> for one datagram.\<close>

definition EventUnmarshaller_Write :: "v1_config \<Rightarrow> bytes \<Rightarrow> v1_agent \<Rightarrow> v1_agent option" where
  "EventUnmarshaller_Write cfg message s =
     (case UnmarshallMessage (vc_pkg cfg) (vc_names cfg) (vc_unmarshal cfg) (va_heap s) message of
        (Inl _, ms) \<Rightarrow> Some (s\<lparr>va_metrics := va_metrics s @ ms\<rparr>)
      | (Inr (e, h'), ms) \<Rightarrow>
          v1_write cfg e (s\<lparr>va_heap := h', va_metrics := va_metrics s @ ms\<rparr>))"

text \<open>One turn of \<open>NetworkReader.StartWriting\<close>.\<close>

definition NetworkReader_turn :: "v1_config \<Rightarrow> bytes \<Rightarrow> v1_agent \<Rightarrow> v1_agent option" where
  "NetworkReader_turn cfg data s =
     EventUnmarshaller_Write cfg data
       (s\<lparr>va_metrics := va_metrics s @
            [BatchIncrementCounter (vc_contextName cfg @ ''.receivedMessageCount''),
             BatchAddCounter (vc_contextName cfg @ ''.receivedByteCount'') (of_nat (length data))]\<rparr>)"

text \<open>
  \<open>EventWriter.Emit\<close>: the agent's own events, wrapped by dropsonde's \<open>emitter.Wrap\<close> (an
  argument), go to the aggregator once the writer is set.
\<close>

definition EventWriter_Emit ::
  "v1_config \<Rightarrow> bool \<Rightarrow> v1_envelope result \<Rightarrow> v1_agent \<Rightarrow> (string option \<times> v1_agent) option" where
  "EventWriter_Emit cfg writer_set wrapped s =
     (case wrapped of
        Inl err \<Rightarrow> Some (Some err, s)
      | Inr e \<Rightarrow>
          (if \<not> writer_set then Some (Some ''EventWriter: No envelope writer set (see SetWriter)'', s)
           else map_option (\<lambda>s'. (None, s')) (v1_write cfg e s)))"

definition v1_agent_start :: v1_agent where
  "v1_agent_start = \<lparr>va_heap = [], va_totals = [], va_sent = [], va_metrics = []\<rparr>"

text \<open>What the agent reacts to: a datagram, or an event of its own.\<close>

datatype v1_action = Datagram bytes | Emit "v1_envelope result"

fun v1_step :: "v1_config \<Rightarrow> v1_action \<Rightarrow> v1_agent \<Rightarrow> v1_agent option" where
  "v1_step cfg (Datagram data) s = NetworkReader_turn cfg data s"
| "v1_step cfg (Emit wrapped) s = map_option snd (EventWriter_Emit cfg True wrapped s)"

section \<open>What the keys stand for\<close>

text \<open>The strings that are hashed for a list of elements.\<close>

definition hashed_strings :: "(string \<times> string) list \<Rightarrow> string set" where
  "hashed_strings elements = fst ` set elements \<union> snd ` set elements"

text \<open>A counter of version 1: an envelope of that type with a counter event.\<close>

definition counter_of :: "events_pkg \<Rightarrow> v1_envelope \<Rightarrow> counter_event option" where
  "counter_of pkg e = (if GetEventType pkg e = Envelope_CounterEvent then e1_CounterEvent e else None)"

definition delta_of :: "events_pkg \<Rightarrow> v1_envelope \<Rightarrow> uint64" where
  "delta_of pkg e = (case counter_of pkg e of None \<Rightarrow> 0 | Some c \<Rightarrow> getU (ce_Delta c))"

definition counter_key :: "events_pkg \<Rightarrow> tag_heap \<Rightarrow> v1_envelope \<Rightarrow> counterID option" where
  "counter_key pkg h e = map_option (\<lambda>c. counter_id h e (Some c)) (counter_of pkg e)"

text \<open>Two counters with the same origin, name and tags.\<close>

definition same_counter :: "events_pkg \<Rightarrow> tag_heap \<Rightarrow> v1_envelope \<Rightarrow> v1_envelope \<Rightarrow> bool" where
  "same_counter pkg h e e' \<longleftrightarrow>
     (case (counter_of pkg e, counter_of pkg e') of
        (Some c, Some c') \<Rightarrow>
          getS (e1_Origin e) = getS (e1_Origin e') \<and> getS (ce_Name c) = getS (ce_Name c') \<and>
          set (tags_at h (e1_Tags e)) = set (tags_at h (e1_Tags e'))
      | _ \<Rightarrow> False)"

definition delta_of_v2 :: "v2_envelope \<Rightarrow> uint64" where
  "delta_of_v2 e = (case GetCounter e of None \<Rightarrow> 0 | Some c \<Rightarrow> GetDelta (ct_Value c))"

definition counter_key_v2 :: "(v2_value option \<Rightarrow> string) \<Rightarrow> v2_envelope \<Rightarrow> counterID_v2 option" where
  "counter_key_v2 value_string e = map_option (counter_id_v2 value_string e) (GetCounter e)"

definition same_counter_v2 :: "v2_envelope \<Rightarrow> v2_envelope \<Rightarrow> bool" where
  "same_counter_v2 e e' \<longleftrightarrow>
     (case (GetCounter e, GetCounter e') of
        (Some c, Some c') \<Rightarrow>
          ct_Name c = ct_Name c' \<and> set (deprecated_tags e) = set (deprecated_tags e')
      | _ \<Rightarrow> False)"

text \<open>The totals before the envelope at each position, as the two aggregators update them.\<close>

definition totals_step :: "events_pkg \<Rightarrow> tag_heap \<Rightarrow> v1_envelope \<Rightarrow> totals \<Rightarrow> totals" where
  "totals_step pkg h e t =
     (case MessageAggregator_Write pkg h e t of None \<Rightarrow> t | Some (_, t', _) \<Rightarrow> t')"

definition totals_step_v2 :: "(v2_value option \<Rightarrow> string) \<Rightarrow> v2_envelope \<Rightarrow> totals_v2 \<Rightarrow> totals_v2" where
  "totals_step_v2 value_string e t = snd (aggregate value_string e t)"

text \<open>Three counters over two tag maps, for examples.\<close>

definition agent_pkg :: events_pkg where
  "agent_pkg = \<lparr>default_EventType = Envelope_HttpStartStop, default_MessageType = LogMessage_OUT,
     default_Method = 1, default_PeerType = 1, Method_name = [], Method_value = [],
     PeerType_name = [], PeerType_value = []\<rparr>"

definition hits :: "uint64 \<Rightarrow> nat \<Rightarrow> v1_envelope" where
  "hits n tags = empty_v1\<lparr>e1_EventType := Some Envelope_CounterEvent, e1_Tags := Some tags,
      e1_CounterEvent := Some \<lparr>ce_Name = Some ''hits'', ce_Delta = Some n, ce_Total = None\<rparr>\<rparr>"

definition plain_text :: "v2_value option \<Rightarrow> string" where
  "plain_text v = (case Option.bind v v2_Data of Some (Value_Text s) \<Rightarrow> s | _ \<Rightarrow> ''<nil>'')"

definition hits_v2 :: "uint64 \<Rightarrow> string \<Rightarrow> v2_envelope" where
  "hits_v2 n k = \<lparr>e2_Timestamp = 0, e2_SourceId = [], e2_InstanceId = [],
     e2_DeprecatedTags = Some [(k, Some \<lparr>v2_Data = Some (Value_Text k)\<rparr>)], e2_Tags = None,
     e2_Message = Some (Envelope_Counter \<lparr>ct_Name = ''hits'', ct_Value = Some (Counter_Delta n)\<rparr>)\<rparr>"

definition hits_heap :: tag_heap where
  "hits_heap = [[(''k'', ''k'')], []]"

text \<open>
  A sent envelope is well typed: it carries the event its type announces, and the four base tags
  are present.
\<close>

definition well_typed :: "v1_config \<Rightarrow> v1_envelope \<Rightarrow> bool" where
  "well_typed cfg e \<longleftrightarrow>
     valid (vc_pkg cfg) e \<and> e1_Deployment e \<noteq> None \<and> e1_Job e \<noteq> None \<and> e1_Index e \<noteq> None \<and>
     e1_Ip e \<noteq> None"

definition sample_agent :: v1_config where
  "sample_agent =
     \<lparr>vc_pkg = agent_pkg, vc_names = [(Envelope_CounterEvent, ''CounterEvent'')],
      vc_unmarshal = (\<lambda>h b. if b = ''bad'' then Inl ''unexpected EOF''
        else if b = ''mistyped'' then Inr ((hits 5 0)\<lparr>e1_CounterEvent := None\<rparr>, h @ [[]])
        else Inr (hits 5 (length h), h @ [[]])),
      vc_marshal = (\<lambda>_ e. Inr (getS (e1_Ip e))),
      vc_tagger = \<lparr>tg_deploymentName = ''cf'', tg_job = ''router'', tg_index = ''0'', tg_ip = ''10.0.0.1''\<rparr>,
      vc_has_writer = True, vc_contextName = ''dropsondeAgentListener''\<rparr>"

section \<open>Hashes identify tag maps\<close>

lemma hashed_strings_in:
  "(k, v) \<in> set m \<Longrightarrow> k \<in> hashed_strings m" "(k, v) \<in> set m \<Longrightarrow> v \<in> hashed_strings m"
  by (force simp: hashed_strings_def)+

lemma concat_blocks_inject:
  assumes "\<forall>x \<in> set xs. length x = n" and "\<forall>y \<in> set ys. length y = n" and "0 < n"
    and "concat xs = concat ys"
  shows "xs = ys"
  using assms
proof (induction xs arbitrary: ys)
  case Nil
  then have "\<forall>y \<in> set ys. y = []" by simp
  with Nil.prems(2,3) show ?case by (cases ys) auto
next
  case (Cons x xs)
  from Cons.prems(1,3) have "concat (x # xs) \<noteq> []" by auto
  with Cons.prems(4) obtain y ys' where ys: "ys = y # ys'" by (cases ys) auto
  with Cons.prems(1,2) have "length x = length y" by simp
  with Cons.prems(4) ys have "x = y" and "concat xs = concat ys'" by simp_all
  moreover have "xs = ys'"
    using Cons.IH[of ys'] Cons.prems(1-3) ys \<open>concat xs = concat ys'\<close> by simp
  ultimately show ?case using ys by simp
qed

lemma hash_elements_perm:
  assumes "wf_map m" and "set m = set m'" and "wf_map m'"
  shows "hash_elements m = hash_elements m'"
proof -
  have "mset m = mset m'"
    using assms by (simp add: distinct_map set_eq_iff_mset_eq_distinct)
  moreover have "inj_on fst (set m)"
    using assms(1) by (simp add: distinct_map)
  ultimately have "sort_key fst m = sort_key fst m'"
    by (intro sort_key_inj_key_eq) simp_all
  then show ?thesis by (simp add: hash_elements_def)
qed

text \<open>
  Equal hashes come from equal maps if the strings in them do not collide: the hash does not
  depend on the iteration order, and the digests have a fixed length.
\<close>

lemma hash_elements_iff:
  assumes wf: "wf_map m" "wf_map m'"
    and inj: "inj_on sha1 (hashed_strings m \<union> hashed_strings m')"
  shows "hash_elements m = hash_elements m' \<longleftrightarrow> set m = set m'"
proof
  define block :: "string \<times> string \<Rightarrow> string" where
    "block = (\<lambda>(k, v). hex_encode (sha1 k) @ hex_encode (sha1 v))"
  have block_inj: "inj_on block (set m \<union> set m')"
  proof (rule inj_onI)
    fix p q
    assume pq: "p \<in> set m \<union> set m'" "q \<in> set m \<union> set m'" and eq: "block p = block q"
    obtain k v k' v' where kv: "p = (k, v)" "q = (k', v')" by (cases p, cases q)
    have "hex_encode (sha1 k) @ hex_encode (sha1 v) = hex_encode (sha1 k') @ hex_encode (sha1 v')"
      using eq kv by (simp add: block_def)
    then have "hex_encode (sha1 k) = hex_encode (sha1 k')" "hex_encode (sha1 v) = hex_encode (sha1 v')"
      by (simp_all add: append_eq_append_conv)
    then have "sha1 k = sha1 k'" and "sha1 v = sha1 v'" by simp_all
    moreover have "k \<in> hashed_strings m \<union> hashed_strings m'" "k' \<in> hashed_strings m \<union> hashed_strings m'"
      "v \<in> hashed_strings m \<union> hashed_strings m'" "v' \<in> hashed_strings m \<union> hashed_strings m'"
      using pq kv by (auto intro: hashed_strings_in)
    ultimately show "p = q" using inj kv by (simp add: inj_on_eq_iff)
  qed
  assume "hash_elements m = hash_elements m'"
  then have "concat (map block (sort_key fst m)) = concat (map block (sort_key fst m'))"
    by (simp add: hash_elements_def block_def)
  then have "map block (sort_key fst m) = map block (sort_key fst m')"
    by (intro concat_blocks_inject[where n = 80]) (auto simp: block_def)
  then have "block ` set (sort_key fst m) = block ` set (sort_key fst m')"
    by (metis set_map)
  then show "set m = set m'"
    using block_inj by (simp add: inj_on_image_eq_iff)
next
  assume "set m = set m'"
  then show "hash_elements m = hash_elements m'"
    by (rule hash_elements_perm[OF wf(1) _ wf(2)])
qed

section \<open>The contract of the aggregators\<close>

locale counter_store =
  fixes step :: "'e \<Rightarrow> 's \<Rightarrow> 's"
    and total_of :: "'s \<Rightarrow> 'k \<Rightarrow> uint64"
    and key :: "'e \<Rightarrow> 'k option"
    and delta :: "'e \<Rightarrow> uint64"
    and keeps :: "'s \<Rightarrow> bool"
  assumes total_step:
    "keeps s \<Longrightarrow> total_of (step e s) k = total_of s k + (if key e = Some k then delta e else 0)"
begin

text \<open>The total of a key is the sum of the deltas of the events with that key.\<close>

lemma total_run:
  assumes "\<And>i. i < length es \<Longrightarrow> keeps (fold step (take i es) s)"
  shows "total_of (fold step es s) k =
    total_of s k + sum_list (map delta (filter (\<lambda>e. key e = Some k) es))"
  using assms
proof (induction es rule: rev_induct)
  case Nil
  then show ?case by simp
next
  case (snoc e es)
  have "keeps (fold step (take i es) s)" if "i < length es" for i
    using snoc.prems[of i] that by simp
  moreover have "keeps (fold step es s)"
    using snoc.prems[of "length es"] by simp
  ultimately show ?case
    using snoc.IH by (simp add: total_step add.assoc)
qed

text \<open>The total right after an event with that key.\<close>

lemma total_at:
  assumes "\<And>i. i < length es \<Longrightarrow> keeps (fold step (take i es) s)" and "i < length es"
    and same: "\<And>j. j \<le> i \<Longrightarrow> key (es ! j) = Some k \<longleftrightarrow> same j"
  shows "total_of (fold step (take (Suc i) es) s) k =
    total_of s k + sum_list (map (\<lambda>j. delta (es ! j)) (filter same [0..<Suc i]))"
proof -
  have "take (Suc i) es = map (\<lambda>j. es ! j) [0..<Suc i]"
    using assms(2) by (intro nth_equalityI) (auto simp del: upt_Suc)
  then have "map delta (filter (\<lambda>e. key e = Some k) (take (Suc i) es)) =
      map (\<lambda>j. delta (es ! j)) (filter (\<lambda>j. key (es ! j) = Some k) [0..<Suc i])"
    by (simp add: filter_map comp_def del: upt_Suc)
  also have "filter (\<lambda>j. key (es ! j) = Some k) [0..<Suc i] = filter same [0..<Suc i]"
    using same by (intro filter_cong) auto
  finally have deltas: "map delta (filter (\<lambda>e. key e = Some k) (take (Suc i) es)) =
      map (\<lambda>j. delta (es ! j)) (filter same [0..<Suc i])" .
  have "keeps (fold step (take j (take (Suc i) es)) s)" if "j < length (take (Suc i) es)" for j
    using assms(1)[of j] that by (simp add: min_absorb1)
  from total_run[OF this, of k] show ?thesis
    unfolding deltas .
qed

end

lemma totals_step_eq:
  "totals_step pkg h e t =
     (case counter_key pkg h e of
        None \<Rightarrow> t
      | Some i \<Rightarrow> mput i (mget_or 0 t i + delta_of pkg e) t)"
  by (auto simp: totals_step_def MessageAggregator_Write_def handleCounter_def counter_key_def
      counter_of_def delta_of_def Let_def split: option.split)

lemma totals_step_v2_eq:
  "totals_step_v2 value_string e t =
     (case counter_key_v2 value_string e of
        None \<Rightarrow> t
      | Some i \<Rightarrow>
          (let t' = (if length t > 10000 then [] else t)
           in mput i (mget_or 0 t' i + delta_of_v2 e) t'))"
  by (auto simp: totals_step_v2_def aggregate_def counter_key_v2_def delta_of_v2_def Let_def
      split: option.split)

interpretation v1_totals: counter_store
  "totals_step pkg h" "mget_or 0" "counter_key pkg h" "delta_of pkg" "\<lambda>_. True"
  by unfold_locales (auto simp: totals_step_eq split: option.split)

text \<open>The second aggregator keeps the contract until its map is full and it starts again.\<close>

interpretation v2_totals: counter_store
  "totals_step_v2 value_string" "mget_or 0" "counter_key_v2 value_string" delta_of_v2
  "\<lambda>t. length t \<le> 10000"
  by unfold_locales (auto simp: totals_step_v2_eq Let_def split: option.split)

section \<open>Totals of version 1\<close>

lemma MessageAggregator_Write_valid:
  assumes "valid pkg e"
  shows "\<exists>e' ms. MessageAggregator_Write pkg h e t = Some (e', totals_step pkg h e t, ms)"
  using assms
  by (auto simp: MessageAggregator_Write_def handleCounter_def totals_step_def valid_def Let_def
      split: option.split)

lemma MessageAggregator_Write_total:
  assumes "MessageAggregator_Write pkg h e t = Some (e', t', ms)" and "counter_of pkg e = Some c"
  shows "counter_key pkg h e = Some (counter_id h e (Some c))"
    and "e' = e\<lparr>e1_CounterEvent := Some (c\<lparr>ce_Total := Some (mget_or 0 t' (counter_id h e (Some c)))\<rparr>)\<rparr>"
  using assms
  by (auto simp: MessageAggregator_Write_def handleCounter_def counter_key_def counter_of_def
      Let_def split: option.splits if_splits)

lemma MessageAggregator_run_nth:
  assumes "\<forall>e \<in> set es. valid pkg e"
  shows "\<exists>outs. MessageAggregator_run pkg h es t = Some (outs, fold (totals_step pkg h) es t) \<and>
    length outs = length es \<and>
    (\<forall>i < length es. \<exists>ms. MessageAggregator_Write pkg h (es ! i) (fold (totals_step pkg h) (take i es) t) =
       Some (outs ! i, fold (totals_step pkg h) (take (Suc i) es) t, ms))"
  using assms
proof (induction es arbitrary: t)
  case Nil
  then show ?case by simp
next
  case (Cons e es)
  from Cons.prems obtain e' ms where
    w: "MessageAggregator_Write pkg h e t = Some (e', totals_step pkg h e t, ms)"
    using MessageAggregator_Write_valid by (metis list.set_intros(1))
  from Cons.IH[of "totals_step pkg h e t"] Cons.prems obtain outs where
    run: "MessageAggregator_run pkg h es (totals_step pkg h e t) =
            Some (outs, fold (totals_step pkg h) es (totals_step pkg h e t))"
    and len: "length outs = length es"
    and nth: "\<forall>i < length es. \<exists>ms. MessageAggregator_Write pkg h (es ! i)
         (fold (totals_step pkg h) (take i es) (totals_step pkg h e t)) =
       Some (outs ! i, fold (totals_step pkg h) (take (Suc i) es) (totals_step pkg h e t), ms)"
    by auto
  have "\<exists>ms. MessageAggregator_Write pkg h ((e # es) ! i) (fold (totals_step pkg h) (take i (e # es)) t) =
       Some ((e' # outs) ! i, fold (totals_step pkg h) (take (Suc i) (e # es)) t, ms)"
    if "i < length (e # es)" for i
    using that w nth by (cases i) auto
  with w run len show ?case
    by (intro exI[of _ "e' # outs"]) simp
qed

lemma counter_key_same:
  assumes "wf_heap h" and "counter_of pkg e' = Some c'"
    and inj: "inj_on sha1 (hashed_strings (tags_at h (e1_Tags e)) \<union> hashed_strings (tags_at h (e1_Tags e')))"
  shows "counter_key pkg h e = Some (counter_id h e' (Some c')) \<longleftrightarrow> same_counter pkg h e e'"
  using assms hash_elements_iff[OF _ _ inj]
  by (auto simp: counter_key_def same_counter_def counter_id_def hashTags_def split: option.split)

text \<open>
  C19: The total of a v1 counter. For every sequence of valid envelopes the message aggregator
  returns, and the counter at each position leaves it with a total that is the sum, in 64-bit
  arithmetic, of the deltas up to that position of the counters with the same origin, the same
  name and the same tags, in whatever order the tag maps are iterated; nothing else of the
  envelope changes. The tags are told apart by their SHA-1 digests, so the statement is for tags
  whose keys and values do not collide.
\<close>

theorem aggregator_totals:
  assumes "wf_heap h" and "\<forall>e \<in> set es. valid pkg e"
    and "inj_on sha1 (\<Union>e \<in> set es. hashed_strings (tags_at h (e1_Tags e)))"
  shows "\<exists>outs t. MessageAggregator_run pkg h es [] = Some (outs, t) \<and> length outs = length es \<and>
    (\<forall>i < length es. outs ! i =
       (case counter_of pkg (es ! i) of
          None \<Rightarrow> es ! i
        | Some c \<Rightarrow> (es ! i)\<lparr>e1_CounterEvent := Some (c\<lparr>ce_Total := Some
            (\<Sum>j \<leftarrow> filter (\<lambda>j. same_counter pkg h (es ! j) (es ! i)) [0..<Suc i]. delta_of pkg (es ! j))\<rparr>)\<rparr>))"
proof -
  from MessageAggregator_run_nth[OF assms(2), of h "[]"] obtain outs where
    run: "MessageAggregator_run pkg h es [] = Some (outs, fold (totals_step pkg h) es [])"
    and len: "length outs = length es"
    and nth: "\<forall>i < length es. \<exists>ms. MessageAggregator_Write pkg h (es ! i) (fold (totals_step pkg h) (take i es) []) =
       Some (outs ! i, fold (totals_step pkg h) (take (Suc i) es) [], ms)"
    by blast
  have "outs ! i =
       (case counter_of pkg (es ! i) of
          None \<Rightarrow> es ! i
        | Some c \<Rightarrow> (es ! i)\<lparr>e1_CounterEvent := Some (c\<lparr>ce_Total := Some
            (\<Sum>j \<leftarrow> filter (\<lambda>j. same_counter pkg h (es ! j) (es ! i)) [0..<Suc i]. delta_of pkg (es ! j))\<rparr>)\<rparr>)"
    if i: "i < length es" for i
  proof -
    from nth i obtain ms where w: "MessageAggregator_Write pkg h (es ! i) (fold (totals_step pkg h) (take i es) []) =
       Some (outs ! i, fold (totals_step pkg h) (take (Suc i) es) [], ms)" by blast
    show ?thesis
    proof (cases "counter_of pkg (es ! i)")
      case None
      moreover have "valid pkg (es ! i)" using assms(2) i by simp
      ultimately show ?thesis
        using w by (auto simp: MessageAggregator_Write_def counter_of_def valid_def split: if_splits)
    next
      case (Some c)
      have "counter_key pkg h (es ! j) = Some (counter_id h (es ! i) (Some c)) \<longleftrightarrow>
          same_counter pkg h (es ! j) (es ! i)" if "j \<le> i" for j
      proof -
        have "es ! j \<in> set es" and "es ! i \<in> set es" using that i by simp_all
        then show ?thesis
          by (intro counter_key_same[OF assms(1) Some] inj_on_subset[OF assms(3)]) blast
      qed
      from v1_totals.total_at[where s = "[]", OF _ i this]
      have "mget_or 0 (fold (totals_step pkg h) (take (Suc i) es) []) (counter_id h (es ! i) (Some c)) =
        (\<Sum>j \<leftarrow> filter (\<lambda>j. same_counter pkg h (es ! j) (es ! i)) [0..<Suc i]. delta_of pkg (es ! j))"
        by (simp add: mget_or_def[of _ "[]"] del: upt_Suc)
      with MessageAggregator_Write_total(2)[OF w Some] Some show ?thesis by (simp del: upt_Suc)
    qed
  qed
  with run len show ?thesis by blast
qed

lemma hits_simps:
  "counter_of agent_pkg (hits n r) = Some \<lparr>ce_Name = Some ''hits'', ce_Delta = Some n, ce_Total = None\<rparr>"
  "e1_Tags (hits n r) = Some r" "delta_of agent_pkg (hits n r) = n" "valid agent_pkg (hits n r)"
  "same_counter agent_pkg h (hits n r) (hits n' r') \<longleftrightarrow> set (tags_at h (Some r)) = set (tags_at h (Some r'))"
  by (simp_all add: hits_def counter_of_def delta_of_def GetEventType_def valid_def same_counter_def)

lemma hits_heap_simps:
  "wf_heap hits_heap" "tags_at hits_heap (Some 0) = [(''k'', ''k'')]" "tags_at hits_heap (Some (Suc 0)) = []"
  by (simp_all add: hits_heap_def wf_heap_def tags_at_def hget_def)

theorem aggregator_totals_witness:
  "map_option (map (\<lambda>e. Option.bind (e1_CounterEvent e) ce_Total) \<circ> fst)
     (MessageAggregator_run agent_pkg hits_heap [hits 5 0, hits 7 1, hits 9 0] []) =
   Some [Some 5, Some 7, Some 14]"
proof -
  let ?es = "[hits 5 0, hits 7 1, hits 9 0]"
  have "inj_on sha1 (\<Union>e \<in> set ?es. hashed_strings (tags_at hits_heap (e1_Tags e)))"
    unfolding inj_on_def hashed_strings_def by (simp add: hits_simps hits_heap_simps)
  with aggregator_totals[of hits_heap ?es agent_pkg] obtain outs t where
    run: "MessageAggregator_run agent_pkg hits_heap ?es [] = Some (outs, t)" and len: "length outs = 3"
    and out: "\<forall>i < length ?es. outs ! i =
       (case counter_of agent_pkg (?es ! i) of
          None \<Rightarrow> ?es ! i
        | Some c \<Rightarrow> (?es ! i)\<lparr>e1_CounterEvent := Some (c\<lparr>ce_Total := Some
            (\<Sum>j \<leftarrow> filter (\<lambda>j. same_counter agent_pkg hits_heap (?es ! j) (?es ! i)) [0..<Suc i].
               delta_of agent_pkg (?es ! j))\<rparr>)\<rparr>)"
    by (auto simp: hits_simps hits_heap_simps)
  have "outs = [outs ! 0, outs ! 1, outs ! 2]"
    using len by (intro nth_equalityI) (auto simp: less_Suc_eq numeral_3_eq_3 numeral_2_eq_2)
  then have "map f outs = [f (outs ! 0), f (outs ! 1), f (outs ! 2)]" for f :: "v1_envelope \<Rightarrow> uint64 option"
    by (metis list.simps(8,9))
  moreover have "Option.bind (e1_CounterEvent (outs ! 0)) ce_Total = Some 5"
    "Option.bind (e1_CounterEvent (outs ! 1)) ce_Total = Some 7"
    "Option.bind (e1_CounterEvent (outs ! 2)) ce_Total = Some 14"
    using out[rule_format, of 0] out[rule_format, of 1] out[rule_format, of 2]
    by (simp_all add: hits_simps hits_heap_simps numeral_2_eq_2)
  ultimately show ?thesis using run by simp
qed

section \<open>Totals of version 2\<close>

lemma CounterAggregator_loop_nth:
  "snd (CounterAggregator_loop vs es t) = fold (totals_step_v2 vs) es t"
  "length (fst (CounterAggregator_loop vs es t)) = length es"
  "i < length es \<Longrightarrow> fst (CounterAggregator_loop vs es t) ! i =
     fst (aggregate vs (es ! i) (fold (totals_step_v2 vs) (take i es) t))"
proof (induction es arbitrary: t i)
  case (Cons e es)
  { case 1 show ?case using Cons(1) by (simp add: totals_step_v2_def split: prod.split) (metis prod.sel(2)) }
  { case 2 show ?case using Cons(2) by (simp split: prod.split) (metis prod.sel(1)) }
  { case 3 show ?case using Cons(3) 3
      by (cases i) (simp_all add: totals_step_v2_def split: prod.split, metis prod.sel) }
qed auto

lemma CounterAggregator_loop_append:
  "CounterAggregator_loop vs (es @ es') t =
     (let (xs, t') = CounterAggregator_loop vs es t; (ys, t'') = CounterAggregator_loop vs es' t'
      in (xs @ ys, t''))"
  by (induction es arbitrary: t) (simp_all split: prod.split)

text \<open>The map of totals never holds more than 10001 counters.\<close>

lemma totals_v2_bounded:
  "length t \<le> 10001 \<Longrightarrow> length (fold (totals_step_v2 vs) es t) \<le> 10001"
  by (induction es arbitrary: t) (auto simp: totals_step_v2_eq Let_def length_mput split: option.split)

text \<open>A counter that arrives with a total instead of a delta loses it.\<close>

lemma aggregate_discards_total:
  assumes "GetCounter e = Some c" and "ct_Value c = Some (Counter_Total n)"
  shows "GetTotal (ct_Value (the (GetCounter (fst (aggregate vs e []))))) = 0"
  using assms by (simp add: aggregate_def Let_def mget_or_def)

lemma totals_v2_keys:
  "wf_map t \<Longrightarrow> wf_map (fold (totals_step_v2 vs) es t) \<and>
   Some ` fst ` set (fold (totals_step_v2 vs) es t) \<subseteq> Some ` fst ` set t \<union> counter_key_v2 vs ` set es"
proof (induction es arbitrary: t)
  case (Cons e es)
  have wf: "wf_map (totals_step_v2 vs e t)"
    using Cons.prems by (auto simp: totals_step_v2_eq Let_def split: option.split)
  have keys: "Some ` fst ` set (totals_step_v2 vs e t) \<subseteq> Some ` fst ` set t \<union> {counter_key_v2 vs e}"
    by (simp add: totals_step_v2_eq Let_def keys_mput split: option.split) blast
  from Cons.IH[OF wf] have "wf_map (fold (totals_step_v2 vs) (e # es) t)"
    and sub: "Some ` fst ` set (fold (totals_step_v2 vs) (e # es) t) \<subseteq>
      Some ` fst ` set (totals_step_v2 vs e t) \<union> counter_key_v2 vs ` set es"
    by simp_all
  then show ?case
    using order_trans[OF sub Un_mono[OF keys order_refl]] by (simp add: Un_assoc)
qed auto

lemma tag_text_set_iff:
  assumes "inj_on vs (snd ` set m \<union> snd ` set m')"
  shows "set (map (\<lambda>(k, v). (k, vs v)) m) = set (map (\<lambda>(k, v). (k, vs v)) m') \<longleftrightarrow> set m = set m'"
proof -
  have "inj_on (\<lambda>(k, v). (k, vs v)) (set m \<union> set m')"
  proof (rule inj_onI)
    fix p q
    assume pq: "p \<in> set m \<union> set m'" "q \<in> set m \<union> set m'"
      and eq: "(\<lambda>(k, v). (k, vs v)) p = (\<lambda>(k, v). (k, vs v)) q"
    from eq have "fst p = fst q" and vs: "vs (snd p) = vs (snd q)"
      by (simp_all add: case_prod_beta)
    moreover have "snd p \<in> snd ` set m \<union> snd ` set m'" "snd q \<in> snd ` set m \<union> snd ` set m'"
      using pq by blast+
    then have "snd p = snd q" by (rule inj_onD[OF assms vs])
    ultimately show "p = q" by (intro prod_eqI)
  qed
  then show ?thesis by (simp add: inj_on_image_eq_iff)
qed

lemma counter_key_v2_same:
  assumes "wf_map (deprecated_tags e)" "wf_map (deprecated_tags e')" and "GetCounter e' = Some c'"
    and "inj_on vs (snd ` set (deprecated_tags e) \<union> snd ` set (deprecated_tags e'))"
    and "inj_on sha1 (hashed_strings (map (\<lambda>(k, v). (k, vs v)) (deprecated_tags e)) \<union>
           hashed_strings (map (\<lambda>(k, v). (k, vs v)) (deprecated_tags e')))"
  shows "counter_key_v2 vs e = Some (counter_id_v2 vs e' c') \<longleftrightarrow> same_counter_v2 e e'"
proof -
  have "map fst (map (\<lambda>(k, v). (k, vs v)) m) = map fst m" for m :: "(string \<times> v2_value option) list"
    by (simp add: case_prod_beta comp_def)
  with assms(1,2) have "wf_map (map (\<lambda>(k, v). (k, vs v)) (deprecated_tags e))"
    "wf_map (map (\<lambda>(k, v). (k, vs v)) (deprecated_tags e'))"
    by metis+
  from hash_elements_iff[OF this assms(5)] tag_text_set_iff[OF assms(4)]
  have "hashTags_v2 vs (deprecated_tags e) = hashTags_v2 vs (deprecated_tags e') \<longleftrightarrow>
      set (deprecated_tags e) = set (deprecated_tags e')"
    unfolding hashTags_v2_def by simp
  with assms(3) show ?thesis
    by (auto simp: counter_key_v2_def same_counter_v2_def counter_id_v2_def simp del: GetCounter.simps
        split: option.split)
qed

lemma CounterAggregator_Write_batches:
  "fold (\<lambda>msgs s. snd (CounterAggregator_Write vs (\<lambda>m w. (err m, w @ m)) msgs s)) batches (t, w) =
   (snd (CounterAggregator_loop vs (concat batches) t), w @ fst (CounterAggregator_loop vs (concat batches) t))"
  by (induction batches arbitrary: t w)
     (simp_all add: CounterAggregator_Write_def CounterAggregator_loop_append split: prod.split)

text \<open>With few different counters the map of the second aggregator is never discarded.\<close>

lemma totals_v2_small:
  assumes few: "card (counter_key_v2 vs ` set es) \<le> 10000"
  shows "length (fold (totals_step_v2 vs) (take i es) []) \<le> 10000"
proof -
  let ?t = "fold (totals_step_v2 vs) (take i es) []"
  have "wf_map ?t" and sub: "Some ` fst ` set ?t \<subseteq> counter_key_v2 vs ` set (take i es)"
    using totals_v2_keys[of "[]" vs "take i es"] by simp_all
  have "Some ` set (map fst ?t) \<subseteq> counter_key_v2 vs ` set es"
    using order_trans[OF sub image_mono[OF set_take_subset]] by simp
  then have "card (Some ` set (map fst ?t)) \<le> card (counter_key_v2 vs ` set es)"
    by (intro card_mono) auto
  moreover have "card (Some ` set (map fst ?t)) = length ?t"
    using distinct_card[OF \<open>wf_map ?t\<close>] by (simp add: card_image del: set_map)
  ultimately show ?thesis using few by simp
qed

text \<open>
  The total of a v2 counter. Whatever batches are written and whatever the writer behind it
  returns, the aggregator passes on every envelope once and in order, and each counter leaves it
  with the sum of the deltas up to that position of the counters with the same name and tags, as
  long as there are not more than 10000 different counters. It holds for tags that do not collide
  under SHA-1 and a text form of the values that tells them apart.
\<close>

theorem aggregator_totals_v2:
  defines "texts \<equiv> \<lambda>vs e. map (\<lambda>(k, v). (k, vs v)) (deprecated_tags e)"
  assumes "es = concat batches" and "\<forall>e \<in> set es. wf_map (deprecated_tags e)"
    and "inj_on vs (\<Union>e \<in> set es. snd ` set (deprecated_tags e))"
    and "inj_on sha1 (\<Union>e \<in> set es. hashed_strings (texts vs e))"
    and few: "card (counter_key_v2 vs ` set es) \<le> 10000"
  shows "snd (fold (\<lambda>msgs s. snd (CounterAggregator_Write vs (\<lambda>m w. (err m, w @ m)) msgs s)) batches ([], [])) =
    map (\<lambda>i. case GetCounter (es ! i) of
               None \<Rightarrow> es ! i
             | Some c \<Rightarrow> (es ! i)\<lparr>e2_Message := Some (Envelope_Counter (c\<lparr>ct_Value := Some (Counter_Total
                 (\<Sum>j \<leftarrow> filter (\<lambda>j. same_counter_v2 (es ! j) (es ! i)) [0..<Suc i]. delta_of_v2 (es ! j)))\<rparr>))\<rparr>)
        [0..<length es]"
proof -
  note small = totals_v2_small[OF few]
  show ?thesis
    unfolding CounterAggregator_Write_batches assms(2)[symmetric]
  proof (rule nth_equalityI)
    fix i
    assume "i < length (snd (snd (CounterAggregator_loop vs es []), [] @ fst (CounterAggregator_loop vs es [])))"
    then have i: "i < length es" by (simp add: CounterAggregator_loop_nth)
    show "snd (snd (CounterAggregator_loop vs es []), [] @ fst (CounterAggregator_loop vs es [])) ! i =
      map (\<lambda>i. case GetCounter (es ! i) of
               None \<Rightarrow> es ! i
             | Some c \<Rightarrow> (es ! i)\<lparr>e2_Message := Some (Envelope_Counter (c\<lparr>ct_Value := Some (Counter_Total
                 (\<Sum>j \<leftarrow> filter (\<lambda>j. same_counter_v2 (es ! j) (es ! i)) [0..<Suc i]. delta_of_v2 (es ! j)))\<rparr>))\<rparr>)
        [0..<length es] ! i"
    proof (cases "GetCounter (es ! i)")
      case None
      then show ?thesis
        using i by (simp add: CounterAggregator_loop_nth aggregate_def del: GetCounter.simps)
    next
      case (Some c)
      have "counter_key_v2 vs (es ! j) = Some (counter_id_v2 vs (es ! i) c) \<longleftrightarrow>
          same_counter_v2 (es ! j) (es ! i)" if "j \<le> i" for j
      proof -
        have "es ! j \<in> set es" and "es ! i \<in> set es" using that i by simp_all
        then show ?thesis
          using assms(3) by (intro counter_key_v2_same[OF _ _ Some] inj_on_subset[OF assms(4)]
              inj_on_subset[OF assms(5)]) (auto simp: texts_def)
      qed
      from v2_totals.total_at[where s = "[]", OF small i this]
      have "mget_or 0 (totals_step_v2 vs (es ! i) (fold (totals_step_v2 vs) (take i es) [])) (counter_id_v2 vs (es ! i) c) =
        (\<Sum>j \<leftarrow> filter (\<lambda>j. same_counter_v2 (es ! j) (es ! i)) [0..<Suc i]. delta_of_v2 (es ! j))"
        using i by (simp add: take_Suc_conv_app_nth mget_or_def[of _ "[]"] del: upt_Suc)
      with Some i small[of i] show ?thesis
        by (simp add: CounterAggregator_loop_nth aggregate_def totals_step_v2_def Let_def
            del: GetCounter.simps upt_Suc)
    qed
  qed (simp add: CounterAggregator_loop_nth)
qed

theorem aggregator_totals_v2_witness:
  "map (\<lambda>e. map_option ct_Value (GetCounter e))
     (snd (fold (\<lambda>msgs s. snd (CounterAggregator_Write plain_text (\<lambda>m w. (None, w @ m)) msgs s))
        [[hits_v2 5 ''k'', hits_v2 6 ''k''], [hits_v2 7 ''k'']] ([], []))) =
   [Some (Some (Counter_Total 5)), Some (Some (Counter_Total 11)), Some (Some (Counter_Total 18))]"
proof -
  let ?es = "[hits_v2 5 ''k'', hits_v2 6 ''k'', hits_v2 7 ''k'']"
  have few: "card (counter_key_v2 plain_text ` set ?es) \<le> 10000"
    by (rule order_trans[OF card_image_le]) (auto simp: card_insert_if)
  have hash: "inj_on sha1 (\<Union>e \<in> set ?es. hashed_strings (map (\<lambda>(k, v). (k, plain_text v)) (deprecated_tags e)))"
    unfolding inj_on_def hashed_strings_def by (simp add: hits_v2_def deprecated_tags_def plain_text_def)
  have txts: "inj_on plain_text (\<Union>e \<in> set ?es. snd ` set (deprecated_tags e))"
    by (simp add: hits_v2_def deprecated_tags_def)
  have wf: "\<forall>e \<in> set ?es. wf_map (deprecated_tags e)"
    by (simp add: hits_v2_def deprecated_tags_def)
  have cat: "?es = concat [[hits_v2 5 ''k'', hits_v2 6 ''k''], [hits_v2 7 ''k'']]" by simp
  have same: "same_counter_v2 (hits_v2 n ''k'') (hits_v2 n' ''k'')" "delta_of_v2 (hits_v2 n ''k'') = n"
    "GetCounter (hits_v2 n ''k'') = Some \<lparr>ct_Name = ''hits'', ct_Value = Some (Counter_Delta n)\<rparr>" for n n'
    by (simp_all add: same_counter_v2_def delta_of_v2_def hits_v2_def deprecated_tags_def)
  have "[0..<length ?es] = [0, Suc 0, Suc (Suc 0)]" by (simp add: upt_conv_Cons)
  then show ?thesis
    unfolding aggregator_totals_v2[where err = "\<lambda>_. None", OF cat wf txts hash few]
    by (simp add: same del: GetCounter.simps) (simp add: hits_v2_def)
qed

section \<open>Well-typed envelopes\<close>

lemma valid_setDefaultTags [simp]: "valid pkg (setDefaultTags t e) = valid pkg e"
  by (simp add: valid_def setDefaultTags_def GetEventType_def split: event_type.split)

lemma valid_aggregated:
  assumes "valid pkg e" and "MessageAggregator_Write pkg h e t = Some (e', t', ms)"
  shows "valid pkg e'"
  using assms
  by (auto simp: MessageAggregator_Write_def handleCounter_def Let_def valid_def GetEventType_def
      split: if_splits option.splits event_type.splits)

lemma v1_write_progress:
  assumes "valid (vc_pkg cfg) e"
  shows "\<exists>s'. v1_write cfg e s = Some s' \<and> va_heap s' = va_heap s \<and>
    (va_sent s' = va_sent s \<or>
     (\<exists>e' b cs. va_sent s' = va_sent s @ [(e', b, cs)] \<and> well_typed cfg e' \<and>
        vc_marshal cfg (va_heap s) e' = Inr b))"
proof -
  obtain e1 ms where w: "MessageAggregator_Write (vc_pkg cfg) (va_heap s) e (va_totals s) =
      Some (e1, totals_step (vc_pkg cfg) (va_heap s) e (va_totals s), ms)"
    using MessageAggregator_Write_valid[OF assms] by blast
  have "well_typed cfg (setDefaultTags (vc_tagger cfg) e1)"
    using valid_aggregated[OF assms w]
    by (simp add: well_typed_def) (simp add: setDefaultTags_def setDefault_def split: option.split)
  with w show ?thesis
    by (auto simp: v1_write_def EventMarshaller_Write_def Let_def split: sum.split)
qed

lemma UnmarshallMessage_valid:
  "UnmarshallMessage pkg names unmarshal h m = (Inr (e, h'), ms) \<Longrightarrow> valid pkg e"
  by (auto simp: UnmarshallMessage_def split: sum.splits prod.splits if_splits option.splits)

lemma v1_step_progress:
  assumes "\<And>e. a = Emit (Inr e) \<Longrightarrow> valid (vc_pkg cfg) e"
    and "\<forall>(e, b, cs) \<in> set (va_sent s). well_typed cfg e"
  shows "\<exists>s'. v1_step cfg a s = Some s' \<and> (\<forall>(e, b, cs) \<in> set (va_sent s'). well_typed cfg e)"
proof (cases a)
  case (Datagram data)
  define s1 where "s1 = s\<lparr>va_metrics := va_metrics s @
            [BatchIncrementCounter (vc_contextName cfg @ ''.receivedMessageCount''),
             BatchAddCounter (vc_contextName cfg @ ''.receivedByteCount'') (of_nat (length data))]\<rparr>"
  obtain r ms where u: "UnmarshallMessage (vc_pkg cfg) (vc_names cfg) (vc_unmarshal cfg) (va_heap s1) data = (r, ms)"
    by fastforce
  show ?thesis
  proof (cases r)
    case (Inl err)
    with u assms(2) Datagram show ?thesis
      by (simp add: NetworkReader_turn_def EventUnmarshaller_Write_def s1_def[symmetric]) (simp add: s1_def)
  next
    case (Inr p)
    obtain e h' where p: "p = (e, h')" by (cases p)
    with u Inr have "valid (vc_pkg cfg) e" by (blast intro: UnmarshallMessage_valid)
    from v1_write_progress[OF this, of "s1\<lparr>va_heap := h', va_metrics := va_metrics s1 @ ms\<rparr>"]
    show ?thesis
      using u Inr p assms(2) Datagram
      by (auto simp: NetworkReader_turn_def EventUnmarshaller_Write_def s1_def[symmetric]) (auto simp: s1_def)
  qed
next
  case (Emit wrapped)
  show ?thesis
  proof (cases wrapped)
    case (Inl err)
    with Emit assms(2) show ?thesis by (simp add: EventWriter_Emit_def)
  next
    case (Inr e)
    with assms(1) Emit v1_write_progress[of cfg e s] show ?thesis
      using assms(2) by (auto simp: EventWriter_Emit_def)
  qed
qed

text \<open>
  C35: Well-typed envelopes do not go wrong. Whatever datagrams arrive, malformed ones and ones
  whose event does not match their type included, and whatever events the agent emits itself,
  the v1 path of the agent never panics, and every envelope it hands to the doppler pool is well
  typed: it has the event that its type announces and all four base tags. What protobuf decodes
  and encodes is arbitrary; the agent's own events, wrapped by dropsonde, match their type.
\<close>

theorem agent_well_typed:
  assumes "\<And>e. Emit (Inr e) \<in> set acts \<Longrightarrow> valid (vc_pkg cfg) e"
  shows "\<exists>s. foldM (v1_step cfg) acts v1_agent_start = Some s \<and>
    (\<forall>(e, b, cs) \<in> set (va_sent s). well_typed cfg e)"
proof (rule foldM_inv[where I = "\<lambda>s. \<forall>(e, b, cs) \<in> set (va_sent s). well_typed cfg e"])
  show "\<forall>(e, b, cs) \<in> set (va_sent v1_agent_start). well_typed cfg e"
    by (simp add: v1_agent_start_def)
next
  fix a and s :: v1_agent
  assume "a \<in> set acts" and typed: "\<forall>(e, b, cs) \<in> set (va_sent s). well_typed cfg e"
  then have "valid (vc_pkg cfg) e" if "a = Emit (Inr e)" for e
    using that assms by simp
  then show "\<exists>s'. v1_step cfg a s = Some s' \<and> (\<forall>(e, b, cs) \<in> set (va_sent s'). well_typed cfg e)"
    using typed by (rule v1_step_progress)
qed

theorem agent_well_typed_witness:
  "\<exists>s. foldM (v1_step sample_agent)
         [Datagram ''bad'', Datagram ''mistyped'', Datagram ''ok'', Emit (Inl ''no event''), Emit (Inr (hits 1 0))]
         v1_agent_start = Some s \<and>
    length (va_sent s) = 2 \<and> (\<forall>(e, b, cs) \<in> set (va_sent s). well_typed sample_agent e)"
proof -
  let ?acts = "[Datagram ''bad'', Datagram ''mistyped'', Datagram ''ok'', Emit (Inl ''no event''), Emit (Inr (hits 1 0))]"
  have "valid (vc_pkg sample_agent) e" if "Emit (Inr e) \<in> set ?acts" for e
    using that by (auto simp: sample_agent_def hits_simps)
  from agent_well_typed[OF this] obtain s where
    run: "foldM (v1_step sample_agent) ?acts v1_agent_start = Some s"
    and typed: "\<forall>(e, b, cs) \<in> set (va_sent s). well_typed sample_agent e"
    by blast
  from run have "length (va_sent s) = 2"
    by (auto simp: v1_agent_start_def NetworkReader_turn_def EventUnmarshaller_Write_def UnmarshallMessage_def
        sample_agent_def v1_write_def MessageAggregator_Write_def handleCounter_def EventMarshaller_Write_def
        EventWriter_Emit_def incrementReceiveCount_def metricNames_def mget_or_def Let_def valid_def hits_def
        GetEventType_def)
  with run typed show ?thesis by blast
qed

end
