(* ===== verification/Consumer_Streams.thy ===== *)
theory Consumer_Streams
  imports Metron_Counters Grpc_Connector "HOL-Library.Sublist" "HOL-Library.Multiset"
begin

text \<open>
  One consumer of the connector in \<open>plumbing/grpc_connector.go\<close>: \<open>Subscribe\<close> starts a goroutine for
  each doppler, all of them write what they receive to one channel (\<open>readStream\<close>), and \<open>Recv\<close> takes
  it out again. The goroutines and the consumer are one machine. A payload is kept with the number
  of its goroutine, which the code does not have, to speak about where it came from.
\<close>

section \<open>The machine\<close>

text \<open>
  A goroutine of \<open>readStream\<close> waits for the stream, offers a payload to the channel, or has written
  it and is about to count it.
\<close>

datatype reader_pc = R_Recv | R_Offer bytes | R_Count

record consumer =
  co_readers :: "reader_pc list"
  co_data :: "(nat \<times> bytes) list"
  co_cancelled :: bool
  co_read :: "(nat \<times> bytes) list"
  co_got :: "(nat \<times> bytes) list"
  co_ingress :: uint64
  co_calls :: "metric_call list"

definition Subscribe_consumer :: "nat \<Rightarrow> consumer" where
  "Subscribe_consumer dopplers =
     \<lparr>co_readers = replicate dopplers R_Recv, co_data = [], co_cancelled = False, co_read = [], co_got = [],
      co_ingress = 0, co_calls = []\<rparr>"

text \<open>
  The stream of a doppler returns a payload; the goroutine's \<open>select\<close> takes the channel or the end of
  the context; it counts; the consumer calls \<open>Recv\<close>; the context ends.
\<close>

datatype co_action = CO_Read nat bytes | CO_Put nat | CO_Leave nat | CO_Count nat | CO_Recv | CO_Cancel

definition readStream_step :: "nat \<Rightarrow> co_action \<Rightarrow> consumer \<Rightarrow> consumer" where
  "readStream_step bufferSize a s =
     (case a of
        CO_Read d payload \<Rightarrow>
          (if d < length (co_readers s) \<and> co_readers s ! d = R_Recv
           then s\<lparr>co_readers := (co_readers s)[d := R_Offer payload], co_read := co_read s @ [(d, payload)]\<rparr> else s)
      | CO_Put d \<Rightarrow>
          (if d < length (co_readers s)
           then case co_readers s ! d of
                  R_Offer payload \<Rightarrow>
                    (case try_send bufferSize (d, payload) (co_data s) of
                       Some q \<Rightarrow> s\<lparr>co_readers := (co_readers s)[d := R_Count], co_data := q\<rparr>
                     | None \<Rightarrow> s)
                | _ \<Rightarrow> s
           else s)
      | CO_Leave d \<Rightarrow>
          (if d < length (co_readers s) \<and> co_cancelled s
           then case co_readers s ! d of R_Offer _ \<Rightarrow> s\<lparr>co_readers := (co_readers s)[d := R_Recv]\<rparr> | _ \<Rightarrow> s
           else s)
      | CO_Count d \<Rightarrow>
          (if d < length (co_readers s) \<and> co_readers s ! d = R_Count
           then s\<lparr>co_readers := (co_readers s)[d := R_Recv], co_ingress := co_ingress s + 1,
                  co_calls := co_calls s @
                    [Chainer_Increment (SetTag ''protocol'' ''grpc'' (BatchCounter ''listeners.receivedEnvelopes''))]\<rparr>
           else s)
      | _ \<Rightarrow> s)"

text \<open>
  \<open>Recv\<close>: nothing writes to the channel of errors, so it returns data or the error of the context.
  With both ready either may be taken; a call that returns the error changes nothing.
\<close>

definition consumer_Recv :: "consumer \<Rightarrow> consumer" where
  "consumer_Recv s = (case co_data s of [] \<Rightarrow> s | p # q \<Rightarrow> s\<lparr>co_data := q, co_got := co_got s @ [p]\<rparr>)"

fun co_step :: "nat \<Rightarrow> co_action \<Rightarrow> consumer \<Rightarrow> consumer" where
  "co_step bufferSize CO_Recv s = consumer_Recv s"
| "co_step bufferSize CO_Cancel s = s\<lparr>co_cancelled := True\<rparr>"
| "co_step bufferSize a s = readStream_step bufferSize a s"

section \<open>Subscribing\<close>

text \<open>
  \<open>Subscribe\<close>: a free slot among the consumers, and a goroutine for each client; \<open>order\<close> is the
  order in which they come to begin.
\<close>

definition Connector_Subscribe ::
    "nat \<Rightarrow> nat list \<Rightarrow> bool option list \<Rightarrow> connector \<Rightarrow> (bool option list \<times> connector) result" where
  "Connector_Subscribe cs order slots c =
     (case addConsumerState slots of
        (Inl err, _) \<Rightarrow> Inl err
      | (Inr i, slots') \<Rightarrow> Inr (slots', fold (consume_begin cs) order c))"

section \<open>Definitions for the properties\<close>

definition sent_by :: "nat \<Rightarrow> (nat \<times> bytes) list \<Rightarrow> bytes list" where
  "sent_by d ps = map snd (filter (\<lambda>p. fst p = d) ps)"

fun held :: "reader_pc \<Rightarrow> bytes list" where
  "held (R_Offer payload) = [payload]"
| "held _ = []"

definition reader_at :: "consumer \<Rightarrow> nat \<Rightarrow> reader_pc" where
  "reader_at s d = (if d < length (co_readers s) then co_readers s ! d else R_Recv)"

definition counting :: "consumer \<Rightarrow> nat" where
  "counting s = length (filter (\<lambda>pc. pc = R_Count) (co_readers s))"

definition through :: "consumer \<Rightarrow> (nat \<times> bytes) list" where
  "through s = co_got s @ co_data s"

definition co_inv :: "nat \<Rightarrow> consumer \<Rightarrow> bool" where
  "co_inv bufferSize s \<longleftrightarrow>
     (\<forall>d. subseq (sent_by d (through s) @ held (reader_at s d)) (sent_by d (co_read s))) \<and>
     (\<not> co_cancelled s \<longrightarrow> (\<forall>d. sent_by d (co_read s) = sent_by d (through s) @ held (reader_at s d))) \<and>
     length (co_data s) \<le> bufferSize \<and>
     co_ingress s + of_nat (counting s) = of_nat (length (through s)) \<and>
     co_ingress s = of_nat (length (co_calls s))"

section \<open>Streams are merged without loss\<close>

lemma sent_by_append [simp]: "sent_by d (xs @ ys) = sent_by d xs @ sent_by d ys"
  by (simp add: sent_by_def)

lemma sent_by_single [simp]: "sent_by d [(d', b)] = (if d' = d then [b] else [])"
  by (simp add: sent_by_def)

lemma filter_update:
  "i < length xs \<Longrightarrow>
     length (filter P (xs[i := v])) + (if P (xs ! i) then 1 else 0) = length (filter P xs) + (if P v then 1 else 0)"
proof (induction xs arbitrary: i)
  case (Cons x xs)
  then show ?case
  proof (cases i)
    case (Suc j)
    then show ?thesis using Cons(1)[of j] Cons(2) by (cases "P x") simp_all
  qed simp
qed simp

text \<open>How a step of one goroutine changes what the invariant speaks about.\<close>

lemma reader_update:
  assumes "d < length (co_readers s)" and "co_readers s' = (co_readers s)[d := pc]"
  shows "reader_at s' d' = (if d' = d then pc else reader_at s d')"
    and "counting s' + (if reader_at s d = R_Count then 1 else 0) = counting s + (if pc = R_Count then 1 else 0)"
  using assms filter_update[of d "co_readers s" "\<lambda>pc. pc = R_Count" pc]
  by (auto simp: reader_at_def counting_def)

lemma co_inv_start: "co_inv bufferSize (Subscribe_consumer n)"
  by (simp add: co_inv_def Subscribe_consumer_def through_def sent_by_def reader_at_def counting_def)

lemma co_inv_read:
  assumes "co_inv n s" and d: "d < length (co_readers s)" and pc: "reader_at s d = R_Recv"
    and s': "s' = s\<lparr>co_readers := (co_readers s)[d := R_Offer b], co_read := co_read s @ [(d, b)]\<rparr>"
  shows "co_inv n s'"
proof -
  have up: "reader_at s' d' = (if d' = d then R_Offer b else reader_at s d')" "counting s' = counting s" for d'
    using reader_update[OF d, of s' "R_Offer b"] pc by (simp_all add: s')
  have same: "through s' = through s" "co_data s' = co_data s" "co_ingress s' = co_ingress s" "co_calls s' = co_calls s"
      "co_cancelled s' = co_cancelled s" "co_read s' = co_read s @ [(d, b)]"
    by (simp_all add: s' through_def)
  have "subseq (sent_by d' (through s') @ held (reader_at s' d')) (sent_by d' (co_read s'))" for d'
    using assms(1)[unfolded co_inv_def, THEN conjunct1, rule_format, of d'] pc
    by (auto simp: same up intro: list_emb_append_mono)
  with assms(1) pc show ?thesis by (auto simp: co_inv_def same up)
qed

lemma co_inv_put:
  assumes "co_inv n s" and d: "d < length (co_readers s)" and pc: "reader_at s d = R_Offer b" and room: "length (co_data s) < n"
    and s': "s' = s\<lparr>co_readers := (co_readers s)[d := R_Count], co_data := co_data s @ [(d, b)]\<rparr>"
  shows "co_inv n s'"
proof -
  have up: "reader_at s' d' = (if d' = d then R_Count else reader_at s d')" "counting s' = counting s + 1" for d'
    using reader_update[OF d, of s' R_Count] pc by (simp_all add: s')
  have same: "through s' = through s @ [(d, b)]" "co_data s' = co_data s @ [(d, b)]" "co_ingress s' = co_ingress s"
      "co_calls s' = co_calls s" "co_cancelled s' = co_cancelled s" "co_read s' = co_read s"
    by (simp_all add: s' through_def)
  have "sent_by d' (through s') @ held (reader_at s' d') = sent_by d' (through s) @ held (reader_at s d')" for d'
    using pc by (auto simp: same up)
  with assms(1) room show ?thesis unfolding co_inv_def by (simp add: same(2-) up(2)) (auto simp: same(1))
qed

lemma co_inv_leave:
  assumes "co_inv n s" and d: "d < length (co_readers s)" and pc: "reader_at s d = R_Offer b" and "co_cancelled s"
    and s': "s' = s\<lparr>co_readers := (co_readers s)[d := R_Recv]\<rparr>"
  shows "co_inv n s'"
proof -
  have up: "reader_at s' d' = (if d' = d then R_Recv else reader_at s d')" "counting s' = counting s" for d'
    using reader_update[OF d, of s' R_Recv] pc by (simp_all add: s')
  have same: "through s' = through s" "co_data s' = co_data s" "co_ingress s' = co_ingress s" "co_calls s' = co_calls s"
      "co_cancelled s' = True" "co_read s' = co_read s"
    using assms(4) by (simp_all add: s' through_def)
  have "subseq (sent_by d' (through s)) (sent_by d' (co_read s))" for d'
    using assms(1)[unfolded co_inv_def, THEN conjunct1, rule_format, of d'] by (rule subseq_order.trans[OF subseq_rev_drop_many[OF subseq_order.order_refl]])
  with assms(1) show ?thesis by (auto simp: co_inv_def same up)
qed

lemma co_inv_count:
  assumes "co_inv n s" and d: "d < length (co_readers s)" and pc: "reader_at s d = R_Count"
    and s': "s' = s\<lparr>co_readers := (co_readers s)[d := R_Recv], co_ingress := co_ingress s + 1, co_calls := co_calls s @ [c]\<rparr>"
  shows "co_inv n s'"
proof -
  have up: "held (reader_at s' d') = held (reader_at s d')" "counting s = counting s' + 1" for d'
    using reader_update[OF d, of s' R_Recv] pc by (simp_all add: s')
  have same: "through s' = through s" "co_data s' = co_data s" "co_ingress s' = co_ingress s + 1" "co_calls s' = co_calls s @ [c]"
      "co_cancelled s' = co_cancelled s" "co_read s' = co_read s"
    by (simp_all add: s' through_def)
  from assms(1) show ?thesis by (auto simp: co_inv_def same up algebra_simps)
qed

lemma co_inv_same:
  assumes "co_inv n s" and "through s' = through s" "co_readers s' = co_readers s" "co_read s' = co_read s"
    "co_ingress s' = co_ingress s" "co_calls s' = co_calls s" "length (co_data s') \<le> length (co_data s)"
    "co_cancelled s \<Longrightarrow> co_cancelled s'"
  shows "co_inv n s'"
proof -
  have "reader_at s' d = reader_at s d" "counting s' = counting s" for d
    using assms(3) by (simp_all add: reader_at_def counting_def)
  with assms show ?thesis by (auto simp: co_inv_def)
qed

lemma co_inv_step: "co_inv n s \<Longrightarrow> co_inv n (co_step n a s)"
proof (cases a)
  case (CO_Read d b)
  then show "co_inv n s \<Longrightarrow> ?thesis"
    using co_inv_read[of n s d _ b, OF _ _ _ refl] by (auto simp: readStream_step_def reader_at_def)
next
  case (CO_Put d)
  then show "co_inv n s \<Longrightarrow> ?thesis"
    using co_inv_put[of n s d, OF _ _ _ _ refl]
    by (auto simp: readStream_step_def reader_at_def try_send_def split: reader_pc.split)
next
  case (CO_Leave d)
  then show "co_inv n s \<Longrightarrow> ?thesis"
    using co_inv_leave[of n s d, OF _ _ _ _ refl] by (auto simp: readStream_step_def reader_at_def split: reader_pc.split)
next
  case (CO_Count d)
  then show "co_inv n s \<Longrightarrow> ?thesis"
    using co_inv_count[of n s d, OF _ _ _ refl] by (auto simp: readStream_step_def reader_at_def)
next
  case CO_Recv
  then show "co_inv n s \<Longrightarrow> ?thesis"
    by (auto simp: consumer_Recv_def through_def split: list.split intro: co_inv_same)
next
  case CO_Cancel
  then show "co_inv n s \<Longrightarrow> ?thesis" by (auto simp: through_def intro: co_inv_same)
qed

lemma co_inv_run: "co_inv n s \<Longrightarrow> co_inv n (fold (co_step n) as s)"
  by (induction as arbitrary: s) (simp_all add: co_inv_step)

text \<open>
  C11: However the streams of the dopplers, the end of the context and the calls of \<open>Recv\<close> interleave,
  the payloads of each doppler come out of \<open>Recv\<close> in the order in which its stream returned them.
  Until the context ends none is lost: what a doppler's stream has returned has come out, waits in
  the channel, or is held by its goroutine. The channel stays within its size, and the ingress
  counter is the number of payloads that have passed into the channel, less those about to be counted.
\<close>

theorem consumer_streams_merge:
  fixes as :: "co_action list" and n dopplers :: nat
  defines "s \<equiv> fold (co_step n) as (Subscribe_consumer dopplers)"
  shows "subseq (sent_by d (co_got s)) (sent_by d (co_read s)) \<and>
    (\<not> co_cancelled s \<longrightarrow>
       sent_by d (co_read s) = sent_by d (co_got s) @ sent_by d (co_data s) @ held (reader_at s d)) \<and>
    length (co_data s) \<le> n \<and>
    co_ingress s + of_nat (counting s) = of_nat (length (co_got s) + length (co_data s)) \<and>
    co_ingress s = of_nat (length (co_calls s))"
proof -
  have inv: "co_inv n s" unfolding s_def by (rule co_inv_run[OF co_inv_start])
  then have "subseq (sent_by d (co_got s) @ sent_by d (co_data s) @ held (reader_at s d)) (sent_by d (co_read s))"
    by (simp add: co_inv_def through_def)
  then have "subseq (sent_by d (co_got s)) (sent_by d (co_read s))"
    by (rule subseq_order.trans[OF subseq_rev_drop_many[OF subseq_order.order_refl]])
  with inv show ?thesis unfolding co_inv_def through_def length_append sent_by_append append_assoc by blast
qed

theorem consumer_streams_merge_witness:
  "let s = fold (co_step 1) [CO_Read 0 ''a'', CO_Read 1 ''b'', CO_Put 1, CO_Put 0, CO_Recv, CO_Put 0, CO_Count 1, CO_Recv]
       (Subscribe_consumer 2)
   in \<not> co_cancelled s \<and> co_got s = [(1, ''b''), (0, ''a'')] \<and> sent_by 0 (co_read s) = sent_by 0 (co_got s) \<and>
      co_ingress s + 1 = 2"
proof -
  define as where "as = [CO_Read 0 ''a'', CO_Read 1 ''b'', CO_Put 1, CO_Put 0, CO_Recv, CO_Put 0, CO_Count 1, CO_Recv]"
  define s where "s = fold (co_step 1) as (Subscribe_consumer 2)"
  have run: "\<not> co_cancelled s" "co_got s = [(1, ''b''), (0, ''a'')]" "co_data s = []" "held (reader_at s 0) = []" "counting s = 1"
    by (simp_all add: s_def as_def Subscribe_consumer_def readStream_step_def consumer_Recv_def try_send_def numeral_2_eq_2
        reader_at_def counting_def)
  from consumer_streams_merge[of 0 1 as 2, folded s_def] run
  have "sent_by 0 (co_read s) = sent_by 0 (co_got s)" "co_ingress s + 1 = 2"
    by (simp_all add: sent_by_def)
  with run show ?thesis unfolding Let_def as_def[symmetric] s_def[symmetric] by simp
qed

text \<open>A consumer that goes on receiving makes room: no goroutine is blocked for good.\<close>

lemma Recv_makes_room:
  assumes "0 < n" and "length (co_data s) \<le> n" and "d < length (co_readers s)" and "co_readers s ! d = R_Offer b"
  shows "last (co_data (co_step n (CO_Put d) (co_step n CO_Recv s))) = (d, b)"
  using assms
  by (auto simp: consumer_Recv_def readStream_step_def try_send_def split: list.split)

section \<open>A consumer is connected to every doppler\<close>

lemma addConsumerState_slot:
  "case addConsumerState slots of
     (Inr i, slots') \<Rightarrow> i < length slots \<and> slots ! i \<noteq> Some False \<and> slots' = slots[i := Some False]
   | (Inl err, slots') \<Rightarrow> slots' = slots \<and> set slots \<subseteq> {Some False}"
  by (induction slots) (auto split: prod.splits sum.splits)

lemma consume_begin_frame:
  assumes "a < length (cn_store c)"
  shows "cn_clients (consume_begin cs a c) = cn_clients c" and "client_uri (consume_begin cs a c) = client_uri c"
    and "set (cn_seen (consume_begin cs a c)) = insert (cs, client_uri c a) (set (cn_seen c))"
    and "(cs, client_uri c a) \<notin> set (cn_seen c) \<Longrightarrow> set (cn_active (consume_begin cs a c)) = insert (cs, a) (set (cn_active c))"
  using assms
  by (auto simp: consume_begin_def tryAddDoppler_def client_uri_def fun_eq_iff nth_list_update Let_def)

lemma begin_all:
  assumes "cn_ok c" and "set order \<subseteq> set (cn_clients c)" and "distinct order"
    and "\<forall>a \<in> set order. (cs, client_uri c a) \<notin> set (cn_seen c)"
  shows "cn_ok (fold (consume_begin cs) order c) \<and>
    set (cn_active (fold (consume_begin cs) order c)) = set (cn_active c) \<union> Pair cs ` set order"
  using assms
proof (induction order arbitrary: c)
  case (Cons a order)
  note d = cn_okD[OF Cons(2)]
  have a: "a \<in> set (cn_clients c)" using Cons(3) by simp
  note frame = consume_begin_frame[OF d(3)[OF a], of cs]
  have "client_uri c b \<noteq> client_uri c a" if "b \<in> set order" for b
    using client_inj[OF Cons(2), of a b] that Cons(3,4) by auto
  with Cons frame begin_ok(1)[OF Cons(2) a, of cs] show ?case by (auto simp: frame)
qed simp

text \<open>
  A consumer that is not refused gets a goroutine of its own for every doppler that the connector
  knows, in whatever order they begin; it is refused only if every slot holds a live consumer.
\<close>

lemma Connector_Subscribe_connects:
  assumes "cn_ok c" and "set order = set (cn_clients c)" and "distinct order" and "\<forall>u. (cs, u) \<notin> set (cn_seen c)"
  shows "case Connector_Subscribe cs order slots c of
      Inl err \<Rightarrow> set slots \<subseteq> {Some False}
    | Inr (slots', c') \<Rightarrow> cn_ok c' \<and> set (cn_active c') = set (cn_active c) \<union> Pair cs ` set (cn_clients c) \<and>
        (\<exists>i < length slots. slots ! i \<noteq> Some False \<and> slots' = slots[i := Some False])"
  using begin_all[of c order cs] assms addConsumerState_slot[of slots]
  by (auto simp: Connector_Subscribe_def split: prod.splits sum.splits)

text \<open>A query has the answers of all dopplers, whatever the order in which they arrive.\<close>

lemma query_all_complete:
  assumes "mset arrival = mset (cn_clients c)"
  shows "mset (fst (query_all ask deadline arrival c)) =
    mset (concat (map (\<lambda>a. case ask (client_uri c a) of None \<Rightarrow> [] | Some payload \<Rightarrow> payload) (cn_clients c)))"
  by (simp add: query_all_def client_uri_def mset_concat sum_mset_sum_list[symmetric] assms comp_def flip: mset_map)
     (metis assms mset_map)

end
