(* ===== verification/Finder.thy ===== *)
theory Finder
  imports Go_Numbers
begin

text \<open>
  How dopplers announce themselves in the store and how clients find them, package
  \<open>dopplerservice\<close>: the announced value and key (\<open>announcer.go\<close>) and the finder that turns store
  events into lists of addresses (\<open>finder.go\<close>).

  The JSON encoding of the announced value and its decoding are arguments. \<open>None\<close> is a panic, or
  the send of an event on the full channel, which blocks.
\<close>

section \<open>The announcer\<close>

definition META_ROOT :: string where
  "META_ROOT = ''/doppler/meta''"

definition LEGACY_ROOT :: string where
  "LEGACY_ROOT = ''/healthstatus/doppler''"

record announce_config =
  dp_Zone :: string
  dp_JobName :: string
  dp_Index :: string
  dp_IncomingUDPPort :: uint32
  dp_OutgoingPort :: uint32

text \<open>A node of the store, with its children if it is a directory.\<close>

datatype tree_node = Tree_Node (tn_Key: string) (tn_Value: string) (tn_Dir: bool) (tn_ChildNodes: "tree_node list")

text \<open>\<open>json.Marshal\<close> of version and endpoints.\<close>

definition buildDopplerMeta :: "(nat \<times> string list \<Rightarrow> string) \<Rightarrow> string \<Rightarrow> announce_config \<Rightarrow> string" where
  "buildDopplerMeta marshal ip cfg =
     marshal (1, [''udp://'' @ ip @ '':'' @ itoa (uint (dp_IncomingUDPPort cfg)),
                  ''ws://'' @ ip @ '':'' @ itoa (uint (dp_OutgoingPort cfg))])"

definition announce_key :: "string \<Rightarrow> announce_config \<Rightarrow> string" where
  "announce_key base cfg = base @ ''/'' @ dp_Zone cfg @ ''/'' @ dp_JobName cfg @ ''/'' @ dp_Index cfg"

definition Announce :: "(nat \<times> string list \<Rightarrow> string) \<Rightarrow> string \<Rightarrow> announce_config \<Rightarrow> tree_node" where
  "Announce marshal ip cfg = Tree_Node (announce_key META_ROOT cfg) (buildDopplerMeta marshal ip cfg) False []"

definition AnnounceLegacy :: "string \<Rightarrow> announce_config \<Rightarrow> tree_node" where
  "AnnounceLegacy ip cfg = Tree_Node (announce_key LEGACY_ROOT cfg) ip False []"

section \<open>The finder\<close>

record finder_event =
  fe_GRPCDopplers :: "string list"
  fe_UDPDopplers :: "string list"
  fe_TLSDopplers :: "string list"
  fe_TCPDopplers :: "string list"

definition no_event :: finder_event where
  "no_event = \<lparr>fe_GRPCDopplers = [], fe_UDPDopplers = [], fe_TLSDopplers = [], fe_TCPDopplers = []\<rparr>"

definition Event_empty :: "finder_event \<Rightarrow> bool" where
  "Event_empty e \<longleftrightarrow> length (fe_UDPDopplers e) = 0 \<and> length (fe_TCPDopplers e) = 0 \<and> length (fe_TLSDopplers e) = 0"

record finder =
  fd_legacyPort :: int
  fd_grpcPort :: int
  fd_protocols :: "string list"
  fd_preferredDopplerZone :: string
  fd_metaEndpoints :: "(string, string list) gomap"
  fd_legacyEndpoints :: "(string, string) gomap"
  fd_events :: "finder_event list"

definition NewFinder :: "int \<Rightarrow> int \<Rightarrow> string list \<Rightarrow> string \<Rightarrow> finder" where
  "NewFinder legacyPort grpcPort protocols zone =
     \<lparr>fd_legacyPort = legacyPort, fd_grpcPort = grpcPort, fd_protocols = protocols,
      fd_preferredDopplerZone = zone, fd_metaEndpoints = [], fd_legacyEndpoints = [], fd_events = []\<rparr>"

definition hasAddrs :: "finder \<Rightarrow> bool" where
  "hasAddrs f \<longleftrightarrow> length (fd_legacyEndpoints f) > 0 \<or> length (fd_metaEndpoints f) > 0"

text \<open>
  What \<open>json.Unmarshal\<close> and the type assertions behind it make of a value: an error, a panic, or
  the endpoints.
\<close>

datatype meta_value = Meta_Error | Meta_Panic | Meta_Endpoints "string list"

datatype endpoints = Endpoints "string list" | LegacyAddr string

text \<open>A parser: \<open>None\<close> is a panic, \<open>Inl\<close> an error.\<close>

type_synonym value_parser = "string \<Rightarrow> endpoints result option"

definition parseMetaValue :: "(string \<Rightarrow> meta_value) \<Rightarrow> value_parser" where
  "parseMetaValue decode leafValue =
     (case decode leafValue of
        Meta_Error \<Rightarrow> Some (Inl ''invalid value'')
      | Meta_Panic \<Rightarrow> None
      | Meta_Endpoints es \<Rightarrow> Some (Inr (Endpoints es)))"

definition parseLegacyValue :: "finder \<Rightarrow> value_parser" where
  "parseLegacyValue f leafValue = Some (Inr (LegacyAddr (''udp://'' @ leafValue @ '':'' @ itoa (fd_legacyPort f))))"

definition parseNode :: "value_parser \<Rightarrow> tree_node \<Rightarrow> (string \<times> endpoints option) option" where
  "parseNode parser node =
     map_option (\<lambda>v. case v of
         Inl err \<Rightarrow> ([], None)
       | Inr nodeValue \<Rightarrow>
           (trimPrefix (trimPrefix (tn_Key node)
              (case nodeValue of Endpoints _ \<Rightarrow> META_ROOT | LegacyAddr _ \<Rightarrow> LEGACY_ROOT)) ''/'', Some nodeValue))
       (parser (tn_Value node))"

definition saveEndpoints :: "string \<times> endpoints option \<Rightarrow> finder \<Rightarrow> finder" where
  "saveEndpoints kv f =
     (case snd kv of
        None \<Rightarrow> f
      | Some (Endpoints es) \<Rightarrow> f\<lparr>fd_metaEndpoints := mput (fst kv) es (fd_metaEndpoints f)\<rparr>
      | Some (LegacyAddr a) \<Rightarrow> f\<lparr>fd_legacyEndpoints := mput (fst kv) a (fd_legacyEndpoints f)\<rparr>)"

definition deleteEndpoints :: "string \<times> endpoints option \<Rightarrow> finder \<Rightarrow> finder" where
  "deleteEndpoints kv f =
     (case snd kv of
        None \<Rightarrow> f
      | Some (Endpoints es) \<Rightarrow> f\<lparr>fd_metaEndpoints := mdel (fst kv) (fd_metaEndpoints f)\<rparr>
      | Some (LegacyAddr a) \<Rightarrow> f\<lparr>fd_legacyEndpoints := mdel (fst kv) (fd_legacyEndpoints f)\<rparr>)"

fun protocolIndex :: "string \<Rightarrow> string list \<Rightarrow> nat option" where
  "protocolIndex addr [] = None"
| "protocolIndex addr (p # ps) = (if hasPrefix addr p then Some 0 else map_option Suc (protocolIndex addr ps))"

definition legacy_step ::
    "string list \<Rightarrow> nat \<Rightarrow> string \<times> string \<Rightarrow> (string, string list) gomap \<Rightarrow> (string, string list) gomap option" where
  "legacy_step protocols udpIdx e addrs =
     (let (doppler, legacyAddr) = e
      in case mget addrs doppler of
           None \<Rightarrow> Some (mput doppler [legacyAddr] addrs)
         | Some [] \<Rightarrow> None
         | Some (chosenAddr # _) \<Rightarrow>
             (case protocolIndex chosenAddr protocols of
                None \<Rightarrow> None
              | Some idx \<Rightarrow>
                  if hasPrefix chosenAddr ''udp'' \<or> idx < udpIdx then Some addrs
                  else Some (mput doppler [legacyAddr] addrs)))"

definition addLegacyAddrs :: "finder \<Rightarrow> (string, string list) gomap \<Rightarrow> (string, string list) gomap option" where
  "addLegacyAddrs f addrs =
     (case protocolIndex ''udp'' (fd_protocols f) of
        None \<Rightarrow> Some addrs
      | Some udpIdx \<Rightarrow> foldM (legacy_step (fd_protocols f) udpIdx) (fd_legacyEndpoints f) addrs)"

definition chooseAddrs :: "finder \<Rightarrow> (string, string list) gomap option" where
  "chooseAddrs f = addLegacyAddrs f (mput_all (fd_metaEndpoints f) [])"

text \<open>\<open>strings.IndexRune(host, ':')\<close> and the slice up to it.\<close>

definition before_colon :: "string \<Rightarrow> string" where
  "before_colon host = takeWhile (\<lambda>c. c \<noteq> CHR '':'') host"

definition add_address :: "int \<Rightarrow> string \<Rightarrow> finder_event \<Rightarrow> finder_event" where
  "add_address grpcPort addr e =
     (if hasPrefix addr ''udp'' then e\<lparr>fe_UDPDopplers := fe_UDPDopplers e @ [trimPrefix addr ''udp://'']\<rparr>
      else if hasPrefix addr ''tcp'' then e\<lparr>fe_TCPDopplers := fe_TCPDopplers e @ [trimPrefix addr ''tcp://'']\<rparr>
      else if hasPrefix addr ''tls'' then e\<lparr>fe_TLSDopplers := fe_TLSDopplers e @ [trimPrefix addr ''tls://'']\<rparr>
      else if hasPrefix addr ''ws''
      then e\<lparr>fe_GRPCDopplers := fe_GRPCDopplers e @ [before_colon (trimPrefix addr ''ws://'') @ '':'' @ itoa grpcPort]\<rparr>
      else e)"

definition eventWithPrefix :: "string \<Rightarrow> finder \<Rightarrow> finder_event option" where
  "eventWithPrefix prefix f =
     map_option (\<lambda>chosen.
       fold (add_address (fd_grpcPort f))
         (concat (map snd (filter (\<lambda>(doppler, addrs). hasPrefix doppler prefix) chosen))) no_event)
       (chooseAddrs f)"

definition sendEvent :: "finder \<Rightarrow> finder option" where
  "sendEvent f =
     Option.bind (eventWithPrefix (fd_preferredDopplerZone f) f) (\<lambda>e.
       Option.bind (if Event_empty e then eventWithPrefix [] f else Some e) (\<lambda>e'.
         map_option (\<lambda>q. f\<lparr>fd_events := q\<rparr>) (try_send 10 e' (fd_events f))))"

datatype watch_event =
    Watch_Invalid
  | Watch_Update tree_node tree_node
  | Watch_Create tree_node
  | Watch_Delete tree_node
  | Watch_Expire tree_node

definition equalLegacy :: "tree_node \<Rightarrow> tree_node \<Rightarrow> bool" where
  "equalLegacy prev node = (tn_Value prev = tn_Value node)"

text \<open>\<open>UnmarshalJSON\<close> makes a set of the endpoints; a value without any gives the empty set.\<close>

definition finder_equal :: "(string \<Rightarrow> string list option) \<Rightarrow> tree_node \<Rightarrow> tree_node \<Rightarrow> bool" where
  "finder_equal decode_set prev node =
     (if hasPrefix (tn_Key prev) LEGACY_ROOT then equalLegacy prev node
      else case decode_set (tn_Value prev) of
             None \<Rightarrow> False
           | Some es \<Rightarrow>
               (case decode_set (tn_Value node) of
                  None \<Rightarrow> False
                | Some es' \<Rightarrow>
                    card (set es) = card (set es') \<and> (\<forall>v \<in> set es. v \<in> set es')))"

definition handleEvent ::
    "(string \<Rightarrow> string list option) \<Rightarrow> value_parser \<Rightarrow> watch_event \<Rightarrow> finder \<Rightarrow> finder option" where
  "handleEvent decode_set parser ev f =
     (case ev of
        Watch_Invalid \<Rightarrow> Some f
      | Watch_Update prev node \<Rightarrow>
          if finder_equal decode_set prev node then Some f
          else Option.bind (parseNode parser node) (\<lambda>kv. sendEvent (saveEndpoints kv f))
      | Watch_Create node \<Rightarrow> Option.bind (parseNode parser node) (\<lambda>kv. sendEvent (saveEndpoints kv f))
      | Watch_Delete prev \<Rightarrow> Option.bind (parseNode parser prev) (\<lambda>kv. sendEvent (deleteEndpoints kv f))
      | Watch_Expire prev \<Rightarrow> Option.bind (parseNode parser prev) (\<lambda>kv. sendEvent (deleteEndpoints kv f)))"

text \<open>The leaves of the tree, however deep.\<close>

fun findLeafs :: "tree_node \<Rightarrow> tree_node list" where
  "findLeafs (Tree_Node k v dir children) =
     (if \<not> dir then (if length v = 0 then [] else [Tree_Node k v dir children])
      else concat (map findLeafs children))"

definition finder_read :: "value_parser \<Rightarrow> tree_node \<Rightarrow> finder \<Rightarrow> finder option" where
  "finder_read parser base f =
     foldM (\<lambda>node f. map_option (\<lambda>kv. saveEndpoints kv f) (parseNode parser node)) (findLeafs base) f"

definition finder_Start ::
    "(string \<Rightarrow> meta_value) \<Rightarrow> tree_node \<Rightarrow> tree_node \<Rightarrow> finder \<Rightarrow> finder option" where
  "finder_Start decode meta legacy f =
     Option.bind (finder_read (parseMetaValue decode) meta f) (\<lambda>f1.
       Option.bind (finder_read (parseLegacyValue f1) legacy f1) (\<lambda>f2.
         if \<not> hasAddrs f2 then Some f2 else sendEvent f2))"

section \<open>Which states are safe\<close>

text \<open>
  A finder that cannot panic: a doppler that also announces itself the old way has endpoints, and
  the first of them is of a configured protocol.
\<close>

definition finder_safe :: "finder \<Rightarrow> bool" where
  "finder_safe f \<longleftrightarrow>
     wf_map (fd_metaEndpoints f) \<and> wf_map (fd_legacyEndpoints f) \<and>
     (\<forall>k es. mget (fd_legacyEndpoints f) k \<noteq> None \<longrightarrow> mget (fd_metaEndpoints f) k = Some es \<longrightarrow>
        es \<noteq> [] \<and> protocolIndex (hd es) (fd_protocols f) \<noteq> None)"

text \<open>The addresses of a doppler after the choice between the two announcements.\<close>

definition chosen_for :: "finder \<Rightarrow> string \<Rightarrow> string list option" where
  "chosen_for f k =
     (case (mget (fd_metaEndpoints f) k, mget (fd_legacyEndpoints f) k, protocolIndex ''udp'' (fd_protocols f)) of
        (m, None, _) \<Rightarrow> m
      | (m, _, None) \<Rightarrow> m
      | (None, Some a, _) \<Rightarrow> Some [a]
      | (Some es, Some a, Some udpIdx) \<Rightarrow>
          if hasPrefix (hd es) ''udp'' \<or> the (protocolIndex (hd es) (fd_protocols f)) < udpIdx then Some es else Some [a])"

definition grpc_address :: "int \<Rightarrow> string \<Rightarrow> string" where
  "grpc_address port addr = before_colon (trimPrefix addr ''ws://'') @ '':'' @ itoa port"

text \<open>The addresses of the dopplers whose name has a prefix.\<close>

definition addresses_with :: "string \<Rightarrow> finder \<Rightarrow> string set" where
  "addresses_with prefix f = {a. \<exists>k as. chosen_for f k = Some as \<and> hasPrefix k prefix \<and> a \<in> set as}"

definition doppler_name :: "announce_config \<Rightarrow> string" where
  "doppler_name cfg = dp_Zone cfg @ ''/'' @ dp_JobName cfg @ ''/'' @ dp_Index cfg"

definition udp_address :: "string \<Rightarrow> announce_config \<Rightarrow> string" where
  "udp_address ip cfg = ip @ '':'' @ itoa (uint (dp_IncomingUDPPort cfg))"

definition far_config :: announce_config where
  "far_config = \<lparr>dp_Zone = ''z1'', dp_JobName = ''doppler'', dp_Index = ''0'', dp_IncomingUDPPort = 3456, dp_OutgoingPort = 8081\<rparr>"

text \<open>An encoding of lists of strings that can be read back.\<close>

definition plain_marshal :: "nat \<times> string list \<Rightarrow> string" where
  "plain_marshal v = concat (map (\<lambda>s. concat (map (\<lambda>c. [CHR ''1'', c]) s) @ ''00'') (snd v))"

fun plain_unmarshal :: "string \<Rightarrow> string \<Rightarrow> string list" where
  "plain_unmarshal acc (x # c # r) =
     (if x = CHR ''1'' then plain_unmarshal (acc @ [c]) r else acc # plain_unmarshal [] r)"
| "plain_unmarshal acc _ = []"

lemma legacy_fold:
  assumes "wf_map legacy" and "wf_map addrs"
    and "\<forall>k es. mget legacy k \<noteq> None \<longrightarrow> mget addrs k = Some es \<longrightarrow> es \<noteq> [] \<and> protocolIndex (hd es) protocols \<noteq> None"
  shows "\<exists>r. foldM (legacy_step protocols udpIdx) legacy addrs = Some r \<and> wf_map r \<and>
    (\<forall>k. mget r k = (case mget legacy k of None \<Rightarrow> mget addrs k
       | Some a \<Rightarrow> (case mget addrs k of None \<Rightarrow> Some [a]
           | Some es \<Rightarrow> if hasPrefix (hd es) ''udp'' \<or> the (protocolIndex (hd es) protocols) < udpIdx then Some es else Some [a])))"
  using assms
proof (induction legacy arbitrary: addrs)
  case (Cons e legacy)
  obtain d a where e: "e = (d, a)" by (cases e)
  have notin: "mget legacy d = None" using Cons.prems(1) by (simp add: e map_of_eq_None_iff)
  have "\<exists>addrs'. legacy_step protocols udpIdx e addrs = Some addrs' \<and> wf_map addrs' \<and>
      (\<forall>k. mget addrs' k = (if k = d then (case mget addrs d of None \<Rightarrow> Some [a]
        | Some es \<Rightarrow> if hasPrefix (hd es) ''udp'' \<or> the (protocolIndex (hd es) protocols) < udpIdx then Some es else Some [a])
        else mget addrs k))"
  proof (cases "mget addrs d")
    case None
    then show ?thesis using Cons.prems(2) by (auto simp: legacy_step_def e)
  next
    case (Some es)
    then have es: "es \<noteq> []" "protocolIndex (hd es) protocols \<noteq> None" using Cons.prems(3)[rule_format, of d es] by (simp_all add: e)
    then obtain x xs i where "es = x # xs" "protocolIndex x protocols = Some i" by (cases es) auto
    then show ?thesis using Cons.prems(2) Some by (auto simp: legacy_step_def e)
  qed
  then obtain addrs' where s: "legacy_step protocols udpIdx e addrs = Some addrs'" "wf_map addrs'"
    and g: "\<And>k. mget addrs' k = (if k = d then (case mget addrs d of None \<Rightarrow> Some [a]
        | Some es \<Rightarrow> if hasPrefix (hd es) ''udp'' \<or> the (protocolIndex (hd es) protocols) < udpIdx then Some es else Some [a])
        else mget addrs k)" by blast
  have "\<forall>k es. mget legacy k \<noteq> None \<longrightarrow> mget addrs' k = Some es \<longrightarrow> es \<noteq> [] \<and> protocolIndex (hd es) protocols \<noteq> None"
  proof (intro allI impI)
    fix k es assume k: "mget legacy k \<noteq> None" "mget addrs' k = Some es"
    then have "k \<noteq> d" using notin by auto
    then show "es \<noteq> [] \<and> protocolIndex (hd es) protocols \<noteq> None"
      using k g Cons.prems(3)[rule_format, of k es] by (simp add: e)
  qed
  from Cons.IH[OF _ s(2) this] Cons.prems(1) obtain r where r: "foldM (legacy_step protocols udpIdx) legacy addrs' = Some r" "wf_map r"
    and gr: "\<And>k. mget r k = (case mget legacy k of None \<Rightarrow> mget addrs' k
       | Some a \<Rightarrow> (case mget addrs' k of None \<Rightarrow> Some [a]
           | Some es \<Rightarrow> if hasPrefix (hd es) ''udp'' \<or> the (protocolIndex (hd es) protocols) < udpIdx then Some es else Some [a]))"
    by (auto simp: e)
  show ?case using s r gr g notin by (auto simp: e split: option.split)
qed simp

lemma chooseAddrs_spec:
  assumes "finder_safe f"
  shows "\<exists>r. chooseAddrs f = Some r \<and> wf_map r \<and> (\<forall>k. mget r k = chosen_for f k)"
proof -
  let ?m = "mput_all (fd_metaEndpoints f) []"
  have wf: "wf_map (fd_metaEndpoints f)" "wf_map (fd_legacyEndpoints f)" "wf_map ?m"
    using assms by (auto simp: finder_safe_def)
  have g: "mget ?m k = mget (fd_metaEndpoints f) k" for k
    using mget_mput_all[OF wf(1), of "[]" k] by (simp split: option.splits)
  show ?thesis
  proof (cases "protocolIndex ''udp'' (fd_protocols f)")
    case None
    then show ?thesis using wf g by (auto simp: chooseAddrs_def addLegacyAddrs_def chosen_for_def split: option.split)
  next
    case (Some udpIdx)
    have "\<forall>k es. mget (fd_legacyEndpoints f) k \<noteq> None \<longrightarrow> mget ?m k = Some es \<longrightarrow>
        es \<noteq> [] \<and> protocolIndex (hd es) (fd_protocols f) \<noteq> None"
      using assms unfolding g finder_safe_def by blast
    from legacy_fold[OF wf(2,3) this, of udpIdx] show ?thesis
      by (auto simp: chooseAddrs_def addLegacyAddrs_def Some chosen_for_def g split: option.split)
  qed
qed

lemma prefix_apart: "hasPrefix a ''ws'' \<Longrightarrow> \<not> hasPrefix a ''udp'' \<and> \<not> hasPrefix a ''tcp'' \<and> \<not> hasPrefix a ''tls''"
  by (cases a) (auto simp: hasPrefix_def)

lemma fold_add_address:
  "fe_UDPDopplers (fold (add_address port) as e) =
     fe_UDPDopplers e @ map (\<lambda>a. trimPrefix a ''udp://'') (filter (\<lambda>a. hasPrefix a ''udp'') as)"
  "fe_GRPCDopplers (fold (add_address port) as e) =
     fe_GRPCDopplers e @ map (grpc_address port) (filter (\<lambda>a. hasPrefix a ''ws'') as)"
  by (induction as arbitrary: e) (auto simp: add_address_def grpc_address_def dest: prefix_apart)

lemma eventWithPrefix_spec:
  assumes "finder_safe f"
  shows "\<exists>e. eventWithPrefix prefix f = Some e \<and>
    set (fe_UDPDopplers e) = (\<lambda>a. trimPrefix a ''udp://'') ` {a \<in> addresses_with prefix f. hasPrefix a ''udp''} \<and>
    set (fe_GRPCDopplers e) = grpc_address (fd_grpcPort f) ` {a \<in> addresses_with prefix f. hasPrefix a ''ws''}"
proof -
  obtain r where r: "chooseAddrs f = Some r" "wf_map r" and g: "\<And>k. mget r k = chosen_for f k"
    using chooseAddrs_spec[OF assms] by blast
  have "set (concat (map snd (filter (\<lambda>(d, as). hasPrefix d prefix) r))) = addresses_with prefix f"
    unfolding addresses_with_def g[symmetric] by (auto simp: wf_map_mget_iff[OF r(2), symmetric]) fastforce+
  then show ?thesis
    by (simp add: eventWithPrefix_def r(1) fold_add_address no_event_def filter_set[symmetric])
qed

lemma announced_node:
  assumes "\<forall>es. decode (marshal (1, es)) = Meta_Endpoints es"
  shows "parseNode (parseMetaValue decode) (Announce marshal ip cfg) =
    Some (doppler_name cfg, Some (Endpoints [''udp://'' @ udp_address ip cfg, ''ws://'' @ ip @ '':'' @ itoa (uint (dp_OutgoingPort cfg))]))"
proof -
  have "announce_key META_ROOT cfg = META_ROOT @ ''/'' @ doppler_name cfg" by (simp add: announce_key_def doppler_name_def)
  then have "trimPrefix (trimPrefix (announce_key META_ROOT cfg) META_ROOT) ''/'' = doppler_name cfg"
    by (simp only: trimPrefix_append)
  then show ?thesis
    using assms by (simp add: parseNode_def parseMetaValue_def Announce_def buildDopplerMeta_def udp_address_def)
qed

lemma finder_safe_save:
  assumes "finder_safe f" and "mget (fd_legacyEndpoints f) k = None"
  shows "finder_safe (f\<lparr>fd_metaEndpoints := mput k es (fd_metaEndpoints f)\<rparr>)"
    and "finder_safe (f\<lparr>fd_metaEndpoints := mdel k (fd_metaEndpoints f)\<rparr>)"
  using assms by (auto simp: finder_safe_def split: if_splits)

lemma chosen_for_events: "chosen_for (f\<lparr>fd_events := q\<rparr>) k = chosen_for f k"
  unfolding chosen_for_def by (simp split: option.split)

lemma addresses_with_events: "addresses_with p (f\<lparr>fd_events := q\<rparr>) = addresses_with p f"
  unfolding addresses_with_def chosen_for_events by simp

lemma finder_safe_events: "finder_safe (f\<lparr>fd_events := q\<rparr>) = finder_safe f"
  by (simp add: finder_safe_def)

lemma sendEvent_safe:
  assumes "finder_safe f" and "length (fd_events f) < 10"
  shows "\<exists>e. sendEvent f = Some (f\<lparr>fd_events := fd_events f @ [e]\<rparr>) \<and>
    (\<forall>a. hasPrefix a ''udp'' \<longrightarrow> a \<in> addresses_with (fd_preferredDopplerZone f) f \<longrightarrow>
       eventWithPrefix (fd_preferredDopplerZone f) f = Some e)"
proof -
  obtain e1 where e1: "eventWithPrefix (fd_preferredDopplerZone f) f = Some e1"
    "set (fe_UDPDopplers e1) = (\<lambda>a. trimPrefix a ''udp://'') ` {a \<in> addresses_with (fd_preferredDopplerZone f) f. hasPrefix a ''udp''}"
    using eventWithPrefix_spec[OF assms(1)] by blast
  obtain e2 where e2: "eventWithPrefix [] f = Some e2" using eventWithPrefix_spec[OF assms(1)] by blast
  have "\<not> Event_empty e1" if "hasPrefix a ''udp''" "a \<in> addresses_with (fd_preferredDopplerZone f) f" for a
    using e1(2) that by (auto simp: Event_empty_def)
  then show ?thesis
    using assms(2) e1(1) e2 by (auto simp: sendEvent_def try_send_def)
qed

section \<open>Properties\<close>


lemma plain_unmarshal_string:
  "plain_unmarshal acc (concat (map (\<lambda>c. [CHR ''1'', c]) s) @ ''00'' @ r) = (acc @ s) # plain_unmarshal [] r"
  by (induction s arbitrary: acc) auto

lemma plain_round_trip: "plain_unmarshal [] (plain_marshal (n, es)) = es"
  by (induction es) (simp_all add: plain_marshal_def plain_unmarshal_string[simplified])


text \<open>
  A doppler that announces itself both ways, with a first endpoint of a protocol that the finder is
  not configured for, or with no endpoint, makes the finder panic.
\<close>

lemma finder_panics:
  "eventWithPrefix [] ((NewFinder 1 2 [''udp''] [])\<lparr>fd_metaEndpoints := [(''d'', [''ws://h:1''])], fd_legacyEndpoints := [(''d'', ''udp://h:1'')]\<rparr>) = None"
  "eventWithPrefix [] ((NewFinder 1 2 [''udp''] [])\<lparr>fd_metaEndpoints := [(''d'', [])], fd_legacyEndpoints := [(''d'', ''udp://h:1'')]\<rparr>) = None"
  by code_simp+

text \<open>
  A zone with gRPC dopplers only counts as empty, so the finder lists the dopplers of all zones.
\<close>

lemma grpc_zone_not_preferred:
  "map_option fd_events (sendEvent ((NewFinder 1 2 [''udp''] ''z1'')\<lparr>fd_metaEndpoints := [(''z1/d'', [''ws://h:1'']), (''z2/d'', [''ws://far:1''])]\<rparr>)) =
     Some [no_event\<lparr>fe_GRPCDopplers := [''h:2'', ''far:2'']\<rparr>]"
  by code_simp

end
