(* ===== verification/Metron_Batching.thy ===== *)
theory Metron_Batching
  imports Metron_Counters
begin

text \<open>
  Batching in the metron agent: the batch writer of version 1 (\<open>egress/v1/writer.go\<close>) and the
  transponder of version 2 (\<open>egress/v2/transponder.go\<close>).

  Both are machines whose actions are the calls and the turns of their goroutines. The outcome of
  a write to the next writer is part of the action, so a statement about all action sequences is
  a statement about every behaviour of that writer and every schedule. The timer of the batch
  writer is its armed state and the one value its channel can hold.
\<close>

section \<open>The batch writer\<close>

definition maxOverflowTries :: nat where
  "maxOverflowTries = 5"

definition minBufferCapacity :: nat where
  "minBufferCapacity = 1024"

definition prefixMessage :: "bytes \<Rightarrow> bytes" where
  "prefixMessage msgBytes = le_bytes 4 (length msgBytes) @ msgBytes"

record messageBuffer =
  mb_buffer :: bytes
  mb_messages :: uint64

definition messageBuffer_Write :: "bytes \<Rightarrow> messageBuffer \<Rightarrow> messageBuffer" where
  "messageBuffer_Write msg b = b\<lparr>mb_messages := mb_messages b + 1, mb_buffer := mb_buffer b @ msg\<rparr>"

definition messageBuffer_Reset :: "messageBuffer \<Rightarrow> messageBuffer" where
  "messageBuffer_Reset b = b\<lparr>mb_messages := 0, mb_buffer := []\<rparr>"

text \<open>A goroutine of an overflow, in \<open>retryWrites\<close>: what it writes and the attempts it made.\<close>

record overflow =
  ov_message :: bytes
  ov_count :: uint64
  ov_chainers :: "chainer list"
  ov_tries :: nat

record batch_writer =
  bw_capacity :: nat
  bw_msgBuffer :: messageBuffer
  bw_chainers :: "chainer list"
  bw_timer :: bool
  bw_timer_C :: bool
  bw_ticked :: bool
  bw_overflows :: "overflow list"
  bw_written :: "(bytes \<times> chainer list) list"
  bw_dropped :: "uint32 list"
  bw_metrics :: "metric_call list"

definition NewBatchWriter :: "uint64 \<Rightarrow> batch_writer result" where
  "NewBatchWriter bufferCapacity =
     (if bufferCapacity < of_nat minBufferCapacity
      then Inl ''batch.Writer requires a buffer of at least 1024 bytes''
      else Inr \<lparr>bw_capacity = unat bufferCapacity, bw_msgBuffer = \<lparr>mb_buffer = [], mb_messages = 0\<rparr>,
                bw_chainers = [], bw_timer = False, bw_timer_C = False, bw_ticked = False,
                bw_overflows = [], bw_written = [], bw_dropped = [], bw_metrics = []\<rparr>)"

text \<open>
  \<open>Write\<close>: a message that does not fit leaves with the whole buffer in a goroutine of its own;
  the first message of a buffer starts the timer.
\<close>

definition Writer_Write :: "bytes \<Rightarrow> chainer list \<Rightarrow> batch_writer \<Rightarrow> nat \<times> batch_writer" where
  "Writer_Write msgBytes chainers w0 =
     (let w = w0\<lparr>bw_chainers := bw_chainers w0 @ chainers\<rparr>;
          prefixedBytes = prefixMessage msgBytes;
          b = bw_msgBuffer w
      in if length (mb_buffer b) + length prefixedBytes > bw_capacity w
         then (length msgBytes,
               w\<lparr>bw_msgBuffer := messageBuffer_Reset b, bw_chainers := [],
                 bw_overflows := bw_overflows w @
                   [\<lparr>ov_message = mb_buffer b @ prefixedBytes, ov_count = mb_messages b + 1,
                     ov_chainers = bw_chainers w, ov_tries = 0\<rparr>]\<rparr>)
         else (length msgBytes,
               w\<lparr>bw_timer := (bw_timer w \<or> mb_messages b = 0),
                 bw_msgBuffer := messageBuffer_Write prefixedBytes b\<rparr>))"

text \<open>\<open>flushWrite\<close>, given what the next writer returns.\<close>

definition flushWrite ::
  "string option \<Rightarrow> bytes \<Rightarrow> uint64 \<Rightarrow> chainer list \<Rightarrow> batch_writer \<Rightarrow> string option \<times> batch_writer" where
  "flushWrite err toWrite messageCount chainers w =
     (case err of
        Some e \<Rightarrow> (Some e, w)
      | None \<Rightarrow>
          (None, w\<lparr>bw_written := bw_written w @ [(toWrite, chainers)],
                   bw_metrics := bw_metrics w @
                     [BatchAddCounter ''DopplerForwarder.sentMessages'' messageCount,
                      BatchAddCounter ''grpc.sentMessageCount'' messageCount]\<rparr>))"

definition flushBuffer :: "string option \<Rightarrow> batch_writer \<Rightarrow> batch_writer" where
  "flushBuffer err w =
     (let b = bw_msgBuffer w
      in if mb_messages b = 0 then w
         else case flushWrite err (mb_buffer b) (mb_messages b) (bw_chainers w) w of
                (Some _, w') \<Rightarrow>
                  w'\<lparr>bw_metrics := bw_metrics w' @ [BatchIncrementCounter ''DopplerForwarder.retryCount''],
                     bw_timer := True\<rparr>
              | (None, w') \<Rightarrow> w'\<lparr>bw_msgBuffer := messageBuffer_Reset b, bw_chainers := []\<rparr>)"

text \<open>
  One turn of the loop in \<open>retryWrites\<close> by the goroutine at position \<open>i\<close>. After the last
  failure the goroutine counts the messages as dropped and ends; the conversion of the count to
  32 bits is the source's.
\<close>

definition remove_at :: "nat \<Rightarrow> 'a list \<Rightarrow> 'a list" where
  "remove_at i xs = take i xs @ drop (Suc i) xs"

definition retryWrites_turn :: "nat \<Rightarrow> string option \<Rightarrow> batch_writer \<Rightarrow> batch_writer" where
  "retryWrites_turn i err w =
     (if length (bw_overflows w) \<le> i then w
      else
        let g = bw_overflows w ! i;
            w1 = (if 0 < ov_tries g
                  then w\<lparr>bw_metrics := bw_metrics w @ [BatchIncrementCounter ''DopplerForwarder.retryCount'']\<rparr>
                  else w)
        in case flushWrite err (ov_message g) (ov_count g) (ov_chainers g) w1 of
             (None, w2) \<Rightarrow> w2\<lparr>bw_overflows := remove_at i (bw_overflows w2)\<rparr>
           | (Some _, w2) \<Rightarrow>
               (if Suc (ov_tries g) < maxOverflowTries
                then w2\<lparr>bw_overflows := (bw_overflows w2)[i := g\<lparr>ov_tries := Suc (ov_tries g)\<rparr>]\<rparr>
                else w2\<lparr>bw_overflows := remove_at i (bw_overflows w2),
                        bw_dropped := bw_dropped w2 @ [ucast (ov_count g)]\<rparr>))"

text \<open>
  The actions: a call of \<open>Write\<close>, the timer running out, its value received by
  \<open>flushOnTimer\<close>, the flush that follows, a turn of an overflow goroutine, and \<open>Stop\<close>.
\<close>

datatype bw_action =
    BW_Write bytes "chainer list"
  | BW_Fire
  | BW_Receive
  | BW_Flush "string option"
  | BW_Retry nat "string option"
  | BW_Stop

fun bw_step :: "bw_action \<Rightarrow> batch_writer \<Rightarrow> batch_writer" where
  "bw_step (BW_Write msg cs) w = snd (Writer_Write msg cs w)"
| "bw_step BW_Fire w = (if bw_timer w then w\<lparr>bw_timer := False, bw_timer_C := True\<rparr> else w)"
| "bw_step BW_Receive w =
     (if bw_timer_C w \<and> \<not> bw_ticked w then w\<lparr>bw_timer_C := False, bw_ticked := True\<rparr> else w)"
| "bw_step (BW_Flush err) w = (if bw_ticked w then (flushBuffer err w)\<lparr>bw_ticked := False\<rparr> else w)"
| "bw_step (BW_Retry i err) w = retryWrites_turn i err w"
| "bw_step BW_Stop w = w\<lparr>bw_timer := False\<rparr>"

section \<open>The transponder\<close>

record Transponder =
  tx_tags :: "(string, string) gomap"
  tx_batchSize :: int
  tx_batchInterval :: int

record transponder_state =
  ts_batch :: "v2_envelope list"
  ts_lastSent :: int
  ts_writes :: "(v2_envelope list \<times> string option) list"
  ts_dropped :: uint64
  ts_egress :: uint64

definition text_value :: "string \<Rightarrow> v2_value option" where
  "text_value s = Some \<lparr>v2_Data = Some (Value_Text s)\<rparr>"

definition addTags :: "Transponder \<Rightarrow> tag_heap \<Rightarrow> v2_envelope \<Rightarrow> v2_envelope" where
  "addTags t h e =
     (let m0 = (case e2_DeprecatedTags e of None \<Rightarrow> [] | Some m \<Rightarrow> m);
          m1 = fold (\<lambda>(k, v) m. mput k (text_value v) m) (tags_at h (e2_Tags e)) m0;
          m2 = fold (\<lambda>(k, v) m. if mget m k = None then mput k (text_value v) m else m) (tx_tags t) m1
      in e\<lparr>e2_DeprecatedTags := Some m2\<rparr>)"

definition batchReady :: "Transponder \<Rightarrow> v2_envelope list \<Rightarrow> int \<Rightarrow> int \<Rightarrow> bool" where
  "batchReady t batch lastSent now =
     (if batch = [] then False
      else int (length batch) \<ge> tx_batchSize t \<or> now - lastSent \<ge> tx_batchInterval t)"

text \<open>\<open>write\<close>, given what the next writer returns.\<close>

definition Transponder_write :: "string option \<Rightarrow> v2_envelope list \<Rightarrow> transponder_state \<Rightarrow> transponder_state" where
  "Transponder_write err batch s =
     (let s1 = s\<lparr>ts_writes := ts_writes s @ [(batch, err)]\<rparr>
      in case err of
           Some _ \<Rightarrow> s1\<lparr>ts_dropped := ts_dropped s1 + of_nat (length batch)\<rparr>
         | None \<Rightarrow> s1\<lparr>ts_egress := ts_egress s1 + of_nat (length batch)\<rparr>)"

text \<open>
  One turn of the loop in \<open>Start\<close>: what \<open>TryNext\<close> returned, the three readings of the clock,
  and what the next writer returns if it is called.
\<close>

record tx_turn =
  tt_next :: "v2_envelope option"
  tt_now1 :: int
  tt_now2 :: int
  tt_now3 :: int
  tt_err :: "string option"

definition Transponder_turn ::
  "Transponder \<Rightarrow> tag_heap \<Rightarrow> tx_turn \<Rightarrow> transponder_state \<Rightarrow> transponder_state" where
  "Transponder_turn t h a s =
     (if tt_next a = None \<and> \<not> batchReady t (ts_batch s) (ts_lastSent s) (tt_now1 a) then s
      else
        let batch = (case tt_next a of None \<Rightarrow> ts_batch s | Some e \<Rightarrow> ts_batch s @ [addTags t h e])
        in if \<not> batchReady t batch (ts_lastSent s) (tt_now2 a) then s\<lparr>ts_batch := batch\<rparr>
           else (Transponder_write (tt_err a) batch s)\<lparr>ts_batch := [], ts_lastSent := tt_now3 a\<rparr>)"

definition Transponder_start :: "int \<Rightarrow> transponder_state" where
  "Transponder_start now = \<lparr>ts_batch = [], ts_lastSent = now, ts_writes = [], ts_dropped = 0, ts_egress = 0\<rparr>"

section \<open>Specifications\<close>

text \<open>A stream of length-prefixed messages, taken apart.\<close>

function unframe :: "bytes \<Rightarrow> bytes list" where
  "unframe bs =
     (if length bs < 4 then []
      else let n = le_value (take 4 bs) in take n (drop 4 bs) # unframe (drop (4 + n) bs))"
  by pat_completeness auto
termination
  by (relation "measure length") auto

declare unframe.simps [simp del]

definition frame_all :: "bytes list \<Rightarrow> bytes" where
  "frame_all msgs = concat (map prefixMessage msgs)"

text \<open>The messages passed to \<open>Write\<close>, in order.\<close>

definition written_msgs :: "bw_action list \<Rightarrow> bytes list" where
  "written_msgs acts = concat (map (\<lambda>a. case a of BW_Write msg _ \<Rightarrow> [msg] | _ \<Rightarrow> []) acts)"

text \<open>The state of the batch writer stands for lists of messages.\<close>

definition bw_rel ::
  "batch_writer \<Rightarrow> bytes list list \<Rightarrow> bytes list list \<Rightarrow> bytes list list \<Rightarrow> bytes list \<Rightarrow> bool" where
  "bw_rel w sent lost pending buf \<longleftrightarrow>
     map fst (bw_written w) = map frame_all sent \<and>
     bw_dropped w = map (\<lambda>ms. of_nat (length ms)) lost \<and>
     map ov_message (bw_overflows w) = map frame_all pending \<and>
     map ov_count (bw_overflows w) = map (\<lambda>ms. of_nat (length ms)) pending \<and>
     mb_buffer (bw_msgBuffer w) = frame_all buf \<and>
     mb_messages (bw_msgBuffer w) = of_nat (length buf) \<and>
     length (frame_all buf) \<le> bw_capacity w \<and> bw_capacity w < 2 ^ 64"

text \<open>While there are messages in the buffer a flush is under way.\<close>

definition bw_armed :: "batch_writer \<Rightarrow> bool" where
  "bw_armed w \<longleftrightarrow> (mb_messages (bw_msgBuffer w) \<noteq> 0 \<longrightarrow> bw_timer w \<or> bw_timer_C w \<or> bw_ticked w)"

text \<open>The envelopes the transponder took from the diode.\<close>

definition taken :: "tx_turn list \<Rightarrow> v2_envelope list" where
  "taken turns = List.map_filter tt_next turns"

text \<open>The number of envelopes in the writes with a given outcome.\<close>

definition envelopes_in :: "(string option \<Rightarrow> bool) \<Rightarrow> (v2_envelope list \<times> string option) list \<Rightarrow> nat" where
  "envelopes_in P writes = (\<Sum>(b, err) \<leftarrow> writes. if P err then length b else 0)"

definition tx_ok :: "Transponder \<Rightarrow> transponder_state \<Rightarrow> bool" where
  "tx_ok t s \<longleftrightarrow>
     (\<forall>(b, err) \<in> set (ts_writes s). b \<noteq> [] \<and> int (length b) \<le> max 1 (tx_batchSize t)) \<and>
     int (length (ts_batch s)) < max 1 (tx_batchSize t) \<and>
     ts_egress s = of_nat (envelopes_in (\<lambda>err. err = None) (ts_writes s)) \<and>
     ts_dropped s = of_nat (envelopes_in (\<lambda>err. err \<noteq> None) (ts_writes s))"

definition sample_transponder :: Transponder where
  "sample_transponder = \<lparr>tx_tags = [(''ip'', ''10.0.0.1'')], tx_batchSize = 2, tx_batchInterval = 1000\<rparr>"

definition sample_turn :: "uint64 \<Rightarrow> string option \<Rightarrow> tx_turn" where
  "sample_turn n err = \<lparr>tt_next = Some (hits_v2 n ''k''), tt_now1 = 0, tt_now2 = 0, tt_now3 = 0, tt_err = err\<rparr>"

text \<open>A message that does not fit into a small buffer with another one.\<close>

definition filler :: bytes where
  "filler = replicate 1020 (CHR ''x'')"

section \<open>Framing\<close>

lemma length_prefixMessage [simp]: "length (prefixMessage m) = 4 + length m"
  by (simp add: prefixMessage_def)

lemma frame_simps [simp]:
  "frame_all [] = []" "frame_all (ms @ ms') = frame_all ms @ frame_all ms'" "frame_all [m] = prefixMessage m"
  by (simp_all add: frame_all_def)

lemma length_frame: "4 * length ms \<le> length (frame_all ms)"
  by (induction ms) (auto simp: frame_all_def)

lemma unframe_Nil [simp]: "unframe [] = []"
  by (simp add: unframe.simps)

text \<open>What \<open>prefixMessage\<close> puts together comes apart again.\<close>

lemma unframe_frame:
  assumes "\<forall>m \<in> set ms. length m < 2 ^ 32"
  shows "unframe (frame_all ms) = ms"
  using assms
proof (induction ms)
  case Nil
  then show ?case by simp
next
  case (Cons m ms)
  have "le_value (take 4 (frame_all (m # ms))) = length m"
    using Cons.prems by (simp add: frame_all_def prefixMessage_def le_value_le_bytes)
  then show ?case
    using Cons by (subst unframe.simps) (simp add: frame_all_def prefixMessage_def Let_def)
qed

section \<open>The batch writer keeps every message\<close>

lemma remove_at_map: "map f (remove_at i xs) = remove_at i (map f xs)"
  by (simp add: remove_at_def take_map drop_map)

lemma ucast_count: "(ucast (word_of_nat n :: uint64) :: uint32) = word_of_nat n"
  by transfer simp

lemma map_update_same: "(map f xs)[i := f (xs ! i)] = map f xs"
  by (metis list_update_id map_update)

lemma mset_concat_remove_at:
  "i < length xss \<Longrightarrow> mset (concat xss) = mset (xss ! i) + mset (concat (remove_at i xss))"
  by (subst id_take_nth_drop[of i xss]) (simp_all add: remove_at_def)

lemma written_msgs_simps [simp]:
  "written_msgs [] = []"
  "written_msgs (acts @ acts') = written_msgs acts @ written_msgs acts'"
  by (simp_all add: written_msgs_def)

lemma bw_rel_count:
  assumes "bw_rel w sent lost pending buf"
  shows "mb_messages (bw_msgBuffer w) = 0 \<longleftrightarrow> buf = []"
proof -
  have "4 * length buf < 2 ^ 64"
    using assms length_frame[of buf] by (simp add: bw_rel_def)
  then have n: "unat (of_nat (length buf) :: uint64) = length buf"
    by (simp add: unsigned_of_nat take_bit_nat_eq_self)
  have "(of_nat (length buf) :: uint64) = 0 \<longleftrightarrow> length buf = 0"
  proof
    assume "(of_nat (length buf) :: uint64) = 0"
    then show "length buf = 0" using n by simp
  qed simp
  then show ?thesis using assms by (simp add: bw_rel_def)
qed

lemma bw_write_rel:
  assumes "bw_rel w sent lost pending buf"
  shows "\<exists>pending' buf'. bw_rel (snd (Writer_Write m cs w)) sent lost pending' buf' \<and>
    mset (concat pending') + mset buf' = mset (concat pending) + mset buf + {#m#}"
proof (cases "length (mb_buffer (bw_msgBuffer w)) + length (prefixMessage m) > bw_capacity w")
  case True
  with assms have "bw_rel (snd (Writer_Write m cs w)) sent lost (pending @ [buf @ [m]]) []"
    by (simp add: bw_rel_def Writer_Write_def Let_def messageBuffer_Reset_def)
  then show ?thesis by (intro exI conjI, assumption) simp
next
  case False
  with assms have "bw_rel (snd (Writer_Write m cs w)) sent lost pending (buf @ [m])"
    by (simp add: bw_rel_def Writer_Write_def Let_def messageBuffer_Write_def)
  then show ?thesis by (intro exI conjI, assumption) simp
qed

lemma bw_flush_rel:
  assumes "bw_rel w sent lost pending buf"
  shows "\<exists>sent' buf'. bw_rel (flushBuffer err w) sent' lost pending buf' \<and>
    mset (concat sent') + mset buf' = mset (concat sent) + mset buf"
proof (cases "mb_messages (bw_msgBuffer w) = 0 \<or> err \<noteq> None")
  case True
  with assms have "bw_rel (flushBuffer err w) sent lost pending buf"
    by (auto simp: bw_rel_def flushBuffer_def flushWrite_def Let_def)
  then show ?thesis by blast
next
  case False
  with assms have "bw_rel (flushBuffer err w) (sent @ [buf]) lost pending []"
    by (simp add: bw_rel_def flushBuffer_def flushWrite_def messageBuffer_Reset_def Let_def)
  then show ?thesis by (intro exI conjI, assumption) simp
qed

lemma bw_retry_rel:
  assumes "bw_rel w sent lost pending buf"
  shows "\<exists>sent' lost' pending'. bw_rel (retryWrites_turn i err w) sent' lost' pending' buf \<and>
    mset (concat sent') + mset (concat lost') + mset (concat pending') =
    mset (concat sent) + mset (concat lost) + mset (concat pending)"
proof -
  have maps: "map ov_message (bw_overflows w) = map frame_all pending"
    "map ov_count (bw_overflows w) = map (\<lambda>ms. of_nat (length ms)) pending"
    using assms by (simp_all add: bw_rel_def)
  have len: "length (bw_overflows w) = length pending"
    using arg_cong[OF maps(1), of length] by simp
  show ?thesis
  proof (cases "i < length pending")
    case False
    with len have "retryWrites_turn i err w = w" by (simp add: retryWrites_turn_def)
    with assms show ?thesis by auto
  next
    case True
    have g: "ov_message (bw_overflows w ! i) = frame_all (pending ! i)"
      "ov_count (bw_overflows w ! i) = of_nat (length (pending ! i))"
      using arg_cong[OF maps(1), of "\<lambda>xs. xs ! i"] arg_cong[OF maps(2), of "\<lambda>xs. xs ! i"] True len
      by simp_all
    note defs = bw_rel_def retryWrites_turn_def flushWrite_def Let_def remove_at_map
    consider (ok) "err = None" | (again) "err \<noteq> None" "Suc (ov_tries (bw_overflows w ! i)) < maxOverflowTries"
      | (drop) "err \<noteq> None" "\<not> Suc (ov_tries (bw_overflows w ! i)) < maxOverflowTries" by blast
    then show ?thesis
    proof cases
      case ok
      with assms True len g have "bw_rel (retryWrites_turn i err w) (sent @ [pending ! i]) lost (remove_at i pending) buf"
        by (simp add: defs)
      moreover have "mset (concat (sent @ [pending ! i])) + mset (concat lost) + mset (concat (remove_at i pending)) =
          mset (concat sent) + mset (concat lost) + mset (concat pending)"
        using mset_concat_remove_at[OF True] by simp
      ultimately show ?thesis by blast
    next
      case again
      with again assms True len g have "bw_rel (retryWrites_turn i err w) sent lost pending buf"
        by (auto simp: defs map_update map_update_same
            map_update_same[where f = "\<lambda>ms. word_of_nat (length ms)"])
      then show ?thesis by blast
    next
      case drop
      with assms True len g have "bw_rel (retryWrites_turn i err w) sent (lost @ [pending ! i]) (remove_at i pending) buf"
        by (auto simp: defs ucast_count)
      moreover have "mset (concat sent) + mset (concat (lost @ [pending ! i])) + mset (concat (remove_at i pending)) =
          mset (concat sent) + mset (concat lost) + mset (concat pending)"
        using mset_concat_remove_at[OF True] by simp
      ultimately show ?thesis by blast
    qed
  qed
qed

lemma bw_step_rel:
  assumes "bw_rel w sent lost pending buf"
  shows "\<exists>sent' lost' pending' buf'. bw_rel (bw_step a w) sent' lost' pending' buf' \<and>
    mset (concat sent') + mset (concat lost') + mset (concat pending') + mset buf' =
    mset (concat sent) + mset (concat lost) + mset (concat pending) + mset buf + mset (written_msgs [a])"
proof (cases a)
  case (BW_Write m cs)
  from bw_write_rel[OF assms, of m cs] obtain pending' buf' where
    "bw_rel (snd (Writer_Write m cs w)) sent lost pending' buf'"
    "mset (concat pending') + mset buf' = mset (concat pending) + mset buf + {#m#}" by blast
  with BW_Write show ?thesis
    by (intro exI[of _ sent] exI[of _ lost] exI[of _ pending'] exI[of _ buf'])
      (simp add: written_msgs_def add.assoc)
next
  case (BW_Flush err)
  from bw_flush_rel[OF assms, of err] obtain sent' buf' where
    flush: "bw_rel (flushBuffer err w) sent' lost pending buf'"
    "mset (concat sent') + mset buf' = mset (concat sent) + mset buf" by blast
  show ?thesis
  proof (cases "bw_ticked w")
    case True
    with flush BW_Flush show ?thesis
      by (intro exI[of _ sent'] exI[of _ lost] exI[of _ pending] exI[of _ buf'])
        (simp add: written_msgs_def bw_rel_def ac_simps)
  next
    case False
    with assms BW_Flush show ?thesis by (auto simp: written_msgs_def)
  qed
next
  case (BW_Retry i err)
  from bw_retry_rel[OF assms, of i err] BW_Retry show ?thesis
    by (fastforce simp: written_msgs_def)
qed (use assms in \<open>auto simp: bw_rel_def written_msgs_def\<close>)

lemma bw_capacity_step [simp]: "bw_capacity (bw_step a w) = bw_capacity w"
  by (cases a) (auto simp: Writer_Write_def flushBuffer_def flushWrite_def retryWrites_turn_def Let_def
      split: option.split)

lemma bw_capacity_run: "bw_capacity (fold bw_step acts w) = bw_capacity w"
  by (induction acts arbitrary: w) auto

lemma bw_reachable_rel:
  assumes "NewBatchWriter c = Inr w0"
  shows "\<exists>sent lost pending buf. bw_rel (fold bw_step acts w0) sent lost pending buf \<and>
    mset (concat sent) + mset (concat lost) + mset (concat pending) + mset buf = mset (written_msgs acts)"
proof (induction acts rule: rev_induct)
  case Nil
  have "unat c < 2 ^ 64" using unsigned_less[of c] by simp
  with assms have "bw_rel w0 [] [] [] []"
    by (auto simp: NewBatchWriter_def bw_rel_def split: if_splits)
  then show ?case by (intro exI conjI) auto
next
  case (snoc a acts)
  then obtain sent lost pending buf where r: "bw_rel (fold bw_step acts w0) sent lost pending buf"
    and m: "mset (concat sent) + mset (concat lost) + mset (concat pending) + mset buf = mset (written_msgs acts)"
    by blast
  from bw_step_rel[OF r, of a] show ?case by (simp add: m)
qed

text \<open>
  C5: The batch writer keeps every message. After any sequence of writes, timer events, flushes
  and retries, with any outcomes of the writes below it, the messages accepted so far are
  exactly those in the batches handed on, those in the batches counted as dropped, those still
  with an overflow goroutine and those in the buffer, each once; every batch on the wire comes
  apart again into its messages, the drop counts are the numbers of messages in the batches given
  up, and the buffer never exceeds its capacity.
\<close>

theorem batch_writer_conserves:
  assumes "NewBatchWriter capacity = Inr w0" and "\<forall>m \<in> set (written_msgs acts). length m < 2 ^ 32"
    and w: "w = fold bw_step acts w0"
  shows "\<exists>lost. bw_dropped w = map (\<lambda>ms. of_nat (length ms)) lost \<and>
    mset (concat (map (unframe \<circ> fst) (bw_written w))) + mset (concat lost) +
      mset (concat (map (unframe \<circ> ov_message) (bw_overflows w))) +
      mset (unframe (mb_buffer (bw_msgBuffer w))) = mset (written_msgs acts) \<and>
    length (mb_buffer (bw_msgBuffer w)) \<le> unat capacity"
proof -
  from bw_reachable_rel[OF assms(1), of acts] obtain sent lost pending buf where
    r: "bw_rel w sent lost pending buf"
    and m: "mset (concat sent) + mset (concat lost) + mset (concat pending) + mset buf = mset (written_msgs acts)"
    unfolding w by blast
  have sub: "set (concat sent) \<union> set (concat lost) \<union> set (concat pending) \<union> set buf = set (written_msgs acts)"
    using arg_cong[OF m, of set_mset] by simp
  have un: "map (unframe \<circ> f) xs = mss"
    if "map f xs = map frame_all mss" and "set (concat mss) \<subseteq> set (written_msgs acts)" for f :: "'z \<Rightarrow> bytes" and xs mss
  proof -
    have "map (unframe \<circ> f) xs = map (unframe \<circ> frame_all) mss"
      using that(1) by (metis map_map)
    also have "\<dots> = map (\<lambda>ms. ms) mss"
      using that(2) assms(2) by (intro map_cong refl) (auto intro!: unframe_frame)
    finally show ?thesis by simp
  qed
  have "map (unframe \<circ> fst) (bw_written w) = sent"
    using r sub by (intro un) (auto simp: bw_rel_def)
  moreover have "map (unframe \<circ> ov_message) (bw_overflows w) = pending"
    using r sub by (intro un) (auto simp: bw_rel_def)
  moreover have "unframe (mb_buffer (bw_msgBuffer w)) = buf"
    using r sub assms(2) by (auto simp: bw_rel_def intro!: unframe_frame)
  moreover have "bw_capacity w = unat capacity"
    unfolding w using assms(1) by (simp add: bw_capacity_run NewBatchWriter_def split: if_splits) auto
  ultimately show ?thesis
    using r m by (intro exI[of _ lost]) (simp add: bw_rel_def)
qed

lemma length_filler [simp]: "length filler = 1020"
  by (simp add: filler_def)

theorem batch_writer_conserves_witness:
  "\<exists>w0 w. NewBatchWriter 1024 = Inr w0 \<and>
     w = fold bw_step [BW_Write ''ab'' [], BW_Write filler [], BW_Write ''c'' [],
       BW_Retry 0 (Some ''down''), BW_Fire, BW_Receive, BW_Flush None] w0 \<and>
     bw_dropped w = [] \<and> map (unframe \<circ> fst) (bw_written w) = [[''c'']] \<and>
     mset (concat (map (unframe \<circ> ov_message) (bw_overflows w))) = {#''ab'', filler#}"
proof -
  let ?acts = "[BW_Write ''ab'' [], BW_Write filler [], BW_Write ''c'' [],
       BW_Retry 0 (Some ''down''), BW_Fire, BW_Receive, BW_Flush None]"
  define w0 :: batch_writer where "w0 = \<lparr>bw_capacity = 1024, bw_msgBuffer = \<lparr>mb_buffer = [], mb_messages = 0\<rparr>,
      bw_chainers = [], bw_timer = False, bw_timer_C = False, bw_ticked = False,
      bw_overflows = [], bw_written = [], bw_dropped = [], bw_metrics = []\<rparr>"
  have new: "NewBatchWriter 1024 = Inr w0" by (simp add: NewBatchWriter_def minBufferCapacity_def w0_def)
  define w where "w = fold bw_step ?acts w0"
  have msgs: "written_msgs ?acts = [''ab'', filler, ''c'']" by (simp add: written_msgs_def)
  from batch_writer_conserves[OF new _ w_def] obtain lost where
    lost: "bw_dropped w = map (\<lambda>ms. of_nat (length ms)) lost"
    and all: "mset (concat (map (unframe \<circ> fst) (bw_written w))) + mset (concat lost) +
      mset (concat (map (unframe \<circ> ov_message) (bw_overflows w))) +
      mset (unframe (mb_buffer (bw_msgBuffer w))) = mset [''ab'', filler, ''c'']"
    unfolding msgs by auto
  have run: "bw_dropped w = []" "map fst (bw_written w) = [frame_all [''c'']]" "mb_buffer (bw_msgBuffer w) = []"
    unfolding w_def w0_def
    by (simp_all add: Writer_Write_def Let_def retryWrites_turn_def flushWrite_def
        maxOverflowTries_def flushBuffer_def messageBuffer_Reset_def messageBuffer_Write_def)
  have sent: "map (unframe \<circ> fst) (bw_written w) = [[''c'']]"
    using arg_cong[OF run(2), of "map unframe"] unframe_frame[of "[''c'']"] by simp
  from lost run(1) have "lost = []" by simp
  with all sent run(3) have left: "mset (concat (map (unframe \<circ> ov_message) (bw_overflows w))) = {#''ab'', filler#}"
    by (simp add: add_mset_commute)
  show ?thesis by (intro exI[of _ w0] exI[of _ w] conjI) (rule new w_def run(1) sent left)+
qed

section \<open>The batch writer flushes\<close>

lemma bw_step_armed:
  assumes "bw_armed w" and "a \<noteq> BW_Stop"
  shows "bw_armed (bw_step a w)"
  using assms
  by (cases a) (auto simp: bw_armed_def Writer_Write_def messageBuffer_Reset_def messageBuffer_Write_def
      flushBuffer_def flushWrite_def retryWrites_turn_def Let_def split: option.split)

lemma bw_run_armed:
  assumes "BW_Stop \<notin> set acts" and "NewBatchWriter capacity = Inr w0"
  shows "bw_armed (fold bw_step acts w0)"
  using assms
proof (induction acts rule: rev_induct)
  case Nil
  then show ?case by (auto simp: NewBatchWriter_def bw_armed_def split: if_splits)
next
  case (snoc a acts)
  then show ?case by (auto intro!: bw_step_armed)
qed

lemma ov_tries_bound:
  assumes "NewBatchWriter capacity = Inr w0"
  shows "\<forall>g \<in> set (bw_overflows (fold bw_step acts w0)). ov_tries g < maxOverflowTries"
proof (induction acts rule: rev_induct)
  case Nil
  then show ?case using assms by (auto simp: NewBatchWriter_def split: if_splits)
next
  case (snoc a acts)
  define w where "w = fold bw_step acts w0"
  have "\<forall>g \<in> set (bw_overflows (bw_step a w)). ov_tries g < maxOverflowTries"
    if "\<forall>g \<in> set (bw_overflows w). ov_tries g < maxOverflowTries"
    using that
    by (cases a) (auto simp: Writer_Write_def maxOverflowTries_def flushBuffer_def flushWrite_def retryWrites_turn_def
        Let_def remove_at_def split: option.split dest!: set_update_subset_insert[THEN subsetD] in_set_takeD in_set_dropD)
  with snoc show ?case by (simp add: w_def)
qed

text \<open>Attempts that fail, fewer than the goroutine has left.\<close>

lemma retry_fails:
  assumes "i < length (bw_overflows w)" and "\<forall>e \<in> set errs. e \<noteq> None"
    and "ov_tries (bw_overflows w ! i) + length errs < maxOverflowTries"
  shows "let w' = fold (\<lambda>err. bw_step (BW_Retry i err)) errs w
    in bw_overflows w' = (bw_overflows w)
         [i := (bw_overflows w ! i)\<lparr>ov_tries := ov_tries (bw_overflows w ! i) + length errs\<rparr>] \<and>
       bw_written w' = bw_written w \<and> bw_dropped w' = bw_dropped w"
  using assms
proof (induction errs arbitrary: w)
  case Nil
  then show ?case by simp
next
  case (Cons err errs)
  let ?g = "bw_overflows w ! i"
  have step: "bw_overflows (bw_step (BW_Retry i err) w) = (bw_overflows w)[i := ?g\<lparr>ov_tries := Suc (ov_tries ?g)\<rparr>]"
    "bw_written (bw_step (BW_Retry i err) w) = bw_written w"
    "bw_dropped (bw_step (BW_Retry i err) w) = bw_dropped w"
    using Cons.prems by (auto simp: retryWrites_turn_def flushWrite_def Let_def)
  from Cons.IH[of "bw_step (BW_Retry i err) w"] Cons.prems show ?case
    by (simp add: step Let_def del: bw_step.simps)
qed

lemma retry_succeeds:
  "i < length (bw_overflows w) \<Longrightarrow>
   bw_written (bw_step (BW_Retry i None) w) =
     bw_written w @ [(ov_message (bw_overflows w ! i), ov_chainers (bw_overflows w ! i))]"
  by (simp add: retryWrites_turn_def flushWrite_def Let_def)

lemma retry_gives_up:
  assumes "i < length (bw_overflows w)" and "Suc (ov_tries (bw_overflows w ! i)) = maxOverflowTries"
  shows "bw_dropped (bw_step (BW_Retry i (Some e)) w) = bw_dropped w @ [ucast (ov_count (bw_overflows w ! i))]"
    and "bw_overflows (bw_step (BW_Retry i (Some e)) w) = remove_at i (bw_overflows w)"
  using assms by (simp_all add: retryWrites_turn_def flushWrite_def Let_def)

text \<open>
  What is in the buffer gets out. From every state the batch writer can reach without being
  stopped, whatever writes failed before, one period of its timer is enough: when the timer runs
  out, its value is received and the write below succeeds, the whole buffer, in the order of
  writing, has been handed on with its chainers, and the buffer is empty. And the goroutine of an
  overflow ends with the attempts it has left of its five: at the first that succeeds its batch
  is handed on, and if all fail the batch is counted as dropped.
\<close>

theorem buffer_gets_flushed:
  assumes new: "NewBatchWriter capacity = Inr w0" and run: "BW_Stop \<notin> set acts" and w: "w = fold bw_step acts w0"
  shows "(let w' = fold bw_step [BW_Fire, BW_Receive, BW_Flush None] w
     in mb_buffer (bw_msgBuffer w') = [] \<and>
        bw_written w' = bw_written w @
          (if mb_buffer (bw_msgBuffer w) = [] then [] else [(mb_buffer (bw_msgBuffer w), bw_chainers w)])) \<and>
    (\<forall>i < length (bw_overflows w). \<forall>fails e.
       let g = bw_overflows w ! i; w' = fold (\<lambda>err. bw_step (BW_Retry i (Some err))) fails w
       in ov_tries g + length fails < maxOverflowTries \<longrightarrow>
          bw_written (bw_step (BW_Retry i None) w') = bw_written w @ [(ov_message g, ov_chainers g)] \<and>
          (Suc (ov_tries g + length fails) = maxOverflowTries \<longrightarrow>
             bw_dropped (bw_step (BW_Retry i (Some e)) w') = bw_dropped w @ [ucast (ov_count g)] \<and>
             bw_overflows (bw_step (BW_Retry i (Some e)) w') = remove_at i (bw_overflows w)))"
proof (intro conjI allI impI)
  obtain sent lost pending buf where r: "bw_rel w sent lost pending buf"
    using bw_reachable_rel[OF new, of acts] w by blast
  have empty: "mb_messages (bw_msgBuffer w) = 0 \<longleftrightarrow> mb_buffer (bw_msgBuffer w) = []"
    using bw_rel_count[OF r] r length_frame[of buf] by (auto simp: bw_rel_def)
  have "bw_armed w" using bw_run_armed[OF run new] w by simp
  then show "let w' = fold bw_step [BW_Fire, BW_Receive, BW_Flush None] w
     in mb_buffer (bw_msgBuffer w') = [] \<and>
        bw_written w' = bw_written w @
          (if mb_buffer (bw_msgBuffer w) = [] then [] else [(mb_buffer (bw_msgBuffer w), bw_chainers w)])"
    using empty by (auto simp: Let_def bw_armed_def flushBuffer_def flushWrite_def messageBuffer_Reset_def)
next
  fix i fails e
  assume i: "i < length (bw_overflows w)"
  let ?g = "bw_overflows w ! i" and ?w' = "fold (\<lambda>err. bw_step (BW_Retry i (Some err))) fails w"
  have eq: "?w' = fold (\<lambda>err. bw_step (BW_Retry i err)) (map Some fails) w"
    by (simp add: fold_map comp_def del: bw_step.simps)
  show "let g = ?g; w' = ?w'
       in ov_tries g + length fails < maxOverflowTries \<longrightarrow>
          bw_written (bw_step (BW_Retry i None) w') = bw_written w @ [(ov_message g, ov_chainers g)] \<and>
          (Suc (ov_tries g + length fails) = maxOverflowTries \<longrightarrow>
             bw_dropped (bw_step (BW_Retry i (Some e)) w') = bw_dropped w @ [ucast (ov_count g)] \<and>
             bw_overflows (bw_step (BW_Retry i (Some e)) w') = remove_at i (bw_overflows w))"
    unfolding Let_def
  proof (intro impI)
    assume few: "ov_tries ?g + length fails < maxOverflowTries"
    have w': "bw_overflows ?w' = (bw_overflows w)[i := ?g\<lparr>ov_tries := ov_tries ?g + length fails\<rparr>]"
      "bw_written ?w' = bw_written w" "bw_dropped ?w' = bw_dropped w"
      using retry_fails[OF i, of "map Some fails"] few by (simp_all add: eq Let_def del: bw_step.simps)
    have rem: "remove_at i ((bw_overflows w)[i := g]) = remove_at i (bw_overflows w)" for g
      by (simp add: remove_at_def)
    show "bw_written (bw_step (BW_Retry i None) ?w') = bw_written w @ [(ov_message ?g, ov_chainers ?g)] \<and>
          (Suc (ov_tries ?g + length fails) = maxOverflowTries \<longrightarrow>
             bw_dropped (bw_step (BW_Retry i (Some e)) ?w') = bw_dropped w @ [ucast (ov_count ?g)] \<and>
             bw_overflows (bw_step (BW_Retry i (Some e)) ?w') = remove_at i (bw_overflows w))"
      using i retry_succeeds[of i ?w'] retry_gives_up[of i ?w' e] by (simp add: w' rem del: bw_step.simps)
  qed
qed

theorem buffer_gets_flushed_witness:
  "\<exists>w0 w. NewBatchWriter 1024 = Inr w0 \<and> w = fold bw_step [BW_Write ''ab'' [], BW_Fire, BW_Receive, BW_Flush (Some ''down''),
       BW_Write ''c'' []] w0 \<and>
     map fst (bw_written (fold bw_step [BW_Fire, BW_Receive, BW_Flush None] w)) = [frame_all [''ab'', ''c'']]"
proof -
  let ?acts = "[BW_Write ''ab'' [], BW_Fire, BW_Receive, BW_Flush (Some ''down''), BW_Write ''c'' []]"
  define w0 :: batch_writer where "w0 = \<lparr>bw_capacity = 1024, bw_msgBuffer = \<lparr>mb_buffer = [], mb_messages = 0\<rparr>,
      bw_chainers = [], bw_timer = False, bw_timer_C = False, bw_ticked = False,
      bw_overflows = [], bw_written = [], bw_dropped = [], bw_metrics = []\<rparr>"
  have new: "NewBatchWriter 1024 = Inr w0" by (simp add: NewBatchWriter_def minBufferCapacity_def w0_def)
  define w where "w = fold bw_step ?acts w0"
  have "mb_buffer (bw_msgBuffer w) = frame_all [''ab'', ''c'']" "bw_written w = []"
    unfolding w_def w0_def
    by (simp_all add: Writer_Write_def Let_def flushWrite_def flushBuffer_def messageBuffer_Write_def frame_all_def)
  moreover have "frame_all [''ab'', ''c''] \<noteq> []" by (simp add: frame_all_def prefixMessage_def)
  ultimately have sent: "map fst (bw_written (fold bw_step [BW_Fire, BW_Receive, BW_Flush None] w)) = [frame_all [''ab'', ''c'']]"
    using buffer_gets_flushed[OF new _ w_def] by (simp add: Let_def del: fold_simps fold.simps)
  show ?thesis by (intro exI[of _ w0] exI[of _ w] conjI) (rule new w_def sent)+
qed

section \<open>The transponder\<close>

text \<open>
  The tags of an envelope: its own tags win over its deprecated tags, and these over the tags of
  the agent.
\<close>

lemma mget_fold_tags:
  "wf_map xs \<Longrightarrow> mget (fold (\<lambda>(k, v) m. mput k (text_value v) m) xs m) k =
     (case mget xs k of None \<Rightarrow> mget m k | Some v \<Rightarrow> Some (text_value v))"
proof (induction xs arbitrary: m)
  case (Cons p xs)
  then have "mget xs (fst p) = None" by (simp add: mget_None_iff)
  with Cons show ?case by (cases p) (auto split: option.split)
qed simp

lemma mget_fold_defaults:
  "wf_map xs \<Longrightarrow>
   mget (fold (\<lambda>(k, v) m. if mget m k = None then mput k (text_value v) m else m) xs m) k =
     (case mget m k of Some x \<Rightarrow> Some x | None \<Rightarrow> map_option text_value (mget xs k))"
proof (induction xs arbitrary: m)
  case (Cons p xs)
  then have "mget xs (fst p) = None" by (simp add: mget_None_iff)
  with Cons show ?case by (cases p) (auto split: option.split)
qed (simp split: option.split)

lemma addTags_lookup:
  assumes "wf_heap h" and "wf_map (tx_tags t)"
  shows "mget (deprecated_tags (addTags t h e)) k =
    (case mget (tags_at h (e2_Tags e)) k of
       Some v \<Rightarrow> Some (text_value v)
     | None \<Rightarrow> (case mget (deprecated_tags e) k of
         Some x \<Rightarrow> Some x
       | None \<Rightarrow> map_option text_value (mget (tx_tags t) k)))"
  using assms
  by (simp add: addTags_def Let_def deprecated_tags_def mget_fold_tags mget_fold_defaults split: option.split)

lemma taken_simps [simp]:
  "taken [] = []" "taken (ts @ [a]) = taken ts @ (case tt_next a of None \<Rightarrow> [] | Some e \<Rightarrow> [e])"
  by (simp_all add: taken_def map_filter_def split: option.split)

lemma envelopes_in_snoc [simp]:
  "envelopes_in P [] = 0"
  "envelopes_in P (ws @ [(b, err)]) = envelopes_in P ws + (if P err then length b else 0)"
  by (simp_all add: envelopes_in_def)

lemma Transponder_turn_ok:
  assumes "tx_ok t s"
  shows "tx_ok t (Transponder_turn t h a s)"
proof -
  let ?batch = "case tt_next a of None \<Rightarrow> ts_batch s | Some e \<Rightarrow> ts_batch s @ [addTags t h e]"
  consider (idle) "tt_next a = None" "\<not> batchReady t (ts_batch s) (ts_lastSent s) (tt_now1 a)"
    | (wait) "\<not> (tt_next a = None \<and> \<not> batchReady t (ts_batch s) (ts_lastSent s) (tt_now1 a))"
        "\<not> batchReady t ?batch (ts_lastSent s) (tt_now2 a)"
    | (send) "\<not> (tt_next a = None \<and> \<not> batchReady t (ts_batch s) (ts_lastSent s) (tt_now1 a))"
        "batchReady t ?batch (ts_lastSent s) (tt_now2 a)" by argo
  then show ?thesis
  proof cases
    case idle
    with assms show ?thesis by (simp add: Transponder_turn_def)
  next
    case wait
    then have "int (length ?batch) < max 1 (tx_batchSize t)"
      by (auto simp: batchReady_def split: if_splits)
    with wait assms show ?thesis
      by (simp add: Transponder_turn_def tx_ok_def Let_def)
  next
    case send
    have "int (length ?batch) \<le> max 1 (tx_batchSize t)" "?batch \<noteq> []"
      using assms send(2) by (auto simp: tx_ok_def batchReady_def split: option.split if_splits)
    with send assms show ?thesis
      by (auto simp: Transponder_turn_def tx_ok_def Transponder_write_def Let_def split: option.split)
  qed
qed

lemma Transponder_turn_order:
  "concat (map fst (ts_writes (Transponder_turn t h a s))) @ ts_batch (Transponder_turn t h a s) =
   concat (map fst (ts_writes s)) @ ts_batch s @ (case tt_next a of None \<Rightarrow> [] | Some e \<Rightarrow> [addTags t h e])"
  by (auto simp: Transponder_turn_def Transponder_write_def Let_def split: option.split)

text \<open>A turn that finds the interval over leaves nothing in the batch.\<close>

lemma Transponder_turn_interval:
  assumes "tt_now1 a - ts_lastSent s \<ge> tx_batchInterval t" and "tt_now2 a - ts_lastSent s \<ge> tx_batchInterval t"
  shows "ts_batch (Transponder_turn t h a s) = []"
  using assms by (auto simp: Transponder_turn_def batchReady_def Let_def split: option.split)

text \<open>
  The transponder. For every sequence of turns of its loop, whatever the clock shows and
  whatever the writer returns, the batches written and the batch being filled are, in order and
  each once, the envelopes taken from the diode with their tags added; no written batch is empty
  or over the batch size, the unfinished batch is always under it, and the egress and dropped
  counters are the numbers of envelopes in the batches written with and without success.
\<close>

theorem transponder_batches:
  assumes s_def: "s = fold (Transponder_turn t h) turns (Transponder_start now)"
  shows "concat (map fst (ts_writes s)) @ ts_batch s = map (addTags t h) (taken turns) \<and>
    (\<forall>(b, err) \<in> set (ts_writes s). b \<noteq> [] \<and> int (length b) \<le> max 1 (tx_batchSize t)) \<and>
    int (length (ts_batch s)) < max 1 (tx_batchSize t) \<and>
    ts_egress s = of_nat (envelopes_in (\<lambda>err. err = None) (ts_writes s)) \<and>
    ts_dropped s = of_nat (envelopes_in (\<lambda>err. err \<noteq> None) (ts_writes s))"
proof -
  have "concat (map fst (ts_writes s)) @ ts_batch s = map (addTags t h) (taken turns)"
    unfolding s_def
  proof (induction turns rule: rev_induct)
    case Nil
    then show ?case by (simp add: Transponder_start_def)
  next
    case (snoc a turns)
    then show ?case by (auto simp: Transponder_turn_order simp flip: append_assoc split: option.split)
  qed
  moreover have "tx_ok t s"
    unfolding s_def
  proof (induction turns rule: rev_induct)
    case Nil
    then show ?case by (simp add: Transponder_start_def tx_ok_def)
  next
    case (snoc a turns)
    then show ?case by (simp add: Transponder_turn_ok)
  qed
  ultimately show ?thesis by (simp add: tx_ok_def)
qed

theorem transponder_batches_witness:
  "\<exists>s. s = fold (Transponder_turn sample_transponder [])
       [sample_turn 1 None, sample_turn 2 (Some ''no doppler''), sample_turn 3 None] (Transponder_start 0) \<and>
     length (ts_writes s) = 1 \<and>
     concat (map fst (ts_writes s)) @ ts_batch s =
       map (addTags sample_transponder []) [hits_v2 1 ''k'', hits_v2 2 ''k'', hits_v2 3 ''k''] \<and>
     (\<forall>(b, err) \<in> set (ts_writes s). int (length b) \<le> max 1 2) \<and> ts_egress s = 0 \<and> ts_dropped s = 2"
proof -
  let ?turns = "[sample_turn 1 None, sample_turn 2 (Some ''no doppler''), sample_turn 3 None]"
  define s where "s = fold (Transponder_turn sample_transponder []) ?turns (Transponder_start 0)"
  have "taken ?turns = [hits_v2 1 ''k'', hits_v2 2 ''k'', hits_v2 3 ''k'']"
    by (simp add: taken_def map_filter_def sample_turn_def)
  with transponder_batches[OF s_def]
  have props: "concat (map fst (ts_writes s)) @ ts_batch s =
       map (addTags sample_transponder []) [hits_v2 1 ''k'', hits_v2 2 ''k'', hits_v2 3 ''k'']"
    "\<forall>(b, err) \<in> set (ts_writes s). int (length b) \<le> max 1 2"
    by (auto simp: sample_transponder_def)
  have run: "length (ts_writes s) = 1" "ts_egress s = 0" "ts_dropped s = 2"
    unfolding s_def
    by (simp_all add: Transponder_turn_def Transponder_start_def Transponder_write_def batchReady_def
        sample_transponder_def sample_turn_def Let_def)
  show ?thesis by (intro exI[of _ s] conjI) (rule s_def run props)+
qed

end
