(* ===== verification/Go_Net.thy ===== *)
theory Go_Net
  imports Go_Numbers
begin

text \<open>
  What the sources use of Go's network libraries: host and port (\<open>net\<close>), escaping and query
  strings (\<open>net/url\<close>), Base64, the response writer and the requests of \<open>net/http\<close>, and the
  writer of \<open>mime/multipart\<close>.

  A handler writes its response through a \<open>ResponseWriter\<close>: the header map can be changed at any
  time, but the first \<open>WriteHeader\<close>, or the first byte of the body, sends a copy of it, and what
  is set or written to the status afterwards has no effect.
\<close>

section \<open>Host and port\<close>

definition first_index :: "char \<Rightarrow> string \<Rightarrow> nat option" where
  "first_index c s = (if c \<in> set s then Some (length (takeWhile (\<lambda>x. x \<noteq> c) s)) else None)"

definition last_index :: "char \<Rightarrow> string \<Rightarrow> nat option" where
  "last_index c s = map_option (\<lambda>i. length s - 1 - i) (first_index c (rev s))"

text \<open>\<open>net.SplitHostPort\<close> and \<open>net.JoinHostPort\<close>.\<close>

definition SplitHostPort :: "string \<Rightarrow> (string \<times> string) result" where
  "SplitHostPort hostport =
     (case last_index (CHR '':'') hostport of
        None \<Rightarrow> Inl ''missing port in address''
      | Some i \<Rightarrow>
          (let port = drop (Suc i) hostport;
               finish = (\<lambda>host j k.
                 if CHR ''['' \<in> set (drop j hostport) then Inl ''unexpected '[' in address''
                 else if CHR '']'' \<in> set (drop k hostport) then Inl ''unexpected ']' in address''
                 else Inr (host, port))
           in if hd hostport = CHR ''['' then
                (case first_index (CHR '']'') hostport of
                   None \<Rightarrow> Inl ''missing ']' in address''
                 | Some e \<Rightarrow>
                     (if Suc e = length hostport then Inl ''missing port in address''
                      else if Suc e = i then finish (take (e - 1) (drop 1 hostport)) 1 (Suc e)
                      else if hostport ! Suc e = CHR '':'' then Inl ''too many colons in address''
                      else Inl ''missing port in address''))
              else
                (if CHR '':'' \<in> set (take i hostport) then Inl ''too many colons in address''
                 else finish (take i hostport) 0 0)))"

definition JoinHostPort :: "string \<Rightarrow> string \<Rightarrow> string" where
  "JoinHostPort host port =
     (if CHR '':'' \<in> set host \<or> CHR ''%'' \<in> set host then ''['' @ host @ '']:'' @ port
      else host @ '':'' @ port)"

section \<open>Escaping and query strings\<close>

definition between :: "char \<Rightarrow> char \<Rightarrow> char \<Rightarrow> bool" where
  "between a b c \<longleftrightarrow> (of_char a :: nat) \<le> of_char c \<and> (of_char c :: nat) \<le> of_char b"

definition unreserved :: "char \<Rightarrow> bool" where
  "unreserved c \<longleftrightarrow> between (CHR ''a'') (CHR ''z'') c \<or> between (CHR ''A'') (CHR ''Z'') c \<or>
     between (CHR ''0'') (CHR ''9'') c \<or> c \<in> {CHR ''-'', CHR ''_'', CHR ''.'', CHR ''~''}"

definition upper_hex :: "nat \<Rightarrow> char" where
  "upper_hex d = (if d < 10 then char_of (48 + d) else char_of (55 + d))"

definition escape_char :: "char \<Rightarrow> string" where
  "escape_char c =
     (if unreserved c then [c]
      else if c = CHR '' '' then ''+''
      else [CHR ''%'', upper_hex (of_char c div 16), upper_hex (of_char c mod 16)])"

definition QueryEscape :: "string \<Rightarrow> string" where
  "QueryEscape s = concat (map escape_char s)"

text \<open>\<open>url.QueryUnescape\<close>: \<open>None\<close> for an invalid escape.\<close>

fun QueryUnescape :: "string \<Rightarrow> string option" where
  "QueryUnescape [] = Some []"
| "QueryUnescape (c # cs) =
     (if c = CHR ''%'' then
        (case cs of
           a # b # rest \<Rightarrow>
             (case (hex_val a, hex_val b) of
                (Some x, Some y) \<Rightarrow> map_option (Cons (char_of (16 * x + y))) (QueryUnescape rest)
              | _ \<Rightarrow> None)
         | _ \<Rightarrow> None)
      else map_option (Cons (if c = CHR ''+'' then CHR '' '' else c)) (QueryUnescape cs))"

type_synonym url_values = "(string, string list) gomap"

text \<open>
  \<open>URL.Query\<close>: the pairs that parse, in order; a pair whose key or value does not unescape is
  left out.
\<close>

definition query_pair :: "string \<Rightarrow> url_values \<Rightarrow> url_values" where
  "query_pair p m =
     (if p = [] then m
      else let key = takeWhile (\<lambda>c. c \<noteq> CHR ''='') p;
               value = drop (Suc (length key)) p
           in case (QueryUnescape key, QueryUnescape value) of
                (Some k, Some v) \<Rightarrow> mput k (mget_or [] m k @ [v]) m
              | _ \<Rightarrow> m)"

definition ParseQuery :: "string \<Rightarrow> url_values" where
  "ParseQuery q = fold query_pair (concat (map (split_on (CHR '';'')) (split_on (CHR ''&'') q))) []"

definition Values_Get :: "url_values \<Rightarrow> string \<Rightarrow> string" where
  "Values_Get m k = (case mget m k of Some (v # _) \<Rightarrow> v | _ \<Rightarrow> [])"

text \<open>\<open>url.Values\<close> with one pair, encoded.\<close>

definition encode_pair :: "string \<Rightarrow> string \<Rightarrow> string" where
  "encode_pair k v = QueryEscape k @ ''='' @ QueryEscape v"

section \<open>Base64\<close>

definition base64_char :: "nat \<Rightarrow> char" where
  "base64_char n =
     (if n < 26 then char_of (65 + n) else if n < 52 then char_of (71 + n)
      else if n < 62 then char_of (n - 4) else if n = 62 then CHR ''+'' else CHR ''/'')"

fun base64 :: "bytes \<Rightarrow> string" where
  "base64 [] = []"
| "base64 [a] =
     (let n = of_char a * 16 in [base64_char (n div 64), base64_char (n mod 64), CHR ''='', CHR ''=''])"
| "base64 [a, b] =
     (let n = (of_char a * 256 + of_char b) * 4
      in [base64_char (n div 4096), base64_char (n div 64 mod 64), base64_char (n mod 64), CHR ''=''])"
| "base64 (a # b # c # cs) =
     (let n = (of_char a * 256 + of_char b) * 256 + of_char c
      in [base64_char (n div 262144), base64_char (n div 4096 mod 64), base64_char (n div 64 mod 64),
          base64_char (n mod 64)] @ base64 cs)"

section \<open>HTTP\<close>

type_synonym headers = "(string, string list) gomap"

definition Header_Get :: "headers \<Rightarrow> string \<Rightarrow> string" where
  "Header_Get = Values_Get"

text \<open>A request that the program sends, and the answer to it with the result of reading its body.\<close>

record http_request =
  rq_Method :: string
  rq_URL :: string
  rq_Header :: headers
  rq_Body :: bytes

record http_response =
  rp_StatusCode :: int
  rp_Body :: "bytes result"

type_synonym http_client = "http_request \<Rightarrow> http_response result"

definition SetBasicAuth :: "string \<Rightarrow> string \<Rightarrow> http_request \<Rightarrow> http_request" where
  "SetBasicAuth user password r =
     r\<lparr>rq_Header := mput ''Authorization'' [''Basic '' @ base64 (user @ '':'' @ password)] (rq_Header r)\<rparr>"

text \<open>A request that a handler serves; the variables of its route are separate.\<close>

record server_request =
  hr_Method :: string
  hr_Path :: string
  hr_RawQuery :: string
  hr_Header :: headers
  hr_Cookies :: "(string \<times> string) list"
  hr_RemoteAddr :: string

record response =
  rs_header :: headers
  rs_sent :: "(int \<times> headers) option"
  rs_body :: bytes

definition new_response :: response where
  "new_response = \<lparr>rs_header = [], rs_sent = None, rs_body = []\<rparr>"

definition set_header :: "string \<Rightarrow> string \<Rightarrow> response \<Rightarrow> response" where
  "set_header k v w = w\<lparr>rs_header := mput k [v] (rs_header w)\<rparr>"

definition add_header :: "string \<Rightarrow> string \<Rightarrow> response \<Rightarrow> response" where
  "add_header k v w = w\<lparr>rs_header := mput k (mget_or [] (rs_header w) k @ [v]) (rs_header w)\<rparr>"

definition WriteHeader :: "int \<Rightarrow> response \<Rightarrow> response" where
  "WriteHeader status w =
     (case rs_sent w of None \<Rightarrow> w\<lparr>rs_sent := Some (status, rs_header w)\<rparr> | Some _ \<Rightarrow> w)"

definition write_body :: "bytes \<Rightarrow> response \<Rightarrow> response" where
  "write_body b w = (let w' = WriteHeader 200 w in w'\<lparr>rs_body := rs_body w' @ b\<rparr>)"

text \<open>The status that the client sees: a handler that writes nothing answers 200.\<close>

definition status_of :: "response \<Rightarrow> int" where
  "status_of w = (case rs_sent w of None \<Rightarrow> 200 | Some (s, _) \<Rightarrow> s)"

definition sent_header :: "response \<Rightarrow> headers" where
  "sent_header w = (case rs_sent w of None \<Rightarrow> rs_header w | Some (_, h) \<Rightarrow> h)"

section \<open>Multipart bodies\<close>

definition crlf :: string where
  "crlf = [CHR 0x0D, CHR 0x0A]"

text \<open>
  \<open>CreatePart(nil)\<close>, for the first part and for a later one, followed by its content, and
  \<open>Close\<close>.
\<close>

definition delimiter :: "string \<Rightarrow> string" where
  "delimiter boundary = crlf @ ''--'' @ boundary"

definition multipart_part :: "string \<Rightarrow> bool \<Rightarrow> bytes \<Rightarrow> bytes" where
  "multipart_part boundary isfirst content =
     (if isfirst then ''--'' @ boundary else delimiter boundary) @ crlf @ crlf @ content"

definition multipart_close :: "string \<Rightarrow> bytes" where
  "multipart_close boundary = delimiter boundary @ ''--'' @ crlf"

fun multipart_parts :: "string \<Rightarrow> bool \<Rightarrow> bytes list \<Rightarrow> bytes" where
  "multipart_parts boundary isfirst [] = []"
| "multipart_parts boundary isfirst (m # ms) =
     multipart_part boundary isfirst m @ multipart_parts boundary False ms"

text \<open>
  The reference for reading such a body: the content of a part ends where the delimiter first
  occurs; the rest of the delimiter's line tells whether another part follows.
\<close>

fun cut_at :: "string \<Rightarrow> string \<Rightarrow> (string \<times> string) option" where
  "cut_at d s =
     (if hasPrefix s d then Some ([], drop (length d) s)
      else case s of [] \<Rightarrow> None | c # cs \<Rightarrow> map_option (\<lambda>(a, b). (c # a, b)) (cut_at d cs))"

fun read_parts :: "nat \<Rightarrow> string \<Rightarrow> string \<Rightarrow> bytes list option" where
  "read_parts 0 boundary s = None"
| "read_parts (Suc n) boundary s =
     (if s = ''--'' @ crlf then Some []
      else if hasPrefix s (crlf @ crlf) then
        Option.bind (cut_at (delimiter boundary) (drop 4 s)) (\<lambda>(content, rest).
          map_option (Cons content) (read_parts n boundary rest))
      else None)"

text \<open>The body starts with a delimiter of which the line break may be missing.\<close>

definition read_multipart :: "string \<Rightarrow> bytes \<Rightarrow> bytes list option" where
  "read_multipart boundary body =
     (if hasPrefix body (''--'' @ boundary) then
        read_parts (Suc (length body)) boundary (drop (length boundary + 2) body)
      else if hasPrefix body (delimiter boundary) then
        read_parts (Suc (length body)) boundary (drop (length boundary + 4) body)
      else None)"

section \<open>Lemmas on host and port\<close>

lemma takeWhile_neq: "c \<notin> set s \<Longrightarrow> takeWhile (\<lambda>x. x \<noteq> c) (s @ c # t) = s"
  by (induction s) auto

lemma last_index_append: "c \<notin> set t \<Longrightarrow> last_index c (s @ c # t) = Some (length s)"
  by (simp add: last_index_def first_index_def takeWhile_neq)

lemma first_index_append: "c \<notin> set s \<Longrightarrow> first_index c (s @ c # t) = Some (length s)"
  by (simp add: first_index_def takeWhile_neq)

text \<open>An address put together by \<open>JoinHostPort\<close> comes apart again.\<close>

lemma Split_Join_HostPort:
  assumes host: "CHR ''['' \<notin> set host" "CHR '']'' \<notin> set host"
    and port: "CHR '':'' \<notin> set port" "CHR ''['' \<notin> set port" "CHR '']'' \<notin> set port"
  shows "SplitHostPort (JoinHostPort host port) = Inr (host, port)"
proof (cases "CHR '':'' \<in> set host \<or> CHR ''%'' \<in> set host")
  case True
  let ?s = "(CHR ''['' # host) @ CHR '']'' # CHR '':'' # port"
  have "last_index (CHR '':'') ((CHR ''['' # host @ [CHR '']'']) @ CHR '':'' # port) = Some (length host + 2)"
    using port(1) by (subst last_index_append) simp_all
  then have "last_index (CHR '':'') ?s = Some (length host + 2)" by simp
  moreover have "first_index (CHR '']'') ?s = Some (Suc (length host))"
    using host(2) by (subst first_index_append) simp_all
  moreover have "drop (Suc (length host)) (host @ CHR '']'' # CHR '':'' # port) = CHR '':'' # port"
    "drop (length host + 2) (host @ CHR '']'' # CHR '':'' # port) = port"
    by simp_all
  ultimately show ?thesis
    using True host port by (simp add: JoinHostPort_def SplitHostPort_def)
next
  case False
  moreover have "last_index (CHR '':'') (host @ CHR '':'' # port) = Some (length host)"
    using port(1) by (rule last_index_append)
  moreover have "hd (host @ CHR '':'' # port) \<noteq> CHR ''[''"
    using host(1) by (cases host) auto
  ultimately show ?thesis
    using host port by (simp add: JoinHostPort_def SplitHostPort_def)
qed

section \<open>Lemmas on escaping\<close>

lemma hex_val_upper [simp]: "d < 16 \<Longrightarrow> hex_val (upper_hex d) = Some d"
  by (auto simp: hex_val_def upper_hex_def)

lemma unreserved_plain: "unreserved c \<Longrightarrow> c \<noteq> CHR ''%'' \<and> c \<noteq> CHR ''+''"
  by (auto simp: unreserved_def between_def)

lemma of_char_split [simp]: "char_of (16 * ((of_char c :: nat) div 16) + of_char c mod 16) = c"
  by (simp add: mult_div_mod_eq)

lemma QueryUnescape_char: "QueryUnescape (escape_char c @ s) = map_option (Cons c) (QueryUnescape s)"
proof -
  have "(of_char c :: nat) div 16 < 16"
    using of_char_lt_256[of c] by (simp add: less_mult_imp_div_less)
  then show ?thesis using unreserved_plain[of c] by (auto simp: escape_char_def)
qed

text \<open>Unescaping undoes escaping.\<close>

lemma QueryUnescape_escape [simp]: "QueryUnescape (QueryEscape s) = Some s"
  by (induction s) (simp_all add: QueryEscape_def QueryUnescape_char)

section \<open>Lemmas on multipart bodies\<close>

declare cut_at.simps [simp del]

text \<open>
  The delimiter starts with a character that it does not have elsewhere, so it cannot occur
  across the end of the content in front of it.
\<close>

lemma prefix_across:
  assumes "c \<notin> set d'" and "hasPrefix (xs @ (c # d') @ s) (c # d')" and "xs \<noteq> []"
  shows "hasPrefix xs (c # d')"
proof (cases "length (c # d') \<le> length xs")
  case True
  with assms(2) show ?thesis by (simp add: hasPrefix_def)
next
  case False
  from assms(2) obtain t where t: "xs @ (c # d') @ s = (c # d') @ t" by (auto simp: hasPrefix_iff)
  have "(xs @ (c # d') @ s) ! length xs = c" by (simp add: nth_append)
  moreover have "((c # d') @ t) ! length xs = d' ! (length xs - 1)"
    using False assms(3) by (simp add: nth_Cons nth_append split: nat.split)
  ultimately have "c = d' ! (length xs - 1)" unfolding t by simp
  moreover have "length xs - 1 < length d'"
    using False assms(3) by (cases xs) auto
  ultimately show ?thesis using assms(1) nth_mem by metis
qed

lemma cut_at_append:
  assumes "c \<notin> set d'" and "cut_at (c # d') m = None"
  shows "cut_at (c # d') (m @ (c # d') @ s) = Some (m, s)"
  using assms(2)
proof (induction m)
  case Nil
  show ?case by (subst cut_at.simps) (simp add: hasPrefix_def)
next
  case (Cons x xs)
  from Cons.prems have no: "\<not> hasPrefix (x # xs) (c # d')" and rest: "cut_at (c # d') xs = None"
    by (subst (asm) cut_at.simps, simp split: if_splits)+
  have "\<not> hasPrefix ((x # xs) @ (c # d') @ s) (c # d')"
    using prefix_across[OF assms(1), of "x # xs" s] no by blast
  with Cons.IH[OF rest] show ?case by (subst cut_at.simps) simp
qed

lemma delimiter_Cons: "delimiter b = CHR 0x0D # (CHR 0x0A # ''--'' @ b)"
  by (simp add: delimiter_def crlf_def)

lemma cut_at_delimiter:
  assumes "CHR 0x0D \<notin> set b" and "cut_at (delimiter b) m = None"
  shows "cut_at (delimiter b) (m @ delimiter b @ s) = Some (m, s)"
  using cut_at_append[of "CHR 0x0D" "CHR 0x0A # ''--'' @ b" m s] assms
  unfolding delimiter_Cons by simp

lemma read_parts_written:
  assumes "CHR 0x0D \<notin> set b" and "\<forall>m \<in> set ms. cut_at (delimiter b) m = None" and "length ms < n"
  shows "read_parts n b (case ms of [] \<Rightarrow> ''--'' @ crlf
      | m # ms' \<Rightarrow> crlf @ crlf @ m @ multipart_parts b False ms' @ multipart_close b) = Some ms"
  using assms(2,3)
proof (induction ms arbitrary: n)
  case Nil
  then show ?case by (cases n) simp_all
next
  case (Cons m ms)
  obtain k where n: "n = Suc k" "length ms < k" using Cons.prems(2) by (cases n) auto
  let ?rest = "case ms of [] \<Rightarrow> ''--'' @ crlf
      | m # ms' \<Rightarrow> crlf @ crlf @ m @ multipart_parts b False ms' @ multipart_close b"
  have tail: "multipart_parts b False ms @ multipart_close b = delimiter b @ ?rest"
    by (cases ms) (simp_all add: multipart_close_def multipart_part_def)
  have "cut_at (delimiter b) (m @ delimiter b @ ?rest) = Some (m, ?rest)"
    using Cons.prems(1) by (intro cut_at_delimiter[OF assms(1)]) simp
  moreover have "read_parts k b ?rest = Some ms"
    using Cons.IH[of k] Cons.prems(1) n(2) by simp
  moreover have "hasPrefix (crlf @ crlf @ m @ delimiter b @ ?rest) (crlf @ crlf)"
    using hasPrefix_append[of "crlf @ crlf"] by simp
  moreover have "crlf @ crlf @ m @ delimiter b @ ?rest \<noteq> ''--'' @ crlf" by (simp add: crlf_def)
  moreover have "drop 4 (crlf @ crlf @ m @ delimiter b @ ?rest) = m @ delimiter b @ ?rest"
    by (simp add: crlf_def)
  ultimately show ?case by (simp add: n(1) tail)
qed

text \<open>What was written as parts is read back, if no part contains the delimiter.\<close>

lemma read_multipart_written:
  assumes "CHR 0x0D \<notin> set b" and "\<forall>m \<in> set ms. cut_at (delimiter b) m = None"
  shows "read_multipart b (multipart_parts b True ms @ multipart_close b) = Some ms"
proof (cases ms)
  case Nil
  let ?body = "multipart_close b"
  have "\<not> hasPrefix ?body (''--'' @ b)" and "hasPrefix ?body (delimiter b)"
    by (simp_all add: multipart_close_def hasPrefix_iff delimiter_Cons)
  moreover have "length (delimiter b) = length b + 4" by (simp add: delimiter_Cons)
  then have "drop (length b + 4) ?body = ''--'' @ crlf" by (simp add: multipart_close_def)
  ultimately show ?thesis by (simp add: read_multipart_def Nil)
next
  case (Cons m ms')
  let ?body = "multipart_parts b True ms @ multipart_close b"
  let ?rest = "crlf @ crlf @ m @ multipart_parts b False ms' @ multipart_close b"
  have body: "?body = (''--'' @ b) @ ?rest"
    by (simp add: Cons multipart_part_def)
  have "length ms' \<le> length (multipart_parts b False ms')"
    by (induction ms') (auto simp: multipart_part_def crlf_def)
  then have "length ms < Suc (length ?body)" by (simp add: Cons multipart_part_def crlf_def)
  from read_parts_written[OF assms this] Cons
  have "read_parts (Suc (length ?body)) b ?rest = Some ms" by simp
  moreover have "hasPrefix ?body (''--'' @ b)" unfolding body by (rule hasPrefix_append)
  moreover have "drop (length b + 2) ?body = ?rest" unfolding body by simp
  ultimately show ?thesis by (simp add: read_multipart_def)
qed

end
