(* ===== verification/Health_Gauges.thy ===== *)
theory Health_Gauges
  imports Go_Prelude
begin

text \<open>
  The health gauges that a component serves, \<open>healthendpoint/registrar.go\<close>. A gauge that was not
  registered is a panic: \<open>None\<close>. Registering with and serving through the Prometheus client is
  not modelled. Each component registers its gauges once and then only counts in them; the
  lemmas say that counting never panics and what is counted.
\<close>

section \<open>The registrar\<close>

type_synonym gauges = "(string, int) gomap"

definition Registrar_Set :: "string \<Rightarrow> int \<Rightarrow> gauges \<Rightarrow> gauges option" where
  "Registrar_Set name v g = (case mget g name of None \<Rightarrow> None | Some _ \<Rightarrow> Some (mput name v g))"

definition Registrar_Inc :: "string \<Rightarrow> gauges \<Rightarrow> gauges option" where
  "Registrar_Inc name g = (case mget g name of None \<Rightarrow> None | Some v \<Rightarrow> Some (mput name (v + 1) g))"

definition Registrar_Dec :: "string \<Rightarrow> gauges \<Rightarrow> gauges option" where
  "Registrar_Dec name g = (case mget g name of None \<Rightarrow> None | Some v \<Rightarrow> Some (mput name (v - 1) g))"

section \<open>Counting in a gauge\<close>

lemma Registrar_IncDec:
  assumes "mget g name = Some v"
  shows "\<exists>g'. Registrar_Inc name g = Some g' \<and> Registrar_Dec name g' = Some (mput name v (mput name (v + 1) g))"
  using assms by (simp add: Registrar_Inc_def Registrar_Dec_def)

end
