(* ===== verification/Metron_Pool.thy ===== *)
theory Metron_Pool
  imports Go_Net Health_Gauges
begin

text \<open>
  The connections of the metron agent to the dopplers: \<open>metron/internal/clientpool\<close>, in both API
  versions.

  A connection manager is shared by the goroutines that write and by its own goroutine
  \<open>maintainConn\<close>. It is a machine: each writer and the maintaining goroutine have a program
  counter, an action is one atomic operation of one of them, and an action that is not possible
  in a state changes nothing. The two versions differ in one line, how a worn-out connection is
  taken out of use. \<open>None\<close> is a panic. DNS lookups, dialling and opening a stream are arguments.
\<close>

section \<open>Balancers\<close>

text \<open>
  \<open>NextHostPort\<close>: \<open>lookup\<close> is the lookup of the balancer, its addresses in text form, and
  \<open>draw\<close> the random number.
\<close>

definition NextHostPort :: "(string \<Rightarrow> string list result) \<Rightarrow> nat \<Rightarrow> string \<Rightarrow> string result" where
  "NextHostPort lookup draw addr =
     (case SplitHostPort addr of
        Inl err \<Rightarrow> Inl err
      | Inr (host, port) \<Rightarrow>
          (case lookup host of
             Inl err \<Rightarrow> Inl err
           | Inr ips \<Rightarrow>
               (if ips = [] then Inl (''lookup failed with addr '' @ addr)
                else Inr (JoinHostPort (ips ! (draw mod length ips)) port))))"

text \<open>\<open>NewBalancer\<close> as the agent calls it: first the dopplers of the zone, then all.\<close>

definition setup_balancers :: "string \<Rightarrow> string \<Rightarrow> string list" where
  "setup_balancers zone dopplerAddr = [zone @ ''.'' @ dopplerAddr, dopplerAddr]"

section \<open>Connecting\<close>

datatype version = V1 | V2

definition stream_gauge :: "version \<Rightarrow> string" where
  "stream_gauge v = (case v of V1 \<Rightarrow> ''dopplerV1Streams'' | V2 \<Rightarrow> ''dopplerV2Streams'')"

text \<open>
  \<open>Fetch\<close> of both fetchers, given the errors of dialling and of opening the stream. A stream
  that fails leaves the gauge of the connections incremented.
\<close>

definition Fetch ::
  "version \<Rightarrow> string option \<Rightarrow> string option \<Rightarrow> string \<Rightarrow> gauges \<Rightarrow> (string option \<times> gauges) option" where
  "Fetch v dial_err stream_err addr g =
     (case dial_err of
        Some e \<Rightarrow> Some (Some (''error dialing ingestor stream to '' @ addr @ '': '' @ e), g)
      | None \<Rightarrow>
          Option.bind (Registrar_Inc ''dopplerConnections'' g) (\<lambda>g1.
            case stream_err of
              Some e \<Rightarrow> Some (Some (''error establishing ingestor stream to '' @ addr @ '': '' @ e), g1)
            | None \<Rightarrow> map_option (\<lambda>g2. (None, g2)) (Registrar_Inc (stream_gauge v) g1)))"

text \<open>\<open>Connect\<close>: the first balancer that gives an address is used.\<close>

fun Connect ::
  "version \<Rightarrow> string result list \<Rightarrow> string option \<Rightarrow> string option \<Rightarrow> gauges \<Rightarrow> (string option \<times> gauges) option" where
  "Connect v [] dial_err stream_err g = Some (Some ''unable to lookup a log consumer'', g)"
| "Connect v (Inl _ # bs) dial_err stream_err g = Connect v bs dial_err stream_err g"
| "Connect v (Inr hostPort # bs) dial_err stream_err g = Fetch v dial_err stream_err hostPort g"

text \<open>\<open>decrementingCloser.Close\<close>\<close>

definition decrementingCloser_Close :: "version \<Rightarrow> gauges \<Rightarrow> gauges option" where
  "decrementingCloser_Close v g =
     Option.bind (Registrar_Dec ''dopplerConnections'' g) (Registrar_Dec (stream_gauge v))"

section \<open>The connection manager\<close>

record grpc_conn =
  gc_writes :: int
  gc_open :: bool

text \<open>
  Where a writer is in \<open>Write\<close>: not in it, with the connection it loaded, after a successful
  send, about to take the connection out of use after an error and after too many writes, about
  to close it, about to signal the maintaining goroutine.
\<close>

datatype writer_pc =
    W_Idle
  | W_Loaded nat
  | W_Sent nat
  | W_Failed nat
  | W_WornOut nat
  | W_Cleared nat
  | W_Closed

text \<open>Where \<open>maintainConn\<close> is: at its first send, waiting, checking, connecting, storing.\<close>

datatype maint_pc = M_Start | M_Wait | M_Check | M_Connect | M_Store nat

record conn_manager =
  cm_conn :: "nat option"
  cm_store :: "grpc_conn list"
  cm_reset :: nat
  cm_writers :: "writer_pc list"
  cm_maint :: maint_pc
  cm_gauges :: gauges

definition NewConnManager :: "nat \<Rightarrow> gauges \<Rightarrow> conn_manager" where
  "NewConnManager writers g =
     \<lparr>cm_conn = None, cm_store = [], cm_reset = 0, cm_writers = replicate writers W_Idle,
      cm_maint = M_Start, cm_gauges = g\<rparr>"

datatype cm_action =
    CM_Load nat
  | CM_Send nat "string option"
  | CM_Count nat
  | CM_Clear nat
  | CM_Close nat
  | CM_Signal nat
  | CM_Start
  | CM_Tick
  | CM_Wake
  | CM_Check
  | CM_Connect "string result list" "string option" "string option"
  | CM_Store

definition set_pc :: "nat \<Rightarrow> writer_pc \<Rightarrow> conn_manager \<Rightarrow> conn_manager" where
  "set_pc i pc s = s\<lparr>cm_writers := (cm_writers s)[i := pc]\<rparr>"

text \<open>
  The atomic operations of \<open>Write\<close> for writer \<open>i\<close>. After an error both versions store nil
  unconditionally; a worn-out connection is taken out by a compare-and-swap in version 1, which
  leaves a connection that another goroutine has put there, and by a store in version 2.
\<close>

definition writer_step ::
  "version \<Rightarrow> int \<Rightarrow> nat \<Rightarrow> writer_pc \<Rightarrow> cm_action \<Rightarrow> conn_manager \<Rightarrow> conn_manager option" where
  "writer_step v maxWrites i pc a s =
     (case (pc, a) of
        (W_Idle, CM_Load _) \<Rightarrow>
          (case cm_conn s of None \<Rightarrow> Some s | Some c \<Rightarrow> Some (set_pc i (W_Loaded c) s))
      | (W_Loaded c, CM_Send _ err) \<Rightarrow>
          Some (set_pc i (if err = None then W_Sent c else W_Failed c) s)
      | (W_Sent c, CM_Count _) \<Rightarrow>
          (let n = gc_writes (cm_store s ! c) + 1;
               s' = s\<lparr>cm_store := (cm_store s)[c := (cm_store s ! c)\<lparr>gc_writes := n\<rparr>]\<rparr>
           in Some (set_pc i (if n \<ge> maxWrites then W_WornOut c else W_Idle) s'))
      | (W_Failed c, CM_Clear _) \<Rightarrow> Some (set_pc i (W_Cleared c) (s\<lparr>cm_conn := None\<rparr>))
      | (W_WornOut c, CM_Clear _) \<Rightarrow>
          (case v of
             V1 \<Rightarrow> if cm_conn s = Some c then Some (set_pc i (W_Cleared c) (s\<lparr>cm_conn := None\<rparr>))
                   else Some (set_pc i W_Idle s)
           | V2 \<Rightarrow> Some (set_pc i (W_Cleared c) (s\<lparr>cm_conn := None\<rparr>)))
      | (W_Cleared c, CM_Close _) \<Rightarrow>
          map_option
            (\<lambda>g. set_pc i W_Closed
               (s\<lparr>cm_gauges := g, cm_store := (cm_store s)[c := (cm_store s ! c)\<lparr>gc_open := False\<rparr>]\<rparr>))
            (decrementingCloser_Close v (cm_gauges s))
      | (W_Closed, CM_Signal _) \<Rightarrow>
          Some (if cm_reset s < 100 then set_pc i W_Idle (s\<lparr>cm_reset := cm_reset s + 1\<rparr>) else s)
      | _ \<Rightarrow> Some s)"

text \<open>The operations of \<open>maintainConn\<close>.\<close>

definition maint_step :: "version \<Rightarrow> cm_action \<Rightarrow> conn_manager \<Rightarrow> conn_manager option" where
  "maint_step v a s =
     (case (cm_maint s, a) of
        (M_Start, CM_Start) \<Rightarrow>
          Some (if cm_reset s < 100 then s\<lparr>cm_reset := cm_reset s + 1, cm_maint := M_Wait\<rparr> else s)
      | (M_Wait, CM_Tick) \<Rightarrow> Some (s\<lparr>cm_maint := M_Check\<rparr>)
      | (M_Wait, CM_Wake) \<Rightarrow>
          Some (if cm_reset s = 0 then s else s\<lparr>cm_reset := cm_reset s - 1, cm_maint := M_Check\<rparr>)
      | (M_Check, CM_Check) \<Rightarrow>
          Some (s\<lparr>cm_maint := (if cm_conn s = None then M_Connect else M_Wait)\<rparr>)
      | (M_Connect, CM_Connect hosts dial_err stream_err) \<Rightarrow>
          map_option
            (\<lambda>(err, g).
               if err = None
               then s\<lparr>cm_gauges := g, cm_store := cm_store s @ [\<lparr>gc_writes = 0, gc_open = True\<rparr>],
                      cm_maint := M_Store (length (cm_store s))\<rparr>
               else s\<lparr>cm_gauges := g, cm_maint := M_Wait\<rparr>)
            (Connect v hosts dial_err stream_err (cm_gauges s))
      | (M_Store c, CM_Store) \<Rightarrow> Some (s\<lparr>cm_conn := Some c, cm_maint := M_Wait\<rparr>)
      | _ \<Rightarrow> Some s)"

fun writer_of :: "cm_action \<Rightarrow> nat option" where
  "writer_of (CM_Load i) = Some i"
| "writer_of (CM_Send i _) = Some i"
| "writer_of (CM_Count i) = Some i"
| "writer_of (CM_Clear i) = Some i"
| "writer_of (CM_Close i) = Some i"
| "writer_of (CM_Signal i) = Some i"
| "writer_of _ = None"

definition cm_step :: "version \<Rightarrow> int \<Rightarrow> cm_action \<Rightarrow> conn_manager \<Rightarrow> conn_manager option" where
  "cm_step v maxWrites a s =
     (case writer_of a of
        None \<Rightarrow> maint_step v a s
      | Some i \<Rightarrow> if i < length (cm_writers s) then writer_step v maxWrites i (cm_writers s ! i) a s else Some s)"

section \<open>The client pool\<close>

text \<open>
  \<open>ClientPool.Write\<close>: the connections in turn, from a random one on, until one accepts the
  message. \<open>write\<close> is the \<open>Write\<close> of the connection at an index.
\<close>

fun pool_write_from ::
  "(nat \<Rightarrow> 's \<Rightarrow> string option \<times> 's) \<Rightarrow> int \<Rightarrow> nat \<Rightarrow> nat list \<Rightarrow> 's \<Rightarrow> (string option \<times> 's) option" where
  "pool_write_from write seed n [] s = Some (Some ''unable to write to any dopplers'', s)"
| "pool_write_from write seed n (i # is) s =
     (let idx = pool_index i seed n
      in if idx < 0 \<or> int n \<le> idx then None
         else case write (nat idx) s of
                (None, s') \<Rightarrow> Some (None, s')
              | (Some _, s') \<Rightarrow> pool_write_from write seed n is s')"

definition ClientPool_Write ::
  "(nat \<Rightarrow> 's \<Rightarrow> string option \<times> 's) \<Rightarrow> int \<Rightarrow> nat \<Rightarrow> 's \<Rightarrow> (string option \<times> 's) option" where
  "ClientPool_Write write seed n s = pool_write_from write seed n [0..<n] s"

section \<open>Sizes of sent payloads\<close>

text \<open>
  \<open>StatsHandler.HandleRPC\<close>: the arguments of \<open>Track\<close> for an outgoing payload.
\<close>

datatype rpc_stats =
    OutPayload_EnvelopeData bytes nat
  | OutPayload_Envelope nat
  | OutPayload_EnvelopeBatch nat nat
  | OutPayload_other
  | RPC_other

fun HandleRPC :: "rpc_stats \<Rightarrow> (nat \<times> nat) option" where
  "HandleRPC (OutPayload_EnvelopeData payload len) = Some (1, length payload)"
| "HandleRPC (OutPayload_Envelope len) = Some (1, len)"
| "HandleRPC (OutPayload_EnvelopeBatch n len) = Some (n, len)"
| "HandleRPC OutPayload_other = None"
| "HandleRPC RPC_other = None"

section \<open>Specifications\<close>

text \<open>The connections that are open.\<close>

definition open_conns :: "conn_manager \<Rightarrow> nat set" where
  "open_conns s = {c. c < length (cm_store s) \<and> gc_open (cm_store s ! c)}"

text \<open>The connections a writer or the maintaining goroutine still has a use for.\<close>

definition conns_in_use :: "conn_manager \<Rightarrow> nat set" where
  "conns_in_use s =
     set_option (cm_conn s) \<union> {c. cm_maint s = M_Store c} \<union> {c. W_Cleared c \<in> set (cm_writers s)}"

fun pc_conn :: "writer_pc \<Rightarrow> nat option" where
  "pc_conn (W_Loaded c) = Some c"
| "pc_conn (W_Sent c) = Some c"
| "pc_conn (W_Failed c) = Some c"
| "pc_conn (W_WornOut c) = Some c"
| "pc_conn _ = None"

text \<open>The invariant of a manager with one writer; \<open>d\<close> counts the streams that failed to open.\<close>

definition cm_inv :: "version \<Rightarrow> int \<Rightarrow> nat \<Rightarrow> conn_manager \<Rightarrow> bool" where
  "cm_inv v maxWrites d s \<longleftrightarrow>
     (\<exists>pc. cm_writers s = [pc] \<and>
        (\<forall>c. pc_conn pc = Some c \<longrightarrow> cm_conn s = Some c) \<and>
        (\<forall>c. pc = W_Cleared c \<longrightarrow> c < length (cm_store s) \<and> cm_conn s \<noteq> Some c \<and> cm_maint s \<noteq> M_Store c) \<and>
        (\<forall>c. cm_conn s = Some c \<longrightarrow> c < length (cm_store s) \<and>
           (pc \<noteq> W_WornOut c \<longrightarrow> gc_writes (cm_store s ! c) < maxWrites))) \<and>
     (\<forall>c. cm_maint s = M_Store c \<longrightarrow> c < length (cm_store s) \<and> gc_writes (cm_store s ! c) < maxWrites) \<and>
     (cm_maint s = M_Connect \<or> (\<exists>c. cm_maint s = M_Store c) \<longrightarrow> cm_conn s = None) \<and>
     open_conns s = conns_in_use s \<and>
     mget (cm_gauges s) ''dopplerConnections'' = Some (int (card (open_conns s) + d)) \<and>
     mget (cm_gauges s) (stream_gauge v) = Some (int (card (open_conns s))) \<and>
     (\<forall>x \<in> set (cm_store s). gc_writes x \<le> maxWrites)"

text \<open>Whether an action is an attempt to connect whose stream fails.\<close>

fun stream_fails :: "cm_action \<Rightarrow> bool" where
  "stream_fails (CM_Connect hosts dial_err stream_err) = (stream_err \<noteq> None)"
| "stream_fails _ = False"

definition metron_gauges :: gauges where
  "metron_gauges = [(''dopplerConnections'', 0), (''dopplerV1Streams'', 0), (''dopplerV2Streams'', 0)]"

section \<open>The gauges\<close>

lemma stream_gauge_neq [simp]: "stream_gauge v \<noteq> ''dopplerConnections''"
  "''dopplerConnections'' \<noteq> stream_gauge v"
  by (cases v; simp add: stream_gauge_def)+

lemma Close_gauges:
  assumes "mget g ''dopplerConnections'' = Some a" and "mget g (stream_gauge v) = Some b"
  shows "decrementingCloser_Close v g = Some (mput (stream_gauge v) (b - 1) (mput ''dopplerConnections'' (a - 1) g))"
  using assms by (simp add: decrementingCloser_Close_def Registrar_Dec_def)

lemma Connect_gauges:
  assumes "mget g ''dopplerConnections'' = Some a" and "mget g (stream_gauge v) = Some b"
  shows "\<exists>err g'. Connect v hosts dial_err stream_err g = Some (err, g') \<and>
    (if err = None
     then g' = mput (stream_gauge v) (b + 1) (mput ''dopplerConnections'' (a + 1) g)
     else g' = g \<or> stream_err \<noteq> None \<and> g' = mput ''dopplerConnections'' (a + 1) g)"
  using assms
  by (induction v hosts dial_err stream_err g rule: Connect.induct)
     (auto simp: Fetch_def Registrar_Inc_def split: option.split)

section \<open>The connection manager with one writer\<close>

lemma open_conns_count [simp]:
  "open_conns (s\<lparr>cm_store := (cm_store s)[c := (cm_store s ! c)\<lparr>gc_writes := n\<rparr>]\<rparr>) = open_conns s"
  by (cases "c < length (cm_store s)")
     (auto simp: open_conns_def nth_list_update list_update_beyond split: if_splits)

lemma open_conns_frame [simp]:
  "open_conns (s\<lparr>cm_conn := x\<rparr>) = open_conns s" "open_conns (s\<lparr>cm_maint := m\<rparr>) = open_conns s"
  "open_conns (s\<lparr>cm_reset := r\<rparr>) = open_conns s" "open_conns (s\<lparr>cm_gauges := g\<rparr>) = open_conns s"
  "open_conns (s\<lparr>cm_writers := ws\<rparr>) = open_conns s"
  by (simp_all add: open_conns_def set_pc_def)

lemma finite_open_conns [simp]: "finite (open_conns s)"
  by (simp add: open_conns_def)

lemma open_conns_close:
  "cm_store s' = (cm_store s)[c := (cm_store s ! c)\<lparr>gc_open := False\<rparr>] \<Longrightarrow> open_conns s' = open_conns s - {c}"
  by (cases "c < length (cm_store s)")
     (auto simp: open_conns_def nth_list_update list_update_beyond split: if_splits)

lemma open_conns_new:
  "cm_store s' = cm_store s @ [\<lparr>gc_writes = 0, gc_open = True\<rparr>] \<Longrightarrow>
   open_conns s' = insert (length (cm_store s)) (open_conns s)"
  by (auto simp: open_conns_def nth_append)

lemma open_conns_bound: "length (cm_store s) \<notin> open_conns s"
  by (simp add: open_conns_def)

lemma writer_step_inv:
  assumes inv: "cm_inv v mw d s" and a: "writer_of a = Some 0" and pc: "cm_writers s = [pc]"
  shows "\<exists>s'. writer_step v mw 0 pc a s = Some s' \<and> cm_inv v mw d s'"
proof -
  note defs = writer_step_def cm_inv_def conns_in_use_def
  consider (load) i where "pc = W_Idle" "a = CM_Load i" | (send) c i err where "pc = W_Loaded c" "a = CM_Send i err"
    | (counted) c i where "pc = W_Sent c" "a = CM_Count i" | (failed) c i where "pc = W_Failed c" "a = CM_Clear i"
    | (worn) c i where "pc = W_WornOut c" "a = CM_Clear i" | (close) c i where "pc = W_Cleared c" "a = CM_Close i"
    | (signal) i where "pc = W_Closed" "a = CM_Signal i" | (other) "writer_step v mw 0 pc a s = Some s"
    by (cases pc; cases a) (auto simp: writer_step_def)
  then show ?thesis
  proof cases
    case load
    with inv pc show ?thesis by (auto simp: defs set_pc_def split: option.split)
  next
    case send
    with inv pc show ?thesis by (auto simp: defs set_pc_def)
  next
    case counted
    with inv pc show ?thesis
      by (auto simp: defs set_pc_def Let_def nth_list_update dest!: set_update_subset_insert[THEN subsetD])
  next
    case failed
    with inv pc show ?thesis by (auto simp: defs set_pc_def)
  next
    case worn
    with inv pc show ?thesis by (cases v) (auto simp: defs set_pc_def)
  next
    case close
    let ?n = "card (open_conns s)"
    have gauges: "mget (cm_gauges s) ''dopplerConnections'' = Some (int (?n + d))"
      "mget (cm_gauges s) (stream_gauge v) = Some (int ?n)"
      using inv by (simp_all add: cm_inv_def)
    define g where "g = mput (stream_gauge v) (int ?n - 1) (mput ''dopplerConnections'' (int (?n + d) - 1) (cm_gauges s))"
    define s' where "s' = set_pc 0 W_Closed
      (s\<lparr>cm_gauges := g, cm_store := (cm_store s)[c := (cm_store s ! c)\<lparr>gc_open := False\<rparr>]\<rparr>)"
    have step: "writer_step v mw 0 pc a s = Some s'"
      using close Close_gauges[OF gauges] by (simp add: writer_step_def s'_def g_def)
    have opened: "open_conns s' = open_conns s - {c}"
      by (rule open_conns_close) (simp add: s'_def set_pc_def)
    have c: "c \<in> open_conns s" using inv close pc by (auto simp: cm_inv_def conns_in_use_def)
    then have "0 < ?n" by (auto simp: card_gt_0_iff)
    with c have "int (card (open_conns s - {c})) = int ?n - 1"
      by (simp add: card_Diff_singleton of_nat_diff)
    then have g': "mget g ''dopplerConnections'' = Some (int (card (open_conns s - {c}) + d))"
      "mget g (stream_gauge v) = Some (int (card (open_conns s - {c})))"
      by (simp_all add: g_def)
    have "gc_writes ((cm_store s)[c := (cm_store s ! c)\<lparr>gc_open := False\<rparr>] ! x) = gc_writes (cm_store s ! x)" for x
      by (cases "c < length (cm_store s)") (auto simp: nth_list_update list_update_beyond)
    then have "cm_inv v mw d s'"
      using inv close pc unfolding cm_inv_def opened
      by (auto simp: s'_def set_pc_def conns_in_use_def g' dest!: set_update_subset_insert[THEN subsetD])
    with step show ?thesis by blast
  next
    case signal
    with inv pc show ?thesis by (auto simp: defs set_pc_def)
  next
    case other
    with inv show ?thesis by simp
  qed
qed

lemma maint_step_inv:
  assumes inv: "cm_inv v mw d s" and mw: "0 < mw"
  shows "\<exists>s' d'. maint_step v a s = Some s' \<and> cm_inv v mw d' s' \<and> d \<le> d' \<and> (\<not> stream_fails a \<longrightarrow> d' = d)"
proof -
  note defs = maint_step_def cm_inv_def conns_in_use_def
  consider (connect) hosts e1 e2 where "cm_maint s = M_Connect" "a = CM_Connect hosts e1 e2"
    | (store) c where "cm_maint s = M_Store c" "a = CM_Store"
    | (check) "cm_maint s = M_Check" "a = CM_Check"
    | (wait) "cm_maint s = M_Start" "a = CM_Start" | (tick) "cm_maint s = M_Wait" "a = CM_Tick"
    | (wake) "cm_maint s = M_Wait" "a = CM_Wake"
    | (other) "maint_step v a s = Some s"
    by (cases "cm_maint s"; cases a) (auto simp: maint_step_def)
  then show ?thesis
  proof cases
    case connect
    let ?n = "card (open_conns s)"
    have gauges: "mget (cm_gauges s) ''dopplerConnections'' = Some (int (?n + d))"
      "mget (cm_gauges s) (stream_gauge v) = Some (int ?n)"
      using inv by (simp_all add: cm_inv_def)
    from Connect_gauges[OF gauges, of hosts e1 e2] obtain err g where
      con: "Connect v hosts e1 e2 (cm_gauges s) = Some (err, g)"
      and ok: "err = None \<Longrightarrow>
        g = mput (stream_gauge v) (int ?n + 1) (mput ''dopplerConnections'' (int (?n + d) + 1) (cm_gauges s))"
      and fail: "err \<noteq> None \<Longrightarrow>
        g = cm_gauges s \<or> e2 \<noteq> None \<and> g = mput ''dopplerConnections'' (int (?n + d) + 1) (cm_gauges s)"
      by (auto split: if_splits)
    show ?thesis
    proof (cases "err = None")
      case True
      define s' where "s' = s\<lparr>cm_gauges := g, cm_store := cm_store s @ [\<lparr>gc_writes = 0, gc_open = True\<rparr>],
                      cm_maint := M_Store (length (cm_store s))\<rparr>"
      have step: "maint_step v a s = Some s'"
        using connect con True by (simp add: maint_step_def s'_def)
      have opened: "open_conns s' = insert (length (cm_store s)) (open_conns s)"
        by (rule open_conns_new) (simp add: s'_def)
      have g': "mget g ''dopplerConnections'' = Some (int (card (open_conns s') + d))"
        "mget g (stream_gauge v) = Some (int (card (open_conns s')))"
        using ok[OF True] open_conns_bound[of s] by (simp_all add: opened)
      have "cm_inv v mw d s'"
        using inv connect g' mw unfolding cm_inv_def opened
        by (auto simp: s'_def conns_in_use_def nth_append)
      with step show ?thesis by blast
    next
      case False
      have "maint_step v a s = Some (s\<lparr>cm_gauges := g, cm_maint := M_Wait\<rparr>)"
        using connect con False by (simp add: maint_step_def)
      moreover have "cm_inv v mw (if g = cm_gauges s then d else Suc d) (s\<lparr>cm_gauges := g, cm_maint := M_Wait\<rparr>)"
        using inv connect fail[OF False] by (auto simp: cm_inv_def conns_in_use_def)
      moreover have "\<not> stream_fails a \<longrightarrow> g = cm_gauges s"
        using fail[OF False] connect by auto
      moreover have "d \<le> (if g = cm_gauges s then d else Suc d)" by simp
      ultimately show ?thesis by (intro exI conjI) (assumption | simp)+
    qed
  next
    case store
    with inv show ?thesis by (auto simp: defs)
  next
    case check
    with inv show ?thesis by (auto simp: defs)
  next
    case wait
    with inv show ?thesis by (auto simp: defs)
  next
    case tick
    with inv show ?thesis by (auto simp: defs)
  next
    case wake
    with inv show ?thesis by (auto simp: defs)
  next
    case other
    with inv show ?thesis by auto
  qed
qed

lemma cm_step_inv:
  assumes inv: "cm_inv v mw d s" and mw: "0 < mw"
  shows "\<exists>s' d'. cm_step v mw a s = Some s' \<and> cm_inv v mw d' s' \<and> d \<le> d' \<and> (\<not> stream_fails a \<longrightarrow> d' = d)"
proof -
  obtain pc where pc: "cm_writers s = [pc]" using inv by (auto simp: cm_inv_def)
  consider (maint) "writer_of a = None" | (writer) "writer_of a = Some 0" | (other) i where "writer_of a = Some (Suc i)"
    by (cases "writer_of a") (auto, metis not0_implies_Suc)
  then show ?thesis
  proof cases
    case maint
    with maint_step_inv[OF inv mw, of a] show ?thesis by (simp add: cm_step_def)
  next
    case writer
    with writer_step_inv[OF inv writer pc] pc show ?thesis by (auto simp: cm_step_def)
  next
    case other
    with inv pc show ?thesis by (auto simp: cm_step_def)
  qed
qed

text \<open>
  C36: The connections of the agent, one writer per manager. In whatever order the writer and the
  maintaining goroutine take their steps, and whatever sends, lookups, dials and streams fail,
  nothing panics, and: the open connections are exactly the current one, the one about to become
  current and the one the writer is about to close, so none is leaked; the gauge of streams is
  the number of open connections, the gauge of connections exceeds it by the number of streams
  that failed to open, so it is exact as long as none did; and no connection carries more writes
  than its limit.
\<close>

theorem one_writer_connections:
  assumes "0 < maxWrites" and "mget g ''dopplerConnections'' = Some 0" and "mget g (stream_gauge v) = Some 0"
  shows "\<exists>s d. foldM (cm_step v maxWrites) acts (NewConnManager 1 g) = Some s \<and>
    open_conns s = conns_in_use s \<and>
    mget (cm_gauges s) (stream_gauge v) = Some (int (card (open_conns s))) \<and>
    mget (cm_gauges s) ''dopplerConnections'' = Some (int (card (open_conns s) + d)) \<and>
    (\<forall>c \<in> set (cm_store s). gc_writes c \<le> maxWrites) \<and>
    ((\<forall>a \<in> set acts. \<not> stream_fails a) \<longrightarrow> d = 0)"
proof -
  have "\<exists>s d. foldM (cm_step v maxWrites) acts (NewConnManager 1 g) = Some s \<and> cm_inv v maxWrites d s \<and>
    ((\<forall>a \<in> set acts. \<not> stream_fails a) \<longrightarrow> d = 0)"
  proof (induction acts rule: rev_induct)
    case Nil
    have "cm_inv v maxWrites 0 (NewConnManager 1 g)"
      using assms by (auto simp: NewConnManager_def cm_inv_def open_conns_def conns_in_use_def)
    then show ?case by auto
  next
    case (snoc a acts)
    then obtain s d where run: "foldM (cm_step v maxWrites) acts (NewConnManager 1 g) = Some s"
      and inv: "cm_inv v maxWrites d s" and d: "(\<forall>a \<in> set acts. \<not> stream_fails a) \<longrightarrow> d = 0" by blast
    from cm_step_inv[OF inv assms(1), of a] obtain s' d' where
      "cm_step v maxWrites a s = Some s'" "cm_inv v maxWrites d' s'" "\<not> stream_fails a \<longrightarrow> d' = d" by blast
    with run d show ?case by (intro exI[of _ s'] exI[of _ d']) (auto simp: foldM_append)
  qed
  then show ?thesis by (auto simp: cm_inv_def)
qed

theorem one_writer_connections_witness:
  "\<exists>s d. foldM (cm_step V1 2) [CM_Start, CM_Wake, CM_Check, CM_Connect [Inl ''no such host'', Inr ''10.0.0.9:8082''] None None,
       CM_Store, CM_Load 0, CM_Send 0 (Some ''EOF''), CM_Clear 0, CM_Close 0] (NewConnManager 1 metron_gauges) = Some s \<and>
    open_conns s = conns_in_use s \<and> d = 0 \<and> mget (cm_gauges s) ''dopplerConnections'' = Some (int (card (open_conns s) + d))"
proof -
  let ?acts = "[CM_Start, CM_Wake, CM_Check, CM_Connect [Inl ''no such host'', Inr ''10.0.0.9:8082''] None None,
       CM_Store, CM_Load 0, CM_Send 0 (Some ''EOF''), CM_Clear 0, CM_Close 0]"
  have "\<forall>a \<in> set ?acts. \<not> stream_fails a" by simp
  moreover have "mget metron_gauges ''dopplerConnections'' = Some 0" "mget metron_gauges (stream_gauge V1) = Some 0"
    by (simp_all add: metron_gauges_def stream_gauge_def)
  ultimately show ?thesis
    using one_writer_connections[of 2 metron_gauges V1 ?acts] by (simp del: foldM.simps) metis
qed

section \<open>Several writers\<close>

text \<open>
  With two writers that fail on the same connection the second store of nil discards the
  connection that the maintaining goroutine made in between, without closing it; the first
  connection is closed twice, so that the gauges show no connection while one is open.
\<close>

lemma two_writers_leak:
  "\<exists>s. foldM (cm_step V1 2)
     [CM_Start, CM_Wake, CM_Check, CM_Connect [Inr ''10.0.0.9:8082''] None None, CM_Store,
      CM_Load 0, CM_Load 1, CM_Send 0 (Some ''EOF''), CM_Clear 0, CM_Close 0, CM_Signal 0,
      CM_Wake, CM_Check, CM_Connect [Inr ''10.0.0.9:8082''] None None, CM_Store,
      CM_Send 1 (Some ''EOF''), CM_Clear 1, CM_Close 1] (NewConnManager 2 metron_gauges) = Some s \<and>
    1 \<in> open_conns s \<and> 1 \<notin> conns_in_use s \<and> mget (cm_gauges s) ''dopplerConnections'' = Some 0"
  by (simp add: cm_step_def maint_step_def writer_step_def NewConnManager_def metron_gauges_def Fetch_def Registrar_Inc_def
      Registrar_Dec_def decrementingCloser_Close_def stream_gauge_def set_pc_def open_conns_def conns_in_use_def
      numeral_2_eq_2)

text \<open>The same in version 2 when two writers wear the connection out together.\<close>

lemma worn_out_twice_leaks:
  "\<exists>s. foldM (cm_step V2 1)
     [CM_Start, CM_Wake, CM_Check, CM_Connect [Inr ''10.0.0.9:8082''] None None, CM_Store,
      CM_Load 0, CM_Load 1, CM_Send 0 None, CM_Send 1 None, CM_Count 0, CM_Count 1, CM_Clear 0, CM_Close 0, CM_Signal 0,
      CM_Wake, CM_Check, CM_Connect [Inr ''10.0.0.9:8082''] None None, CM_Store,
      CM_Clear 1, CM_Close 1] (NewConnManager 2 metron_gauges) = Some s \<and>
    1 \<in> open_conns s \<and> 1 \<notin> conns_in_use s"
  by (simp add: cm_step_def maint_step_def writer_step_def NewConnManager_def metron_gauges_def Fetch_def Registrar_Inc_def
      Registrar_Dec_def decrementingCloser_Close_def stream_gauge_def set_pc_def open_conns_def conns_in_use_def Let_def
      numeral_2_eq_2)

text \<open>
  After a failure the manager connects again: once its writer is idle, one period of the ticker
  with a connection attempt that succeeds is enough, wherever the maintaining goroutine was.
\<close>

lemma manager_reconnects:
  assumes "cm_inv v mw d s" and "cm_reset s < 100"
  shows "\<exists>s'. foldM (cm_step v mw)
      [CM_Start, CM_Check, CM_Connect [Inr h] None None, CM_Store, CM_Tick, CM_Check, CM_Connect [Inr h] None None, CM_Store] s =
    Some s' \<and> cm_conn s' \<noteq> None"
proof -
  obtain a b where g: "mget (cm_gauges s) ''dopplerConnections'' = Some a" "mget (cm_gauges s) (stream_gauge v) = Some b"
    using assms(1) by (simp add: cm_inv_def)
  show ?thesis
    by (cases "cm_maint s"; cases "cm_conn s")
       (use g assms(2) in \<open>simp_all add: cm_step_def maint_step_def Fetch_def Registrar_Inc_def\<close>)
qed

section \<open>The client pool\<close>

lemma pool_write_from_eq:
  assumes "0 \<le> seed" and "seed + int n < 2 ^ 63" and "set is \<subseteq> {..<n}"
  shows "pool_write_from (\<lambda>i tried. (errs i, tried @ [i])) seed n is tried =
    (let order = map (\<lambda>i. (i + nat seed) mod n) is; bad = takeWhile (\<lambda>j. errs j \<noteq> None) order
     in Some (if bad = order then (Some ''unable to write to any dopplers'', tried @ order)
              else (None, tried @ take (Suc (length bad)) order)))"
  using assms(3)
proof (induction "is" arbitrary: tried)
  case (Cons i "is")
  then have i: "i < n" by simp
  define j where "j = (i + nat seed) mod n"
  have idx: "pool_index i seed n = int j"
    unfolding j_def using assms i by (intro pool_index_rotation) auto
  moreover have "j < n" using i by (simp add: j_def)
  ultimately show ?case
    using Cons by (cases "errs j") (auto simp: Let_def simp flip: j_def)
qed simp

text \<open>
  The client pool. With a draw that leaves room for the loop counter a write through the pool
  panics nowhere; it tries the connections in turn from the drawn one on, each at most once, up
  to the first that accepts the message, and fails only when all of them have refused it.
\<close>

theorem pool_write_tries_all:
  assumes "0 \<le> seed" and "seed + int n < 2 ^ 63"
  shows "\<exists>err tried. ClientPool_Write (\<lambda>i tried. (errs i, tried @ [i])) seed n [] = Some (err, tried) \<and>
    distinct tried \<and> (\<exists>rest. tried @ rest = rotation n (nat seed)) \<and>
    (err = None \<longleftrightarrow> (\<exists>i < n. errs i = None)) \<and>
    (err = None \<longrightarrow> tried \<noteq> [] \<and> errs (last tried) = None \<and> (\<forall>j \<in> set (butlast tried). errs j \<noteq> None)) \<and>
    (err \<noteq> None \<longrightarrow> set tried = {..<n})"
proof -
  let ?order = "rotation n (nat seed)" and ?bad = "takeWhile (\<lambda>j. errs j \<noteq> None) (rotation n (nat seed))"
  have w: "ClientPool_Write (\<lambda>i tried. (errs i, tried @ [i])) seed n [] =
     Some (if ?bad = ?order then (Some ''unable to write to any dopplers'', ?order)
           else (None, take (Suc (length ?bad)) ?order))"
    using pool_write_from_eq[OF assms, of "[0..<n]" errs "[]"]
    by (simp add: ClientPool_Write_def rotation_def Let_def atLeast0LessThan)
  have all: "?bad = ?order \<longleftrightarrow> \<not> (\<exists>i < n. errs i = None)"
    unfolding takeWhile_eq_all_conv set_rotation by auto
  show ?thesis
  proof (cases "?bad = ?order")
    case True
    with w all show ?thesis by (auto simp: distinct_rotation set_rotation)
  next
    case False
    then have len: "length ?bad < length ?order"
      by (metis le_neq_implies_less length_takeWhile_le takeWhile_eq_take take_all_iff order_refl)
    have "take (Suc (length ?bad)) ?order = ?bad @ [?order ! length ?bad]"
      using len by (metis take_Suc_conv_app_nth takeWhile_eq_take)
    moreover have "errs (?order ! length ?bad) = None"
      using nth_length_takeWhile[OF len] by simp
    moreover have "\<forall>j \<in> set ?bad. errs j \<noteq> None" by (auto dest: set_takeWhileD)
    ultimately obtain bad x where t: "take (Suc (length ?bad)) ?order = bad @ [x]"
      and x: "errs x = None" and bad: "\<forall>j \<in> set bad. errs j \<noteq> None" by blast
    have res: "ClientPool_Write (\<lambda>i tried. (errs i, tried @ [i])) seed n [] = Some (None, bad @ [x])"
      unfolding w t using False by (simp only: if_False)
    have dist: "distinct (bad @ [x])" unfolding t[symmetric] by (intro distinct_take distinct_rotation)
    have rest: "\<exists>rest. (bad @ [x]) @ rest = ?order" unfolding t[symmetric] by (metis append_take_drop_id)
    have "\<exists>i < n. errs i = None" using False all by blast
    with res dist rest x bad show ?thesis
      by (intro exI[of _ None] exI[of _ "bad @ [x]"]) simp
  qed
qed

theorem pool_write_tries_all_witness:
  "\<exists>err tried. ClientPool_Write (\<lambda>i tried. (if i = 1 then None else Some ''EOF'', tried @ [i])) 3 5 [] = Some (err, tried) \<and>
    err = None \<and> distinct tried \<and> last tried = 1"
  using pool_write_tries_all[of 3 5 "\<lambda>i. if i = 1 then None else Some ''EOF''"]
  by (auto split: if_splits)

end
