(* ===== verification/Agent_V2.thy ===== *)
theory Agent_V2
  imports Metron_Batching
begin

text \<open>
  The v2 path of the agent as \<open>metron/app/app_v2.go\<close> puts it together: the transponder takes
  envelopes from the diode, adds the agent's tags and makes batches; each batch goes through the
  counter aggregator to the pool of doppler connections, whose result goes back to the
  transponder. A turn is a turn of the transponder's loop, with the result of the pool in it.
\<close>

section \<open>The chain of writers\<close>

text \<open>\<open>NewTransponder\<close> with the batch size and interval of \<open>AppV2.Start\<close>, in nanoseconds.\<close>

definition app_transponder :: "(string, string) gomap \<Rightarrow> Transponder" where
  "app_transponder tags = \<lparr>tx_tags = tags, tx_batchSize = 100, tx_batchInterval = 1000000000\<rparr>"

record agent_v2 =
  av_tx :: transponder_state
  av_totals :: totals_v2
  av_pool :: "(v2_envelope list \<times> string option) list"

definition v2_start :: "int \<Rightarrow> agent_v2" where
  "v2_start now = \<lparr>av_tx = Transponder_start now, av_totals = [], av_pool = []\<rparr>"

text \<open>A batch that the transponder writes, and the result that the pool gives.\<close>

definition v2_write ::
  "(v2_value option \<Rightarrow> string) \<Rightarrow> v2_envelope list \<times> string option \<Rightarrow>
     totals_v2 \<times> (v2_envelope list \<times> string option) list \<Rightarrow> totals_v2 \<times> (v2_envelope list \<times> string option) list" where
  "v2_write value_string =
     (\<lambda>(batch, err) s. snd (CounterAggregator_Write value_string (\<lambda>msgs pool. (err, pool @ [(msgs, err)])) batch s))"

definition v2_turn ::
  "Transponder \<Rightarrow> tag_heap \<Rightarrow> (v2_value option \<Rightarrow> string) \<Rightarrow> tx_turn \<Rightarrow> agent_v2 \<Rightarrow> agent_v2" where
  "v2_turn t h value_string a s =
     (let tx = Transponder_turn t h a (av_tx s);
          (totals, pool) = fold (v2_write value_string) (drop (length (ts_writes (av_tx s))) (ts_writes tx))
            (av_totals s, av_pool s)
      in \<lparr>av_tx = tx, av_totals = totals, av_pool = pool\<rparr>)"

section \<open>Definitions for the properties\<close>

text \<open>The sum of the deltas of a counter.\<close>

definition delta_sum :: "(v2_value option \<Rightarrow> string) \<Rightarrow> counterID_v2 option \<Rightarrow> v2_envelope list \<Rightarrow> uint64" where
  "delta_sum value_string k es = sum_list (map delta_of_v2 (filter (\<lambda>e. counter_key_v2 value_string e = k) es))"

definition with_total :: "uint64 \<Rightarrow> v2_envelope \<Rightarrow> v2_envelope" where
  "with_total n e =
     (case GetCounter e of
        None \<Rightarrow> e
      | Some c \<Rightarrow> e\<lparr>e2_Message := Some (Envelope_Counter (c\<lparr>ct_Value := Some (Counter_Total n)\<rparr>))\<rparr>)"

definition sizes :: "(v2_envelope list \<times> string option) list \<Rightarrow> (nat \<times> string option) list" where
  "sizes = map (\<lambda>(batch, err). (length batch, err))"

section \<open>The aggregator behind the transponder\<close>

lemma sizes_simps [simp]: "sizes [] = []" "sizes ((b, err) # ws) = (length b, err) # sizes ws" "sizes (ws @ ws') = sizes ws @ sizes ws'"
  by (simp_all add: sizes_def)

lemma v2_write_run:
  "fold (v2_write vs) ws (t, pool) = (t', pool') \<Longrightarrow>
     CounterAggregator_loop vs (concat (map fst ws)) t = (concat (map fst (drop (length pool) pool')), t') \<and>
     take (length pool) pool' = pool \<and>
     sizes (drop (length pool) pool') = sizes ws"
proof (induction ws arbitrary: t pool)
  case (Cons w ws)
  obtain b err where w: "w = (b, err)" by (cases w)
  obtain b' t1 where l: "CounterAggregator_loop vs b t = (b', t1)" by (cases "CounterAggregator_loop vs b t")
  have "fold (v2_write vs) ws (t1, pool @ [(b', err)]) = (t', pool')"
    using Cons(2) by (simp add: w v2_write_def CounterAggregator_Write_def l)
  from Cons(1)[OF this]
  have run: "CounterAggregator_loop vs (concat (map fst ws)) t1 = (concat (map fst (drop (Suc (length pool)) pool')), t')"
      "take (Suc (length pool)) pool' = pool @ [(b', err)]"
      "sizes (drop (Suc (length pool)) pool') = sizes ws" by simp_all
  then have "length pool < length pool'" by (metis Suc_le_eq length_append_singleton length_take min.absorb_iff2 min.commute nat_le_linear)
  moreover from this run(2) have "take (length pool) pool' = pool" "pool' ! length pool = (b', err)"
    by (simp_all add: take_Suc_conv_app_nth)
  moreover have "length b' = length b" using CounterAggregator_loop_nth(2)[of vs b t] l by simp
  ultimately show ?case
    using run by (simp add: w CounterAggregator_loop_append l Cons_nth_drop_Suc[symmetric])
qed simp

lemma Transponder_turn_writes: "take (length (ts_writes s)) (ts_writes (Transponder_turn t h a s)) = ts_writes s"
  by (auto simp: Transponder_turn_def Transponder_write_def Let_def split: option.split)

text \<open>What the pool has got is what the aggregator makes of what the transponder has written.\<close>

lemma v2_run:
  fixes turns now t h vs
  defines "s \<equiv> fold (v2_turn t h vs) turns (v2_start now)"
  shows "av_tx s = fold (Transponder_turn t h) turns (Transponder_start now) \<and>
    CounterAggregator_loop vs (concat (map fst (ts_writes (av_tx s)))) [] = (concat (map fst (av_pool s)), av_totals s) \<and>
    sizes (av_pool s) = sizes (ts_writes (av_tx s))"
  unfolding s_def
proof (induction turns rule: rev_induct)
  case Nil
  then show ?case by (simp add: v2_start_def Transponder_start_def)
next
  case (snoc a turns)
  define s where "s = fold (v2_turn t h vs) turns (v2_start now)"
  let ?tx = "Transponder_turn t h a (av_tx s)"
  let ?new = "drop (length (ts_writes (av_tx s))) (ts_writes ?tx)"
  obtain totals pool where f: "fold (v2_write vs) ?new (av_totals s, av_pool s) = (totals, pool)"
    by (cases "fold (v2_write vs) ?new (av_totals s, av_pool s)")
  have turn: "v2_turn t h vs a s = \<lparr>av_tx = ?tx, av_totals = totals, av_pool = pool\<rparr>"
    by (simp add: v2_turn_def f)
  have writes: "ts_writes ?tx = ts_writes (av_tx s) @ ?new"
    using Transponder_turn_writes[of "av_tx s" t h a] by (metis append_take_drop_id)
  have p: "pool = av_pool s @ drop (length (av_pool s)) pool"
    using v2_write_run[OF f] by (metis append_take_drop_id)
  note ih = snoc[folded s_def] and w = v2_write_run[OF f]
  have "CounterAggregator_loop vs (concat (map fst (ts_writes ?tx))) [] = (concat (map fst pool), totals)"
    using ih w by (subst writes, subst p) (simp add: CounterAggregator_loop_append)
  moreover have "sizes pool = sizes (ts_writes ?tx)"
    using ih w by (subst writes, subst p) simp
  ultimately show ?case using ih by (simp add: s_def[symmetric] turn)
qed

lemma envelopes_in_lengths:
  assumes "sizes ws = sizes ws'"
  shows "envelopes_in P ws = envelopes_in P ws'"
proof -
  have "envelopes_in P xs = (\<Sum>(n, err) \<leftarrow> sizes xs. if P err then n else 0)" for xs
    by (induction xs) (auto simp: envelopes_in_def)
  then show ?thesis by (simp add: assms)
qed

lemma aggregated_total:
  assumes few: "card (counter_key_v2 vs ` set es) \<le> 10000" and i: "i < length es"
  shows "fst (CounterAggregator_loop vs es []) ! i =
    with_total (delta_sum vs (counter_key_v2 vs (es ! i)) (take (Suc i) es)) (es ! i)"
proof (cases "GetCounter (es ! i)")
  case None
  then show ?thesis using i by (simp add: CounterAggregator_loop_nth aggregate_def with_total_def del: GetCounter.simps)
next
  case (Some c)
  let ?k = "counter_id_v2 vs (es ! i) c" and ?t = "fold (totals_step_v2 vs) (take i es) []"
  note small = totals_v2_small[OF few]
  have key: "counter_key_v2 vs (es ! i) = Some ?k" using Some by (simp add: counter_key_v2_def)
  have "mget_or 0 (fold (totals_step_v2 vs) (take (Suc i) es) []) ?k = delta_sum vs (Some ?k) (take (Suc i) es)"
    using v2_totals.total_run[of "take (Suc i) es" vs "[]" ?k] small
    by (simp add: delta_sum_def mget_or_def[of _ "[]"] min_def)
  then have "mget_or 0 (totals_step_v2 vs (es ! i) ?t) ?k = delta_sum vs (Some ?k) (take (Suc i) es)"
    using i by (simp add: take_Suc_conv_app_nth)
  with Some i small[of i] show ?thesis
    by (simp add: CounterAggregator_loop_nth aggregate_def with_total_def key totals_step_v2_def Let_def del: GetCounter.simps)
qed

section \<open>The path of version 2\<close>

text \<open>
  C8: the v2 path of the agent. Whatever the clock shows and whatever the pool returns, the pool is
  given, in order and each once, the envelopes taken from the diode with the agent's tags, but for
  a rest that is under a batch and waits in the transponder. With at most 10000 different counters,
  each counter in them carries the sum of the deltas so far of its name and tags. No batch is empty
  or over 100 envelopes, and the egress and dropped counters are the numbers of envelopes that the
  pool has accepted and refused.
\<close>

theorem agent_v2_path:
  fixes turns :: "tx_turn list" and tags now vs h
  defines "s \<equiv> fold (v2_turn (app_transponder tags) h vs) turns (v2_start now)"
    and "es \<equiv> map (addTags (app_transponder tags) h) (taken turns)"
  defines "sent \<equiv> take (length es - length (ts_batch (av_tx s))) es"
  assumes few: "card (counter_key_v2 vs ` set es) \<le> 10000"
  shows "length (ts_batch (av_tx s)) < 100 \<and>
    concat (map fst (av_pool s)) =
      map (\<lambda>i. with_total (delta_sum vs (counter_key_v2 vs (sent ! i)) (take (Suc i) sent)) (sent ! i)) [0..<length sent] \<and>
    (\<forall>(b, err) \<in> set (av_pool s). b \<noteq> [] \<and> length b \<le> 100) \<and>
    ts_egress (av_tx s) = of_nat (envelopes_in (\<lambda>err. err = None) (av_pool s)) \<and>
    ts_dropped (av_tx s) = of_nat (envelopes_in (\<lambda>err. err \<noteq> None) (av_pool s))"
proof -
  note run = v2_run[of "app_transponder tags" h vs turns now, folded s_def]
  from transponder_batches[OF conjunct1[OF run]]
  have tx: "concat (map fst (ts_writes (av_tx s))) @ ts_batch (av_tx s) = es"
      "\<forall>(b, err) \<in> set (ts_writes (av_tx s)). b \<noteq> [] \<and> length b \<le> 100" "length (ts_batch (av_tx s)) < 100"
      "ts_egress (av_tx s) = of_nat (envelopes_in (\<lambda>err. err = None) (ts_writes (av_tx s)))"
      "ts_dropped (av_tx s) = of_nat (envelopes_in (\<lambda>err. err \<noteq> None) (ts_writes (av_tx s)))"
    by (auto simp: app_transponder_def es_def)
  have sent: "concat (map fst (ts_writes (av_tx s))) = sent" by (simp add: sent_def tx(1)[symmetric])
  have "card (counter_key_v2 vs ` set sent) \<le> 10000"
    by (rule order_trans[OF card_mono few]) (auto simp: sent_def dest: in_set_takeD)
  from aggregated_total[OF this] run
  have pool: "concat (map fst (av_pool s)) =
      map (\<lambda>i. with_total (delta_sum vs (counter_key_v2 vs (sent ! i)) (take (Suc i) sent)) (sent ! i)) [0..<length sent]"
    by (intro nth_equalityI) (auto simp: sent CounterAggregator_loop_nth(2)[of vs sent "[]", symmetric])
  have "(length b, err) \<in> set (sizes (ts_writes (av_tx s)))" if "(b, err) \<in> set (av_pool s)" for b err
    unfolding conjunct2[OF conjunct2[OF run], symmetric] using that by (force simp: sizes_def)
  then have "b \<noteq> [] \<and> length b \<le> 100" if "(b, err) \<in> set (av_pool s)" for b err
    using that tx(2) by (fastforce simp: sizes_def)
  with tx pool envelopes_in_lengths[of "av_pool s" "ts_writes (av_tx s)"] run show ?thesis by auto
qed

theorem agent_v2_path_witness:
  "\<exists>s. s = fold (v2_turn (app_transponder [(''ip'', ''10.0.0.1'')]) [] plain_text)
        [sample_turn 1 None, (sample_turn 2 None)\<lparr>tt_now2 := 2000000000\<rparr>, sample_turn 3 None] (v2_start 0) \<and>
      length (ts_batch (av_tx s)) < 100 \<and>
      map (map_option ct_Value \<circ> GetCounter) (concat (map fst (av_pool s))) = [Some (Some (Counter_Total 1)), Some (Some (Counter_Total 3))] \<and>
      ts_egress (av_tx s) = of_nat (envelopes_in (\<lambda>err. err = None) (av_pool s))"
proof -
  let ?t = "app_transponder [(''ip'', ''10.0.0.1'')]"
  let ?turns = "[sample_turn 1 None, (sample_turn 2 None)\<lparr>tt_now2 := 2000000000\<rparr>, sample_turn 3 None]"
  let ?es = "map (addTags ?t []) (taken ?turns)"
  define s where "s = fold (v2_turn ?t [] plain_text) ?turns (v2_start 0)"
  have "card (counter_key_v2 plain_text ` set ?es) \<le> length ?es"
    by (rule order_trans[OF card_image_le card_length]) simp
  then have few: "card (counter_key_v2 plain_text ` set ?es) \<le> 10000"
    by (simp add: taken_def map_filter_def sample_turn_def)
  have batch: "length (ts_batch (av_tx s)) = 1"
    unfolding conjunct1[OF v2_run[of ?t "[]" plain_text ?turns 0, folded s_def]]
    by (simp add: Transponder_turn_def Transponder_start_def Transponder_write_def batchReady_def
        app_transponder_def sample_turn_def)
  define e where "e n = addTags ?t [] (hits_v2 n ''k'')" for n
  have sent: "take (length ?es - length (ts_batch (av_tx s))) ?es = [e 1, e 2]"
    by (simp add: batch e_def taken_def map_filter_def sample_turn_def)
  have key: "counter_key_v2 plain_text (e n) = counter_key_v2 plain_text (e 1)" "delta_of_v2 (e n) = n"
      "map_option ct_Value (GetCounter (with_total m (e n))) = Some (Some (Counter_Total m))" for n m
    by (simp_all add: e_def counter_key_v2_def counter_id_v2_def addTags_def hits_v2_def deprecated_tags_def delta_of_v2_def with_total_def Let_def)
  have sums: "delta_sum plain_text (counter_key_v2 plain_text (e n)) [e 1] = 1"
      "delta_sum plain_text (counter_key_v2 plain_text (e n)) [e 1, e 2] = 3" for n
    by (simp_all add: delta_sum_def key(2) key(1)[of n] key(1)[of 2])
  note path = agent_v2_path[of plain_text "[(''ip'', ''10.0.0.1'')]" "[]" ?turns 0, folded s_def, OF few, unfolded sent]
  have "map (map_option ct_Value \<circ> GetCounter) (concat (map fst (av_pool s))) = [Some (Some (Counter_Total 1)), Some (Some (Counter_Total 3))]"
    unfolding conjunct1[OF conjunct2[OF path]] by (simp add: upt_conv_Cons sums key(3) del: GetCounter.simps)
  moreover have "length (ts_batch (av_tx s)) < 100" by (rule conjunct1[OF path])
  moreover have "ts_egress (av_tx s) = of_nat (envelopes_in (\<lambda>err. err = None) (av_pool s))"
    by (rule conjunct1[OF conjunct2[OF conjunct2[OF conjunct2[OF path]]]])
  ultimately show ?thesis by (intro exI[of _ s] conjI s_def)
qed

text \<open>
  The source of an envelope is not part of the key: counters of two sources that agree in name and
  tags are added up, and each leaves the agent with the total of both.
\<close>

lemma sources_share_total:
  assumes "GetCounter e = Some \<lparr>ct_Name = n, ct_Value = Some (Counter_Delta d)\<rparr>"
    and "GetCounter e' = Some \<lparr>ct_Name = n, ct_Value = Some (Counter_Delta d')\<rparr>"
    and "deprecated_tags e = deprecated_tags e'"
  shows "map (map_option ct_Value \<circ> GetCounter) (fst (CounterAggregator_loop vs [e\<lparr>e2_SourceId := a\<rparr>, e'\<lparr>e2_SourceId := b\<rparr>] [])) =
    [Some (Some (Counter_Total d)), Some (Some (Counter_Total (d + d')))]"
  using assms
  by (auto simp: aggregate_def counter_id_v2_def deprecated_tags_def Let_def mget_or_def split: option.splits)

end
