(* ===== verification/Drain_Binder.thy ===== *)
theory Drain_Binder
  imports Service_Store Sha1
begin

text \<open>
  The component \<open>syslog_drain_binder\<close>: instances that elect a leader through a lease in
  the store; the leader asks the cloud controller for the drains of all applications and writes
  them to the store, where the dopplers watch for them.

  The store adapter, the HTTP client with the JSON decoder, and the parsing of a URL are not part
  of the repository or belong to the Go library: they are arguments, and what the code relies on
  is the predicate \<open>lease_store\<close>, with \<open>content\<close> the value a store has for a key. The election is
  a machine over any number of instances that share a store: each call on the adapter is one
  step, and the lease may run out at any time.
\<close>

section \<open>Bindings\<close>

record drain_binding =
  db_Hostname :: string
  db_DrainURLs :: "string list"

type_synonym drain_bindings = "(string, drain_binding) gomap"

section \<open>Polling the cloud controller\<close>

record ccResponse =
  cc_Results :: drain_bindings
  cc_NextID :: "int option"

datatype cc_answer = Http_Failure string | Http_Status string | Http_OK ccResponse

text \<open>
  \<open>pollAndDecode\<close>. The error of the decoder is ignored: \<open>Http_OK\<close> carries what the decoder left
  in the response, so that a body that is no JSON is a page without results and without a
  successor.
\<close>

definition pollAndDecode :: "cc_answer \<Rightarrow> ccResponse result" where
  "pollAndDecode r =
     (case r of
        Http_Failure err \<Rightarrow> Inl err
      | Http_Status txt \<Rightarrow> Inl (''Remote server error: '' @ txt)
      | Http_OK c \<Rightarrow> Inr c)"

definition buildUrl :: "string \<Rightarrow> int \<Rightarrow> int \<Rightarrow> string" where
  "buildUrl baseURL batchSize nextID =
     (let url = baseURL @ ''/internal/v4/syslog_drain_urls?batch_size='' @ itoa batchSize
      in if nextID \<noteq> 0 then url @ ''&next_id='' @ itoa nextID else url)"

text \<open>
  The loop of \<open>Poll\<close> over the pages; \<open>server\<close> is the answer to a GET. A server whose pages
  form a cycle keeps the loop running: the value is then \<open>None\<close>.
\<close>

partial_function (option) Poll_loop ::
  "(string \<Rightarrow> cc_answer) \<Rightarrow> string \<Rightarrow> int \<Rightarrow> int \<Rightarrow> drain_bindings \<Rightarrow> (drain_bindings \<times> string option) option" where
  "Poll_loop server urlBase batchSize nextID drainURLs =
     (case pollAndDecode (server (buildUrl urlBase batchSize nextID)) of
        Inl err \<Rightarrow> Some (drainURLs, Some err)
      | Inr c \<Rightarrow>
          (let drainURLs' = mput_all (cc_Results c) drainURLs
           in case cc_NextID c of
                None \<Rightarrow> Some (drainURLs', None)
              | Some n \<Rightarrow> Poll_loop server urlBase batchSize n drainURLs'))"

definition Poll ::
  "(string \<Rightarrow> cc_answer) \<Rightarrow> string \<Rightarrow> int \<Rightarrow> (drain_bindings \<times> string option) option" where
  "Poll server urlBase batchSize = Poll_loop server urlBase batchSize 0 []"

section \<open>Filtering\<close>

text \<open>
  \<open>drain_version\<close> is \<open>url.Query().Get("drain-version")\<close> of a drain URL, \<open>None\<close> where the URL
  does not parse.
\<close>

definition keep_url :: "(string \<Rightarrow> string option) \<Rightarrow> string \<Rightarrow> bool" where
  "keep_url drain_version d =
     (case drain_version d of None \<Rightarrow> False | Some v \<Rightarrow> v \<noteq> ''2.0'')"

definition Filter :: "(string \<Rightarrow> string option) \<Rightarrow> drain_bindings \<Rightarrow> drain_bindings" where
  "Filter drain_version bindings =
     fold (\<lambda>(appId, b) newBindings.
       let drainUrls = filter (keep_url drain_version) (db_DrainURLs b)
       in if drainUrls \<noteq> [] then mput appId (b\<lparr>db_DrainURLs := drainUrls\<rparr>) newBindings else newBindings)
     bindings []"

section \<open>Nodes of the store\<close>

record node =
  nd_Key :: string
  nd_Value :: string
  nd_TTL :: nat

text \<open>\<open>strings.TrimSpace(s) == ""\<close>: only white space, in UTF-8.\<close>

fun blank :: "string \<Rightarrow> bool" where
  "blank [] = True"
| "blank (a # s) =
     (let n = (of_char a :: nat)
      in if n = 32 \<or> 9 \<le> n \<and> n \<le> 13 then blank s
         else case s of
                [] \<Rightarrow> False
              | b # t \<Rightarrow>
                  (if n = 0xC2 \<and> (of_char b = (0x85 :: nat) \<or> of_char b = (0xA0 :: nat)) then blank t
                   else case t of
                          [] \<Rightarrow> False
                        | c # u \<Rightarrow>
                            (let m = (of_char b :: nat); k = (of_char c :: nat)
                             in (n = 0xE1 \<and> m = 0x9A \<and> k = 0x80 \<or>
                                 n = 0xE2 \<and> m = 0x80 \<and> (0x80 \<le> k \<and> k \<le> 0x8A \<or> k = 0xA8 \<or> k = 0xA9 \<or> k = 0xAF) \<or>
                                 n = 0xE2 \<and> m = 0x81 \<and> k = 0x9F \<or>
                                 n = 0xE3 \<and> m = 0x80 \<and> k = 0x80) \<and> blank u)))"

text \<open>\<open>fmt.Sprintf(`{"hostname":"%s","drainURL":"%s"}`, \<dots>)\<close>: nothing is escaped.\<close>

definition quoted :: "string \<Rightarrow> string" where
  "quoted s = [CHR 0x22] @ s @ [CHR 0x22]"

definition drainData :: "string \<Rightarrow> string \<Rightarrow> string" where
  "drainData hostname drainURL =
     ''{'' @ quoted ''hostname'' @ '':'' @ quoted hostname @ '','' @
     quoted ''drainURL'' @ '':'' @ quoted drainURL @ ''}''"

definition drainKey :: "string \<Rightarrow> string \<Rightarrow> string" where
  "drainKey appId data = ''/loggregator/v2/services/'' @ appId @ ''/'' @ hex_encode (sha1 data)"

text \<open>The nodes that \<open>updateAppDrains\<close> writes with one \<open>SetMulti\<close>.\<close>

definition app_nodes :: "nat \<Rightarrow> string \<Rightarrow> drain_binding \<Rightarrow> node list" where
  "app_nodes ttl appId b =
     map (\<lambda>url. let data = drainData (db_Hostname b) url
                in \<lparr>nd_Key = drainKey appId data, nd_Value = data, nd_TTL = ttl\<rparr>)
       (filter (\<lambda>url. \<not> blank url) (db_DrainURLs b))"

text \<open>\<open>UpdateDrains\<close>: the calls of \<open>SetMulti\<close>, in the order of the applications.\<close>

definition drain_updates :: "nat \<Rightarrow> drain_bindings \<Rightarrow> node list list" where
  "drain_updates ttl bindings = filter (\<lambda>ns. ns \<noteq> []) (map (\<lambda>(appId, b). app_nodes ttl appId b) bindings)"

section \<open>The store adapter\<close>

datatype adapter_error = ErrorKeyExists | ErrorOther string

record 'st adapter =
  ad_Create :: "node \<Rightarrow> 'st \<Rightarrow> adapter_error option \<times> 'st"
  ad_CompareAndSwap :: "node \<Rightarrow> node \<Rightarrow> 'st \<Rightarrow> adapter_error option \<times> 'st"
  ad_CompareAndDelete :: "node \<Rightarrow> 'st \<Rightarrow> adapter_error option \<times> 'st"
  ad_SetMulti :: "node list \<Rightarrow> 'st \<Rightarrow> adapter_error option \<times> 'st"

text \<open>\<open>UpdateDrains\<close> as one call: it stops at the first error.\<close>

fun UpdateDrains_loop :: "'st adapter \<Rightarrow> node list list \<Rightarrow> 'st \<Rightarrow> adapter_error option \<times> 'st" where
  "UpdateDrains_loop ad [] st = (None, st)"
| "UpdateDrains_loop ad (ns # rest) st =
     (case ad_SetMulti ad ns st of
        (None, st') \<Rightarrow> UpdateDrains_loop ad rest st'
      | (Some err, st') \<Rightarrow> (Some err, st'))"

definition UpdateDrains :: "'st adapter \<Rightarrow> nat \<Rightarrow> drain_bindings \<Rightarrow> 'st \<Rightarrow> adapter_error option \<times> 'st" where
  "UpdateDrains ad ttl bindings st = UpdateDrains_loop ad (drain_updates ttl bindings) st"

section \<open>The elector\<close>

record Elector =
  el_instanceName :: string
  el_updateSeconds :: nat
  el_isLeader :: bool

definition generateNode :: "Elector \<Rightarrow> node" where
  "generateNode e =
     \<lparr>nd_Key = ''syslog_drain_binder/leader'', nd_Value = el_instanceName e, nd_TTL = el_updateSeconds e\<rparr>"

definition setLeader :: "bool \<Rightarrow> Elector \<Rightarrow> Elector" where
  "setLeader b e = e\<lparr>el_isLeader := b\<rparr>"

text \<open>One turn of the loop in \<open>RunForElection\<close>: won, lost, or given up with an error.\<close>

definition RunForElection_turn ::
  "'st adapter \<Rightarrow> Elector \<Rightarrow> 'st \<Rightarrow> adapter_error option \<times> Elector \<times> 'st" where
  "RunForElection_turn ad e st =
     (let (err, st') = ad_Create ad (generateNode e) st in (err, setLeader (err = None) e, st'))"

definition StayAsLeader :: "'st adapter \<Rightarrow> Elector \<Rightarrow> 'st \<Rightarrow> adapter_error option \<times> Elector \<times> 'st" where
  "StayAsLeader ad e st =
     (let (err, st') = ad_CompareAndSwap ad (generateNode e) (generateNode e) st
      in (err, setLeader (err = None) e, st'))"

definition Vacate :: "'st adapter \<Rightarrow> Elector \<Rightarrow> 'st \<Rightarrow> Elector \<times> 'st" where
  "Vacate ad e st = (setLeader False e, snd (ad_CompareAndDelete ad (generateNode e) st))"

section \<open>The main loop\<close>

text \<open>
  Where an instance is in the loop of \<open>main\<close>: waiting for the ticker, in \<open>RunForElection\<close>, about
  to vacate, polling, writing the drains that are left.
\<close>

datatype binder_pc = P_Wait | P_Elect | P_Vacate | P_Poll | P_Update "node list list"

record drain_instance =
  bd_elector :: Elector
  bd_pc :: binder_pc

record 'st cluster =
  cl_store :: 'st
  cl_binders :: "drain_instance list"

datatype 'st binder_action =
    B_Tick nat
  | B_Attempt nat
  | B_Vacate nat
  | B_Polled nat "drain_bindings result"
  | B_Write nat
  | B_Expire 'st

record binder_config =
  bc_drain_version :: "string \<Rightarrow> string option"
  bc_drainTTL :: nat

definition binder_step ::
  "'st adapter \<Rightarrow> binder_config \<Rightarrow> 'st binder_action \<Rightarrow> drain_instance \<Rightarrow> 'st \<Rightarrow> drain_instance \<times> 'st" where
  "binder_step ad cfg a b st =
     (let e = bd_elector b
      in case (bd_pc b, a) of
           (P_Wait, B_Tick _) \<Rightarrow>
             (if el_isLeader e
              then (case StayAsLeader ad e st of
                      (err, e', st') \<Rightarrow>
                        (\<lparr>bd_elector = e', bd_pc = (if err = None then P_Poll else P_Vacate)\<rparr>, st'))
              else (b\<lparr>bd_pc := P_Elect\<rparr>, st))
         | (P_Elect, B_Attempt _) \<Rightarrow>
             (case RunForElection_turn ad e st of
                (err, e', st') \<Rightarrow>
                  (\<lparr>bd_elector = e',
                    bd_pc = (case err of None \<Rightarrow> P_Poll | Some ErrorKeyExists \<Rightarrow> P_Elect | Some _ \<Rightarrow> P_Vacate)\<rparr>, st'))
         | (P_Vacate, B_Vacate _) \<Rightarrow>
             (case Vacate ad e st of (e', st') \<Rightarrow> (\<lparr>bd_elector = e', bd_pc = P_Wait\<rparr>, st'))
         | (P_Poll, B_Polled _ (Inl _)) \<Rightarrow> (b\<lparr>bd_pc := P_Vacate\<rparr>, st)
         | (P_Poll, B_Polled _ (Inr bindings)) \<Rightarrow>
             (b\<lparr>bd_pc := P_Update (drain_updates (bc_drainTTL cfg) (Filter (bc_drain_version cfg) bindings))\<rparr>, st)
         | (P_Update [], B_Write _) \<Rightarrow> (b\<lparr>bd_pc := P_Wait\<rparr>, st)
         | (P_Update (ns # rest), B_Write _) \<Rightarrow>
             (case ad_SetMulti ad ns st of
                (None, st') \<Rightarrow> (b\<lparr>bd_pc := P_Update rest\<rparr>, st')
              | (Some _, st') \<Rightarrow> (b\<lparr>bd_pc := P_Vacate\<rparr>, st'))
         | _ \<Rightarrow> (b, st))"

fun binder_of :: "'st binder_action \<Rightarrow> nat option" where
  "binder_of (B_Tick i) = Some i"
| "binder_of (B_Attempt i) = Some i"
| "binder_of (B_Vacate i) = Some i"
| "binder_of (B_Polled i _) = Some i"
| "binder_of (B_Write i) = Some i"
| "binder_of (B_Expire _) = None"

text \<open>A step of the cluster; an expiry is any change of the store by which the lease is gone.\<close>

definition cluster_step ::
  "'st adapter \<Rightarrow> binder_config \<Rightarrow> 'st binder_action \<Rightarrow> 'st cluster \<Rightarrow> 'st cluster" where
  "cluster_step ad cfg a c =
     (case a of
        B_Expire st \<Rightarrow> c\<lparr>cl_store := st\<rparr>
      | _ \<Rightarrow>
          (case binder_of a of
             None \<Rightarrow> c
           | Some i \<Rightarrow>
               (if i < length (cl_binders c)
                then case binder_step ad cfg a (cl_binders c ! i) (cl_store c) of
                       (b, st) \<Rightarrow> c\<lparr>cl_store := st, cl_binders := (cl_binders c)[i := b]\<rparr>
                else c)))"

definition NewElector :: "string \<Rightarrow> nat \<Rightarrow> Elector" where
  "NewElector name secs = \<lparr>el_instanceName = name, el_updateSeconds = secs, el_isLeader = False\<rparr>"

definition start_cluster :: "'st \<Rightarrow> string list \<Rightarrow> nat \<Rightarrow> 'st cluster" where
  "start_cluster st names secs =
     \<lparr>cl_store = st, cl_binders = map (\<lambda>n. \<lparr>bd_elector = NewElector n secs, bd_pc = P_Wait\<rparr>) names\<rparr>"

section \<open>What the code relies on\<close>

text \<open>
  The documented behaviour of the adapter: \<open>Create\<close> makes a node only if there is none,
  \<open>CompareAndSwap\<close> and \<open>CompareAndDelete\<close> act only on a node with the expected value, \<open>SetMulti\<close>
  writes its nodes and no other. After an error the change may have been made or not; the error
  for an existing key means that there is one.
\<close>

definition creates_once :: "'st adapter \<Rightarrow> ('st \<Rightarrow> string \<Rightarrow> string option) \<Rightarrow> bool" where
  "creates_once ad content \<longleftrightarrow>
     (\<forall>n st err st'. ad_Create ad n st = (err, st') \<longrightarrow>
        (if err = None
         then content st (nd_Key n) = None \<and> content st' = (content st)(nd_Key n \<mapsto> nd_Value n)
         else if err = Some ErrorKeyExists
         then content st (nd_Key n) \<noteq> None \<and> content st' = content st
         else content st' = content st \<or>
           content st (nd_Key n) = None \<and> content st' = (content st)(nd_Key n \<mapsto> nd_Value n)))"

definition swaps_own :: "'st adapter \<Rightarrow> ('st \<Rightarrow> string \<Rightarrow> string option) \<Rightarrow> bool" where
  "swaps_own ad content \<longleftrightarrow>
     (\<forall>old new st err st'. ad_CompareAndSwap ad old new st = (err, st') \<longrightarrow> nd_Key old = nd_Key new \<longrightarrow>
        err \<noteq> None \<and> content st' = content st \<or>
        content st (nd_Key old) = Some (nd_Value old) \<and> content st' = (content st)(nd_Key new \<mapsto> nd_Value new))"

definition deletes_own :: "'st adapter \<Rightarrow> ('st \<Rightarrow> string \<Rightarrow> string option) \<Rightarrow> bool" where
  "deletes_own ad content \<longleftrightarrow>
     (\<forall>n st err st'. ad_CompareAndDelete ad n st = (err, st') \<longrightarrow>
        err \<noteq> None \<and> content st' = content st \<or>
        content st (nd_Key n) = Some (nd_Value n) \<and> content st' = (content st)(nd_Key n := None))"

definition sets_nodes :: "'st adapter \<Rightarrow> ('st \<Rightarrow> string \<Rightarrow> string option) \<Rightarrow> bool" where
  "sets_nodes ad content \<longleftrightarrow>
     (\<forall>ns st err st'. ad_SetMulti ad ns st = (err, st') \<longrightarrow>
        (\<forall>k. k \<notin> nd_Key ` set ns \<longrightarrow> content st' k = content st k) \<and>
        (err = None \<longrightarrow> content st' = fold (\<lambda>n f. f(nd_Key n \<mapsto> nd_Value n)) ns (content st)))"

definition lease_store :: "'st adapter \<Rightarrow> ('st \<Rightarrow> string \<Rightarrow> string option) \<Rightarrow> bool" where
  "lease_store ad content \<longleftrightarrow>
     creates_once ad content \<and> swaps_own ad content \<and> deletes_own ad content \<and> sets_nodes ad content"

text \<open>A store that answers: it makes a node where there is none, and writes what it is asked to.\<close>

definition answers :: "'st adapter \<Rightarrow> ('st \<Rightarrow> string \<Rightarrow> string option) \<Rightarrow> bool" where
  "answers ad content \<longleftrightarrow>
     (\<forall>n st. content st (nd_Key n) = None \<longrightarrow> fst (ad_Create ad n st) = None) \<and>
     (\<forall>ns st. fst (ad_SetMulti ad ns st) = None)"

abbreviation leader_key :: string where
  "leader_key \<equiv> ''syslog_drain_binder/leader''"

text \<open>A store that is a map, for examples.\<close>

definition map_adapter :: "(string \<Rightarrow> string option) adapter" where
  "map_adapter =
     \<lparr>ad_Create = (\<lambda>n st. if st (nd_Key n) = None then (None, st(nd_Key n \<mapsto> nd_Value n)) else (Some ErrorKeyExists, st)),
      ad_CompareAndSwap = (\<lambda>old new st. if st (nd_Key old) = Some (nd_Value old)
         then (None, st(nd_Key new \<mapsto> nd_Value new)) else (Some (ErrorOther ''compare failed''), st)),
      ad_CompareAndDelete = (\<lambda>n st. if st (nd_Key n) = Some (nd_Value n)
         then (None, st(nd_Key n := None)) else (Some (ErrorOther ''compare failed''), st)),
      ad_SetMulti = (\<lambda>ns st. (None, fold (\<lambda>n f. f(nd_Key n \<mapsto> nd_Value n)) ns st))\<rparr>"

text \<open>
  The invariant of the cluster: who believes to lead holds the lease, and only a leader polls and
  writes.
\<close>

definition leads :: "drain_instance \<Rightarrow> bool" where
  "leads b = el_isLeader (bd_elector b)"

definition at_work :: "drain_instance \<Rightarrow> bool" where
  "at_work b = (case bd_pc b of P_Poll \<Rightarrow> True | P_Update _ \<Rightarrow> True | _ \<Rightarrow> False)"

fun leader_free :: "binder_pc \<Rightarrow> bool" where
  "leader_free (P_Update groups) = (\<forall>ns \<in> set groups. leader_key \<notin> nd_Key ` set ns)"
| "leader_free _ = True"

definition binder_ok :: "(string \<Rightarrow> string option) \<Rightarrow> drain_instance \<Rightarrow> bool" where
  "binder_ok f b \<longleftrightarrow>
     (leads b \<longrightarrow> f leader_key = Some (el_instanceName (bd_elector b))) \<and>
     (at_work b \<longrightarrow> leads b) \<and> leader_free (bd_pc b)"

text \<open>Strings that stand for themselves in JSON: no quote, no backslash, no control character.\<close>

definition json_plain :: "string \<Rightarrow> bool" where
  "json_plain s \<longleftrightarrow> (\<forall>c \<in> set s. c \<noteq> CHR 0x22 \<and> c \<noteq> CHR 0x5C \<and> (0x20 :: nat) \<le> of_char c)"

text \<open>What the watcher relies on: the decoder reads back what has the shape of \<open>drainData\<close>.\<close>

definition decodes_drains :: "unmarshal_fun \<Rightarrow> bool" where
  "decodes_drains unmarshal \<longleftrightarrow>
     (\<forall>h u. json_plain h \<and> json_plain u \<longrightarrow> unmarshal (drainData h u) = Some (u, h))"

text \<open>An identifier that can be an element of a path.\<close>

definition path_element :: "string \<Rightarrow> bool" where
  "path_element s \<longleftrightarrow> s \<noteq> [] \<and> s \<noteq> ''.'' \<and> s \<noteq> ''..'' \<and> CHR ''/'' \<notin> set s"

text \<open>A node as the watcher of a doppler sees it.\<close>

definition to_store_node :: "node \<Rightarrow> store_node" where
  "to_store_node n = \<lparr>sn_Key = nd_Key n, sn_Value = nd_Value n, sn_Dir = False\<rparr>"

text \<open>The services that a set of bindings stands for, once filtered.\<close>

definition kept_services :: "(string \<Rightarrow> string option) \<Rightarrow> drain_bindings \<Rightarrow> service_info list" where
  "kept_services drain_version bindings =
     concat (map (\<lambda>(appId, b). map (\<lambda>url. NewServiceInfo appId url (db_Hostname b))
       (filter (\<lambda>url. keep_url drain_version url \<and> \<not> blank url) (db_DrainURLs b))) bindings)"

text \<open>A chain of pages: their identifiers, the first one 0, and results.\<close>

fun serves_pages :: "(string \<Rightarrow> cc_answer) \<Rightarrow> string \<Rightarrow> int \<Rightarrow> (int \<times> drain_bindings) list \<Rightarrow> bool" where
  "serves_pages server base batch [] \<longleftrightarrow> True"
| "serves_pages server base batch [(i, r)] \<longleftrightarrow>
     server (buildUrl base batch i) = Http_OK \<lparr>cc_Results = r, cc_NextID = None\<rparr>"
| "serves_pages server base batch ((i, r) # (j, r') # ps) \<longleftrightarrow>
     server (buildUrl base batch i) = Http_OK \<lparr>cc_Results = r, cc_NextID = Some j\<rparr> \<and>
     serves_pages server base batch ((j, r') # ps)"

definition sample_server :: "string \<Rightarrow> cc_answer" where
  "sample_server url =
     (if url = buildUrl ''cc'' 2 0
      then Http_OK \<lparr>cc_Results = [(''a'', \<lparr>db_Hostname = ''h1'', db_DrainURLs = [''syslog://x'']\<rparr>)], cc_NextID = Some 7\<rparr>
      else Http_OK \<lparr>cc_Results = [(''b'', \<lparr>db_Hostname = ''h2'', db_DrainURLs = [''syslog://y'', '' '']\<rparr>)], cc_NextID = None\<rparr>)"

text \<open>A decoder for exactly these objects, for examples.\<close>

definition decode_drain :: unmarshal_fun where
  "decode_drain s =
     (case split_on (CHR 0x22) s of
        [_, _, _, h, _, _, _, u, _] \<Rightarrow> Some (u, h)
      | _ \<Rightarrow> None)"

section \<open>The lease\<close>

lemma lease_Create:
  assumes "lease_store ad content" and "ad_Create ad n st = (err, st')"
  shows "err = None \<Longrightarrow> content st (nd_Key n) = None \<and> content st' = (content st)(nd_Key n \<mapsto> nd_Value n)"
    and "content st (nd_Key n) = Some v \<Longrightarrow> content st' = content st"
proof -
  have "if err = None
     then content st (nd_Key n) = None \<and> content st' = (content st)(nd_Key n \<mapsto> nd_Value n)
     else if err = Some ErrorKeyExists
     then content st (nd_Key n) \<noteq> None \<and> content st' = content st
     else content st' = content st \<or>
       content st (nd_Key n) = None \<and> content st' = (content st)(nd_Key n \<mapsto> nd_Value n)"
    using assms by (simp add: lease_store_def creates_once_def)
  then show "err = None \<Longrightarrow> content st (nd_Key n) = None \<and> content st' = (content st)(nd_Key n \<mapsto> nd_Value n)"
    and "content st (nd_Key n) = Some v \<Longrightarrow> content st' = content st"
    by (auto split: if_splits)
qed

lemma lease_CompareAndSwap:
  assumes "lease_store ad content" and "ad_CompareAndSwap ad n n st = (err, st')"
  shows "content st' = content st" and "err = None \<Longrightarrow> content st (nd_Key n) = Some (nd_Value n)"
proof -
  have law: "err \<noteq> None \<and> content st' = content st \<or>
      content st (nd_Key n) = Some (nd_Value n) \<and> content st' = (content st)(nd_Key n \<mapsto> nd_Value n)"
    using assms by (simp add: lease_store_def swaps_own_def)
  then show "content st' = content st" by (auto simp: fun_upd_idem)
  from law show "err = None \<Longrightarrow> content st (nd_Key n) = Some (nd_Value n)" by blast
qed

lemma lease_CompareAndDelete:
  assumes "lease_store ad content" and "ad_CompareAndDelete ad n st = (err, st')"
    and "content st (nd_Key n) \<noteq> Some (nd_Value n)"
  shows "content st' = content st"
  using assms by (auto simp: lease_store_def deletes_own_def)

lemma lease_SetMulti:
  assumes "lease_store ad content" and "ad_SetMulti ad ns st = (err, st')"
  shows "k \<notin> nd_Key ` set ns \<Longrightarrow> content st' k = content st k"
    and "err = None \<Longrightarrow> content st' = fold (\<lambda>n f. f(nd_Key n \<mapsto> nd_Value n)) ns (content st)"
  using assms by (simp_all add: lease_store_def sets_nodes_def)

lemma generateNode_simps [simp]:
  "nd_Key (generateNode e) = leader_key" "nd_Value (generateNode e) = el_instanceName e"
  by (simp_all add: generateNode_def)

lemma setLeader_simps [simp]:
  "el_isLeader (setLeader b e) = b" "el_instanceName (setLeader b e) = el_instanceName e"
  by (simp_all add: setLeader_def)

lemma drain_updates_leader_free: "\<forall>ns \<in> set (drain_updates ttl bs). leader_key \<notin> nd_Key ` set ns"
  by (auto simp: drain_updates_def app_nodes_def Let_def drainKey_def)

text \<open>One step of an instance keeps its own invariant and the lease of everybody else.\<close>

lemma binder_step_ok:
  assumes ls: "lease_store ad content" and ok: "binder_ok (content st) b"
    and step: "binder_step ad cfg a b st = (b', st')"
  shows "binder_ok (content st') b' \<and> el_instanceName (bd_elector b') = el_instanceName (bd_elector b) \<and>
    (content st leader_key = Some n \<longrightarrow> n \<noteq> el_instanceName (bd_elector b) \<longrightarrow> content st' leader_key = Some n)"
proof -
  note defs = binder_step_def binder_ok_def leads_def at_work_def Let_def
  let ?e = "bd_elector b"
  consider (stay) i where "bd_pc b = P_Wait" "a = B_Tick i" "el_isLeader ?e"
    | (attempt) i where "bd_pc b = P_Elect" "a = B_Attempt i"
    | (vacate) i where "bd_pc b = P_Vacate" "a = B_Vacate i"
    | (update) i ns rest where "bd_pc b = P_Update (ns # rest)" "a = B_Write i"
    | (polled) i bs where "bd_pc b = P_Poll" "a = B_Polled i (Inr bs)"
    | (quiet) "bd_elector b' = bd_elector b" "st' = st" "at_work b' \<longrightarrow> at_work b" "leader_free (bd_pc b')"
    using step ok
    by (cases "bd_pc b"; cases a)
      (auto simp: binder_step_def Let_def at_work_def binder_ok_def split: if_splits sum.splits list.splits)
  then show ?thesis
  proof cases
    case stay
    obtain err st1 where cas: "ad_CompareAndSwap ad (generateNode ?e) (generateNode ?e) st = (err, st1)" by fastforce
    from lease_CompareAndSwap[OF ls cas] step stay cas show ?thesis
      by (cases "err = None") (auto simp: defs StayAsLeader_def)
  next
    case attempt
    obtain err st1 where cr: "ad_Create ad (generateNode ?e) st = (err, st1)" by fastforce
    from lease_Create[OF ls cr] step attempt cr show ?thesis
      by (cases err) (auto simp: defs RunForElection_turn_def split: adapter_error.splits)
  next
    case vacate
    obtain err st1 where cd: "ad_CompareAndDelete ad (generateNode ?e) st = (err, st1)" by fastforce
    from lease_CompareAndDelete[OF ls cd] step vacate cd show ?thesis
      by (auto simp: defs Vacate_def)
  next
    case update
    obtain err st1 where sm: "ad_SetMulti ad ns st = (err, st1)" by fastforce
    have "content st1 leader_key = content st leader_key"
      using ok update by (intro lease_SetMulti(1)[OF ls sm]) (simp add: binder_ok_def)
    with step update sm ok show ?thesis
      by (cases err) (auto simp: defs)
  next
    case polled
    with step ok show ?thesis
      using drain_updates_leader_free by (auto simp: defs)
  next
    case quiet
    with ok show ?thesis by (auto simp: binder_ok_def leads_def)
  qed
qed

lemma cluster_step_length [simp]: "length (cl_binders (cluster_step ad cfg a c)) = length (cl_binders c)"
  by (auto simp: cluster_step_def split: binder_action.split option.split prod.split)

lemma cluster_step_inv:
  assumes ls: "lease_store ad content" and dist: "distinct names" and a: "\<And>st. a \<noteq> B_Expire st"
    and names: "map (el_instanceName \<circ> bd_elector) (cl_binders c) = names"
    and ok: "\<forall>b \<in> set (cl_binders c). binder_ok (content (cl_store c)) b"
  shows "map (el_instanceName \<circ> bd_elector) (cl_binders (cluster_step ad cfg a c)) = names \<and>
    (\<forall>b \<in> set (cl_binders (cluster_step ad cfg a c)). binder_ok (content (cl_store (cluster_step ad cfg a c))) b)"
proof (cases "\<exists>i < length (cl_binders c). binder_of a = Some i")
  case False
  with a have "cluster_step ad cfg a c = c"
    by (cases a) (auto simp: cluster_step_def)
  with names ok show ?thesis by simp
next
  case True
  then obtain i where i: "i < length (cl_binders c)" "binder_of a = Some i" by blast
  let ?b = "cl_binders c ! i"
  obtain b' st' where step: "binder_step ad cfg a ?b (cl_store c) = (b', st')" by fastforce
  have c': "cluster_step ad cfg a c = c\<lparr>cl_store := st', cl_binders := (cl_binders c)[i := b']\<rparr>"
    using i step a by (cases a) (auto simp: cluster_step_def)
  have okb: "binder_ok (content (cl_store c)) ?b" using ok i by simp
  note sk = binder_step_ok[OF ls okb step]
  have nm: "el_instanceName (bd_elector b') = names ! i" using sk names i by auto
  have "(map (el_instanceName \<circ> bd_elector) (cl_binders c))[i := names ! i] = names"
    unfolding names by simp
  then have "map (el_instanceName \<circ> bd_elector) ((cl_binders c)[i := b']) = names"
    by (simp add: map_update nm)
  moreover have "binder_ok (content st') ((cl_binders c)[i := b'] ! j)" if j: "j < length (cl_binders c)" for j
  proof (cases "j = i")
    case True
    with sk i show ?thesis by simp
  next
    case False
    have "el_instanceName (bd_elector (cl_binders c ! j)) = names ! j"
      "el_instanceName (bd_elector ?b) = names ! i"
      using names i j by auto
    moreover have "names ! j \<noteq> names ! i"
      using dist False names i j by (metis length_map nth_eq_iff_index_eq)
    moreover have "binder_ok (content (cl_store c)) (cl_binders c ! j)" using ok j by simp
    ultimately show ?thesis using sk False by (auto simp: binder_ok_def)
  qed
  ultimately show ?thesis
    by (simp add: c' all_set_conv_all_nth)
qed

lemma cluster_run_inv:
  assumes ls: "lease_store ad content" and dist: "distinct names" and acts: "\<forall>st. B_Expire st \<notin> set acts"
  shows "let c = fold (cluster_step ad cfg) acts (start_cluster st names secs)
    in map (el_instanceName \<circ> bd_elector) (cl_binders c) = names \<and>
       (\<forall>b \<in> set (cl_binders c). binder_ok (content (cl_store c)) b)"
  using acts
proof (induction acts rule: rev_induct)
  case Nil
  then show ?case
    by (auto simp: start_cluster_def NewElector_def binder_ok_def leads_def at_work_def comp_def Let_def)
next
  case (snoc a acts)
  let ?c = "fold (cluster_step ad cfg) acts (start_cluster st names secs)"
  have a: "a \<noteq> B_Expire st" for st using snoc.prems by auto
  have "map (el_instanceName \<circ> bd_elector) (cl_binders ?c) = names \<and>
      (\<forall>b \<in> set (cl_binders ?c). binder_ok (content (cl_store ?c)) b)"
    using snoc by (auto simp: Let_def comp_def)
  with cluster_step_inv[OF ls dist a, of ?c] show ?case by (simp add: Let_def comp_def)
qed

lemma binder_step_name:
  "binder_step ad cfg a b st = (b', st') \<Longrightarrow> el_instanceName (bd_elector b') = el_instanceName (bd_elector b)"
  by (cases "bd_pc b"; cases a)
    (auto simp: binder_step_def Let_def StayAsLeader_def RunForElection_turn_def Vacate_def
      split: if_splits sum.splits list.splits prod.splits option.splits)

lemma cluster_step_nth:
  assumes "i < length (cl_binders c)"
  shows "\<exists>b st. (b, st) = (if binder_of a = Some i then binder_step ad cfg a (cl_binders c ! i) (cl_store c)
      else (cl_binders c ! i, st)) \<and>
    cl_binders (cluster_step ad cfg a c) ! i = b \<and> (binder_of a = Some i \<longrightarrow> cl_store (cluster_step ad cfg a c) = st)"
  using assms by (cases a) (auto simp: cluster_step_def nth_list_update split: prod.split)

lemma cluster_run_name:
  assumes "i < length names"
  shows "el_instanceName (bd_elector (cl_binders (fold (cluster_step ad cfg) acts (start_cluster st names secs)) ! i)) = names ! i \<and>
    length (cl_binders (fold (cluster_step ad cfg) acts (start_cluster st names secs))) = length names"
proof (induction acts rule: rev_induct)
  case Nil
  then show ?case using assms by (simp add: start_cluster_def NewElector_def)
next
  case (snoc a acts)
  let ?c = "fold (cluster_step ad cfg) acts (start_cluster st names secs)"
  from snoc assms have "i < length (cl_binders ?c)" by simp
  from cluster_step_nth[OF this, of a ad cfg] snoc show ?case
    by (auto dest!: binder_step_name[OF sym] split: if_splits)
qed

text \<open>An instance that goes to work has just had its lease confirmed by the store.\<close>

lemma binder_step_confirmed:
  assumes ls: "lease_store ad content" and step: "binder_step ad cfg a b st = (b', st')"
    and "\<not> at_work b" and "at_work b'"
  shows "content st' leader_key = Some (el_instanceName (bd_elector b'))"
proof -
  let ?e = "bd_elector b"
  note defs = binder_step_def at_work_def Let_def
  consider (stay) i where "bd_pc b = P_Wait" "a = B_Tick i" "el_isLeader ?e"
    | (attempt) i where "bd_pc b = P_Elect" "a = B_Attempt i"
    using assms(2-4)
    by (cases "bd_pc b"; cases a) (auto simp: defs Vacate_def split: if_splits sum.splits list.splits prod.splits)
  then show ?thesis
  proof cases
    case stay
    obtain err st1 where cas: "ad_CompareAndSwap ad (generateNode ?e) (generateNode ?e) st = (err, st1)" by fastforce
    from lease_CompareAndSwap[OF ls cas] step assms(4) stay cas show ?thesis
      by (cases "err = None") (auto simp: defs StayAsLeader_def)
  next
    case attempt
    obtain err st1 where cr: "ad_Create ad (generateNode ?e) st = (err, st1)" by fastforce
    from lease_Create[OF ls cr] step assms(4) attempt cr show ?thesis
      by (cases err) (auto simp: defs RunForElection_turn_def split: adapter_error.splits)
  qed
qed

text \<open>
  C3: One leader. For any number of instances with different names, on a store that keeps the
  contract of its adapter, whatever calls on it fail, with the change made or not, and however
  the steps of the instances interleave: as long as the lease does not run out, at most one
  instance believes to be the leader, and an instance polls the cloud controller or writes drains
  only while it is that leader and holds the lease. Even when leases run out, an instance starts
  that work only with a lease that the store has confirmed in the same step.
\<close>

theorem one_leader:
  assumes ls: "lease_store ad content" and "distinct names" and i: "i < length names" and j: "j < length names"
    and c: "c = fold (cluster_step ad cfg) acts (start_cluster st names secs)"
  shows "((\<forall>st. B_Expire st \<notin> set acts) \<longrightarrow>
      (leads (cl_binders c ! i) \<longrightarrow> leads (cl_binders c ! j) \<longrightarrow> i = j) \<and>
      (at_work (cl_binders c ! i) \<longrightarrow>
         leads (cl_binders c ! i) \<and> content (cl_store c) leader_key = Some (names ! i))) \<and>
    (\<forall>a. let c' = cluster_step ad cfg a c
         in \<not> at_work (cl_binders c ! i) \<longrightarrow> at_work (cl_binders c' ! i) \<longrightarrow>
            content (cl_store c') leader_key = Some (names ! i))"
proof (intro conjI impI allI)
  assume "\<forall>st. B_Expire st \<notin> set acts"
  from cluster_run_inv[OF ls assms(2) this, of cfg st secs] c
  have names: "map (el_instanceName \<circ> bd_elector) (cl_binders c) = names"
    and ok: "\<forall>b \<in> set (cl_binders c). binder_ok (content (cl_store c)) b"
    by (simp_all add: Let_def)
  have len: "length (cl_binders c) = length names" using arg_cong[OF names, of length] by simp
  have nm: "el_instanceName (bd_elector (cl_binders c ! k)) = names ! k"
    and okk: "binder_ok (content (cl_store c)) (cl_binders c ! k)" if "k < length names" for k
    using arg_cong[OF names, of "\<lambda>xs. xs ! k"] ok that len by auto
  show "leads (cl_binders c ! i) \<Longrightarrow> leads (cl_binders c ! j) \<Longrightarrow> i = j"
    using okk[OF i] okk[OF j] nm[OF i] nm[OF j] nth_eq_iff_index_eq[OF assms(2) i j]
    by (simp add: binder_ok_def)
  show "at_work (cl_binders c ! i) \<Longrightarrow> leads (cl_binders c ! i)"
    and "at_work (cl_binders c ! i) \<Longrightarrow> content (cl_store c) leader_key = Some (names ! i)"
    using okk[OF i] nm[OF i] by (simp_all add: binder_ok_def)
next
  fix a
  let ?c' = "cluster_step ad cfg a c"
  note run = cluster_run_name[OF i, of ad cfg acts st secs, folded c]
  then have "i < length (cl_binders c)" using i by simp
  from cluster_step_nth[OF this, of a ad cfg] obtain b st' where
    nth: "(b, st') = (if binder_of a = Some i then binder_step ad cfg a (cl_binders c ! i) (cl_store c)
      else (cl_binders c ! i, st'))" "cl_binders ?c' ! i = b" "binder_of a = Some i \<longrightarrow> cl_store ?c' = st'"
    by blast
  show "let c' = ?c' in \<not> at_work (cl_binders c ! i) \<longrightarrow> at_work (cl_binders c' ! i) \<longrightarrow>
            content (cl_store c') leader_key = Some (names ! i)"
    unfolding Let_def
  proof (intro impI)
    assume idle: "\<not> at_work (cl_binders c ! i)" and work: "at_work (cl_binders ?c' ! i)"
    then have me: "binder_of a = Some i" using nth by (auto split: if_splits)
    with nth have step: "binder_step ad cfg a (cl_binders c ! i) (cl_store c) = (b, st')" by simp
    from binder_step_confirmed[OF ls step idle] binder_step_name[OF step] work nth me run
    show "content (cl_store ?c') leader_key = Some (names ! i)" by simp
  qed
qed

lemma fold_upd_other: "k \<notin> nd_Key ` set ns \<Longrightarrow> fold (\<lambda>n f. f(nd_Key n \<mapsto> nd_Value n)) ns f k = f k"
  by (induction ns arbitrary: f) (auto simp del: fun_upd_apply, simp)

lemma map_adapter_lease: "lease_store map_adapter (\<lambda>st. st)"
  by (auto simp: lease_store_def creates_once_def swaps_own_def deletes_own_def sets_nodes_def map_adapter_def
      fold_upd_other split: if_splits)

theorem one_leader_witness:
  "\<exists>c. c = fold (cluster_step map_adapter \<lparr>bc_drain_version = Some, bc_drainTTL = 60\<rparr>)
        [B_Tick 0, B_Tick 1, B_Attempt 1, B_Attempt 0, B_Attempt 0] (start_cluster Map.empty [''a'', ''b''] 15) \<and>
     leads (cl_binders c ! 1) \<and> \<not> leads (cl_binders c ! 0) \<and> cl_store c leader_key = Some ''b''"
proof -
  let ?acts = "[B_Tick 0, B_Tick 1, B_Attempt 1, B_Attempt 0, B_Attempt 0]"
  define c where "c = fold (cluster_step map_adapter \<lparr>bc_drain_version = Some, bc_drainTTL = 60\<rparr>) ?acts
    (start_cluster Map.empty [''a'', ''b''] 15)"
  have b: "leads (cl_binders c ! 1)" "at_work (cl_binders c ! 1)"
    unfolding c_def
    by (simp_all add: start_cluster_def cluster_step_def binder_step_def NewElector_def RunForElection_turn_def
        map_adapter_def leads_def at_work_def Let_def)
  have "\<not> leads (cl_binders c ! 0)" "cl_store c leader_key = Some ''b''"
    using one_leader[OF map_adapter_lease, of "[''a'', ''b'']" 1 0 c] b c_def by (auto simp del: fold_simps fold.simps)
  with b c_def show ?thesis by blast
qed

section \<open>A vacancy gets filled\<close>

lemma write_nodes:
  assumes ls: "lease_store ad content" and an: "answers ad content" and i: "i < length (cl_binders c)"
    and pc: "bd_pc (cl_binders c ! i) = P_Update groups"
  shows "\<exists>st. fold (cluster_step ad cfg) (replicate (Suc (length groups)) (B_Write i)) c =
      c\<lparr>cl_store := st, cl_binders := (cl_binders c)[i := (cl_binders c ! i)\<lparr>bd_pc := P_Wait\<rparr>]\<rparr> \<and>
    content st = fold (\<lambda>n f. f(nd_Key n \<mapsto> nd_Value n)) (concat groups) (content (cl_store c))"
  using i pc
proof (induction groups arbitrary: c)
  case Nil
  then show ?case
    by (intro exI[of _ "cl_store c"]) (simp add: cluster_step_def binder_step_def Let_def)
next
  case (Cons ns groups)
  obtain err st1 where sm: "ad_SetMulti ad ns (cl_store c) = (err, st1)" by fastforce
  with an have err: "err = None" unfolding answers_def by (metis fst_conv)
  let ?c1 = "c\<lparr>cl_store := st1, cl_binders := (cl_binders c)[i := (cl_binders c ! i)\<lparr>bd_pc := P_Update groups\<rparr>]\<rparr>"
  have step: "cluster_step ad cfg (B_Write i) c = ?c1"
    using Cons.prems sm err by (simp add: cluster_step_def binder_step_def Let_def)
  from Cons.IH[of ?c1] Cons.prems lease_SetMulti(2)[OF ls sm err] show ?case
    by (auto simp: step simp del: fun_upd_apply)
qed



section \<open>From the cloud controller to the doppler\<close>

lemma hex_char_not_slash: "d < 16 \<Longrightarrow> hex_char d \<noteq> CHR ''/''"
  by (auto simp: hex_char_def dest: arg_cong[where f = "of_char :: char \<Rightarrow> nat"])

lemma hex_encode_no_slash: "CHR ''/'' \<notin> set (hex_encode bs)"
proof (induction bs)
  case (Cons b bs)
  have "(of_char b :: nat) div 16 < 16" using of_char_lt_256[of b] by linarith
  then have "hex_char (of_char b div 16) \<noteq> CHR ''/''" "hex_char (of_char b mod 16) \<noteq> CHR ''/''"
    by (intro hex_char_not_slash; simp)+
  with Cons show ?case by (auto simp: hex_encode_Cons)
qed simp

lemma path_Dir_append:
  assumes "CHR ''/'' \<notin> set s"
  shows "path_Dir (p @ ''/'' @ s) = path_Clean (p @ ''/'')"
proof -
  have "dropWhile (\<lambda>c. c \<noteq> CHR ''/'') (rev s @ CHR ''/'' # rev p) = CHR ''/'' # rev p"
    using assms by (subst dropWhile_append2) auto
  then show ?thesis by (simp add: path_Dir_def)
qed

text \<open>The application of a node is read back from its key.\<close>

lemma drainKey_app:
  assumes "path_element appId"
  shows "path_Base (path_Dir (drainKey appId data)) = appId"
proof -
  have app: "CHR ''/'' \<notin> set appId" "appId \<noteq> []" "appId \<noteq> ''.''" "appId \<noteq> ''..''"
    using assms by (auto simp: path_element_def)
  have "path_Dir (drainKey appId data) = path_Clean (''/loggregator/v2/services/'' @ appId @ ''/'')"
    using path_Dir_append[OF hex_encode_no_slash, of "''/loggregator/v2/services/'' @ appId"]
    by (simp add: drainKey_def)
  also have "\<dots> = ''/loggregator/v2/services/'' @ appId"
    using app split_on_append_sep[OF app(1), of "[]"]
    by (simp add: path_Clean_def hasPrefix_def Let_def)
  finally have dir: "path_Dir (drainKey appId data) = ''/loggregator/v2/services'' @ CHR ''/'' # appId" by simp
  obtain c cs where r: "rev appId = c # cs" using app(2) by (cases "rev appId") auto
  have "c \<noteq> CHR ''/''" using app(1) r by (metis list.set_intros(1) set_rev)
  then have "dropWhile (\<lambda>c. c = CHR ''/'') (rev appId @ CHR ''/'' # rev ''/loggregator/v2/services'') =
      rev appId @ CHR ''/'' # rev ''/loggregator/v2/services''"
    by (simp add: r)
  moreover have "takeWhile (\<lambda>c. c \<noteq> CHR ''/'') (rev appId @ CHR ''/'' # rev ''/loggregator/v2/services'') = rev appId"
    using app(1) by (subst takeWhile_append2) auto
  ultimately show ?thesis
    using app(2) unfolding dir path_Base_def by (simp add: Let_def)
qed

lemma Filter_eq:
  assumes "wf_map bindings"
  shows "Filter dv bindings =
    filter (\<lambda>(_, b). db_DrainURLs b \<noteq> [])
      (map (\<lambda>(a, b). (a, b\<lparr>db_DrainURLs := filter (keep_url dv) (db_DrainURLs b)\<rparr>)) bindings)"
proof -
  have "fold (\<lambda>(appId, b) m. let us = filter (keep_url dv) (db_DrainURLs b)
       in if us \<noteq> [] then mput appId (b\<lparr>db_DrainURLs := us\<rparr>) m else m) bs acc =
    acc @ filter (\<lambda>(_, b). db_DrainURLs b \<noteq> [])
      (map (\<lambda>(a, b). (a, b\<lparr>db_DrainURLs := filter (keep_url dv) (db_DrainURLs b)\<rparr>)) bs)"
    if "wf_map bs" and "fst ` set acc \<inter> fst ` set bs = {}" for bs acc
    using that
  proof (induction bs arbitrary: acc)
    case Nil
    then show ?case by simp
  next
    case (Cons p bs)
    obtain a b where p: "p = (a, b)" by (cases p)
    let ?b = "b\<lparr>db_DrainURLs := filter (keep_url dv) (db_DrainURLs b)\<rparr>"
    have "mput a ?b acc = acc @ [(a, ?b)]"
      using Cons.prems p by (intro mput_absent) auto
    moreover have "fst ` set (acc @ [(a, ?b)]) \<inter> fst ` set bs = {}" "fst ` set acc \<inter> fst ` set bs = {}" "wf_map bs"
      using Cons.prems p by auto
    ultimately show ?case
      using Cons.IH[of acc] Cons.IH[of "acc @ [(a, ?b)]"] by (simp add: p Let_def)
  qed
  from this[OF assms, of "[]"] show ?thesis by (simp add: Filter_def)
qed

lemma app_nodes_services:
  assumes "decodes_drains unmarshal" and "path_element a" and "json_plain (db_Hostname b)"
    and "\<forall>u \<in> set (db_DrainURLs b). json_plain u"
  shows "map (appServiceFromStoreNode unmarshal \<circ> to_store_node) (app_nodes ttl a b) =
    map (\<lambda>u. Some (NewServiceInfo a u (db_Hostname b))) (filter (\<lambda>u. \<not> blank u) (db_DrainURLs b))"
  using assms
  by (simp add: app_nodes_def appServiceFromStoreNode_def to_store_node_def drainKey_app decodes_drains_def Let_def)

lemma nodes_services:
  assumes dec: "decodes_drains unmarshal" and wf: "wf_map bindings"
    and plain: "\<forall>(a, b) \<in> set bindings. path_element a \<and> json_plain (db_Hostname b) \<and> (\<forall>u \<in> set (db_DrainURLs b). json_plain u)"
  shows "map (appServiceFromStoreNode unmarshal \<circ> to_store_node) (concat (drain_updates ttl (Filter dv bindings))) =
    map Some (kept_services dv bindings)"
proof -
  have "concat (drain_updates ttl bs) = concat (map (\<lambda>(a, b). app_nodes ttl a b) bs)" for bs
    by (induction bs) (auto simp: drain_updates_def)
  moreover have "concat (map (\<lambda>(a, b). app_nodes ttl a b) (Filter dv bindings)) =
      concat (map (\<lambda>(a, b). app_nodes ttl a (b\<lparr>db_DrainURLs := filter (keep_url dv) (db_DrainURLs b)\<rparr>)) bindings)"
    unfolding Filter_eq[OF wf] by (induction bindings) (auto simp: app_nodes_def filter_empty_conv)
  moreover have "map (appServiceFromStoreNode unmarshal \<circ> to_store_node)
      (concat (map (\<lambda>(a, b). app_nodes ttl a (b\<lparr>db_DrainURLs := filter (keep_url dv) (db_DrainURLs b)\<rparr>)) bs)) =
      map Some (kept_services dv bs)" if "set bs \<subseteq> set bindings" for bs
    using that
  proof (induction bs)
    case (Cons p bs)
    obtain a b where p: "p = (a, b)" by (cases p)
    have "map (appServiceFromStoreNode unmarshal \<circ> to_store_node)
        (app_nodes ttl a (b\<lparr>db_DrainURLs := filter (keep_url dv) (db_DrainURLs b)\<rparr>)) =
      map (\<lambda>u. Some (NewServiceInfo a u (db_Hostname b))) (filter (\<lambda>u. keep_url dv u \<and> \<not> blank u) (db_DrainURLs b))"
      using Cons.prems plain p
      by (subst app_nodes_services[OF dec]) (auto simp: conj_commute)
    with Cons p show ?case by (simp add: kept_services_def comp_def)
  qed (simp add: kept_services_def)
  ultimately show ?thesis by simp
qed

lemma cache_Exists_Add:
  "cache_Exists h s (cache_Add h t c) \<longleftrightarrow> service_key h s = service_key h t \<or> cache_Exists h s c"
  by (auto simp: cache_Exists_def cache_Add_def service_key_def Let_def split: option.split)

lemma watcher_Add_cache:
  "watcher_Add (NewAppServiceCache h) s (c, out) =
     (if cache_Exists h s c then (c, out) else (cache_Add h s c, out @ [Out_Add s]))"
  by (simp add: watcher_Add_def NewAppServiceCache_def)

lemma watcher_Add_all:
  assumes "inj_on (service_key h) (set ss)"
  shows "\<exists>c out. fold (watcher_Add (NewAppServiceCache h)) ss ([], []) = (c, out) \<and> distinct out \<and>
    set out = Out_Add ` set ss \<and> (\<forall>s. cache_Exists h s c \<longleftrightarrow> service_key h s \<in> service_key h ` set ss)"
  using assms
proof (induction ss rule: rev_induct)
  case Nil
  then show ?case by (auto simp: cache_Exists_def)
next
  case (snoc s ss)
  then obtain c out where run: "fold (watcher_Add (NewAppServiceCache h)) ss ([], []) = (c, out)" "distinct out"
    "set out = Out_Add ` set ss" "\<And>s. cache_Exists h s c \<longleftrightarrow> service_key h s \<in> service_key h ` set ss"
    by (auto simp: inj_on_Un)
  have known: "service_key h s \<in> service_key h ` set ss \<longleftrightarrow> s \<in> set ss"
    using snoc.prems by (auto simp: inj_on_def)
  show ?case
  proof (cases "s \<in> set ss")
    case True
    with run known show ?thesis
      by (auto simp: watcher_Add_cache insert_absorb)
  next
    case False
    with run known show ?thesis
      by (auto simp: watcher_Add_cache cache_Exists_Add)
  qed
qed

lemma watcher_created:
  assumes "map (appServiceFromStoreNode unmarshal \<circ> to_store_node) ns = map Some ss"
    and "\<forall>n \<in> set ns. nd_Value n \<noteq> []"
  shows "fold (watcher_event ops unmarshal) (map (CreateEvent \<circ> to_store_node) ns) w = fold (watcher_Add ops) ss w"
  using assms
proof (induction ns arbitrary: ss w)
  case (Cons n ns)
  then obtain s ss' where ss: "ss = s # ss'" by (cases ss) auto
  with Cons show ?case by (auto simp: to_store_node_def)
qed simp


lemma json_plain_no_quote: "json_plain s \<Longrightarrow> CHR 0x22 \<notin> set s"
  by (auto simp: json_plain_def)

lemma decode_drain_decodes: "decodes_drains decode_drain"
  unfolding decodes_drains_def
proof (intro allI impI)
  fix h u
  assume "json_plain h \<and> json_plain u"
  then have "CHR 0x22 \<notin> set h" "CHR 0x22 \<notin> set u" by (auto dest: json_plain_no_quote)
  then show "decode_drain (drainData h u) = Some (u, h)"
    by (simp add: decode_drain_def drainData_def quoted_def split_on_append_sep split_on_no_sep)
qed


section \<open>Polling\<close>

lemma Poll_loop_pages:
  assumes "serves_pages server base batch ((i, r) # ps)"
  shows "Poll_loop server base batch i acc = Some (fold mput_all (map snd ((i, r) # ps)) acc, None)"
  using assms
proof (induction ps arbitrary: i r acc)
  case Nil
  then show ?case by (subst Poll_loop.simps) (simp add: pollAndDecode_def)
next
  case (Cons p ps)
  obtain j r' where p: "p = (j, r')" by (cases p)
  with Cons show ?case by (subst Poll_loop.simps) (simp add: pollAndDecode_def Let_def)
qed

text \<open>
  C38: Polling ends and is complete. When the cloud controller serves a chain of pages, each with
  the identifier of the next and the last without one, \<open>Poll\<close> returns without an error, and the
  bindings it returns are those of all pages, a later page replacing the binding an earlier one
  gave for the same application.
\<close>

theorem poll_collects_pages:
  assumes "serves_pages server base batch ((0, r) # ps)" and "\<forall>r' \<in> snd ` set ((0, r) # ps). wf_map r'"
  shows "\<exists>bs. Poll server base batch = Some (bs, None) \<and> wf_map bs \<and>
    mget bs app = foldl (\<lambda>found r'. case mget r' app of None \<Rightarrow> found | Some b \<Rightarrow> Some b) None (map snd ((0, r) # ps))"
proof -
  have "wf_map (fold mput_all rs acc) \<and> mget (fold mput_all rs acc) app =
      foldl (\<lambda>found r'. case mget r' app of None \<Rightarrow> found | Some b \<Rightarrow> Some b) (mget acc app) rs"
    if "wf_map acc" "\<forall>r' \<in> set rs. wf_map r'" for rs and acc :: drain_bindings
    using that by (induction rs arbitrary: acc) (auto simp: mget_mput_all)
  from this[of "[]" "map snd ((0, r) # ps)"] assms(2) Poll_loop_pages[OF assms(1), of "[]"] show ?thesis
    unfolding Poll_def by auto
qed

theorem poll_collects_pages_witness:
  "\<exists>bs. Poll sample_server ''cc'' 2 = Some (bs, None) \<and> map_option db_Hostname (mget bs ''b'') = Some ''h2''"
proof -
  have url: "buildUrl ''cc'' 2 7 \<noteq> buildUrl ''cc'' 2 0" by (simp add: buildUrl_def Let_def)
  let ?r = "[(''a'', \<lparr>db_Hostname = ''h1'', db_DrainURLs = [''syslog://x'']\<rparr>)]"
  let ?r' = "[(''b'', \<lparr>db_Hostname = ''h2'', db_DrainURLs = [''syslog://y'', '' '']\<rparr>)]"
  have "serves_pages sample_server ''cc'' 2 [(0, ?r), (7, ?r')]"
    using url by (simp add: sample_server_def)
  from poll_collects_pages[OF this, of "''b''"] show ?thesis by auto
qed

text \<open>A page whose body does not decode ends the loop as if it were the last: what follows is lost.\<close>

lemma undecodable_page_is_last:
  "server (buildUrl base batch 0) = Http_OK \<lparr>cc_Results = [], cc_NextID = None\<rparr> \<Longrightarrow> Poll server base batch = Some ([], None)"
  unfolding Poll_def by (subst Poll_loop.simps) (simp add: pollAndDecode_def)

end
