(* ===== verification/Metric_Emitter.thy ===== *)
theory Metric_Emitter
  imports Conversion Metron_Counters
begin

text \<open>
  The metrics that every component emits about itself, package \<open>metricemitter\<close>: counters and
  gauges (\<open>counter.go\<close>, \<open>gauge.go\<close>) and the client that sends them to the agent
  (\<open>client.go\<close>).

  A counter is incremented by any number of goroutines while one goroutine, \<open>pulse\<close>, takes its
  delta with an atomic swap, sends it, and adds it back when the send fails. The machine
  \<open>em_step\<close> interleaves the two at the atomic operations. Opening a stream and sending on it
  belong to gRPC; their outcome is part of an action, as is the clock.
\<close>

section \<open>Counters and gauges\<close>

type_synonym tagged = "(string, v2_value option) gomap"

record counter =
  cnt_tags :: tagged
  cnt_name :: string
  cnt_sourceID :: string
  cnt_delta :: uint64

definition WithTags :: "(string, string) gomap \<Rightarrow> tagged \<Rightarrow> tagged" where
  "WithTags tags m = fold (\<lambda>(k, v). mput k (Some (valueText v))) tags m"

definition WithVersion :: "nat \<Rightarrow> nat \<Rightarrow> tagged \<Rightarrow> tagged" where
  "WithVersion major minor = WithTags [(''metric_version'', nat_digits major @ ''.'' @ nat_digits minor)]"

definition apply_options :: "('a \<Rightarrow> 'a) list \<Rightarrow> 'a \<Rightarrow> 'a" where
  "apply_options opts x = fold (\<lambda>opt. opt) opts x"

definition NewCounter :: "string \<Rightarrow> string \<Rightarrow> (tagged \<Rightarrow> tagged) list \<Rightarrow> counter" where
  "NewCounter name sourceID opts =
     \<lparr>cnt_tags = apply_options opts [], cnt_name = name, cnt_sourceID = sourceID, cnt_delta = 0\<rparr>"

definition Counter_Increment :: "uint64 \<Rightarrow> counter \<Rightarrow> counter" where
  "Counter_Increment c m = m\<lparr>cnt_delta := cnt_delta m + c\<rparr>"

definition Counter_toEnvelope :: "int \<Rightarrow> uint64 \<Rightarrow> counter \<Rightarrow> v2_envelope" where
  "Counter_toEnvelope now delta m =
     \<lparr>e2_Timestamp = now, e2_SourceId = cnt_sourceID m, e2_InstanceId = [],
      e2_DeprecatedTags = Some (cnt_tags m), e2_Tags = None,
      e2_Message = Some (Envelope_Counter \<lparr>ct_Name = cnt_name m, ct_Value = Some (Counter_Delta delta)\<rparr>)\<rparr>"

text \<open>
  The two halves of \<open>Counter.WithEnvelope\<close>: the swap, and what follows the call of the
  function it was given, by whether that call failed.
\<close>

definition Counter_Swap :: "counter \<Rightarrow> uint64 \<times> counter" where
  "Counter_Swap m = (cnt_delta m, m\<lparr>cnt_delta := 0\<rparr>)"

definition Counter_Sent :: "bool \<Rightarrow> uint64 \<Rightarrow> counter \<Rightarrow> counter" where
  "Counter_Sent ok d m = (if ok then m else Counter_Increment d m)"

text \<open>
  A gauge keeps the bits of a float; storing and reading them is exact. \<open>toEnvelope\<close> takes the
  value as an argument and does not use it: it reads the gauge a second time.
\<close>

record gauge =
  ga_tags :: tagged
  ga_name :: string
  ga_unit :: string
  ga_sourceID :: string
  ga_value :: float64

definition NewGauge :: "string \<Rightarrow> string \<Rightarrow> string \<Rightarrow> (tagged \<Rightarrow> tagged) list \<Rightarrow> gauge" where
  "NewGauge name unit sourceID opts =
     \<lparr>ga_tags = apply_options opts [], ga_name = name, ga_unit = unit, ga_sourceID = sourceID,
      ga_value = Finite False 0\<rparr>"

definition Gauge_Set :: "float64 \<Rightarrow> gauge \<Rightarrow> gauge" where
  "Gauge_Set v m = m\<lparr>ga_value := v\<rparr>"

definition Gauge_toEnvelope :: "int \<Rightarrow> float64 \<Rightarrow> gauge \<Rightarrow> v2_envelope" where
  "Gauge_toEnvelope now value m =
     \<lparr>e2_Timestamp = now, e2_SourceId = ga_sourceID m, e2_InstanceId = [],
      e2_DeprecatedTags = Some (ga_tags m), e2_Tags = None,
      e2_Message = Some (Envelope_Gauge
        \<lparr>gg_Metrics = [(ga_name m, Some \<lparr>gv_Unit = ga_unit m, gv_Value = ga_value m\<rparr>)]\<rparr>)\<rparr>"

text \<open>
  \<open>Gauge.WithEnvelope\<close>, where \<open>sets\<close> are the values that other goroutines store between the
  two reads, and \<open>fn\<close> gives the error of the call.
\<close>

definition Gauge_WithEnvelope ::
  "(v2_envelope \<Rightarrow> string option) \<Rightarrow> int \<Rightarrow> float64 list \<Rightarrow> gauge \<Rightarrow> string option \<times> gauge" where
  "Gauge_WithEnvelope fn now sets m =
     (let v = ga_value m; m' = fold Gauge_Set sets m in (fn (Gauge_toEnvelope now v m'), m'))"

section \<open>The client\<close>

record 'o metric_client =
  mc_pulseInterval :: int
  mc_dialOpts :: "'o list"
  mc_sourceID :: string
  mc_tags :: "(string, string) gomap"

definition WithGRPCDialOptions :: "'o list \<Rightarrow> 'o metric_client \<Rightarrow> 'o metric_client" where
  "WithGRPCDialOptions opts c = c\<lparr>mc_dialOpts := opts\<rparr>"

definition WithPulseInterval :: "int \<Rightarrow> 'o metric_client \<Rightarrow> 'o metric_client" where
  "WithPulseInterval d c = c\<lparr>mc_pulseInterval := d\<rparr>"

definition WithSourceID :: "string \<Rightarrow> 'o metric_client \<Rightarrow> 'o metric_client" where
  "WithSourceID s c = c\<lparr>mc_sourceID := s\<rparr>"

definition WithOrigin :: "string \<Rightarrow> 'o metric_client \<Rightarrow> 'o metric_client" where
  "WithOrigin name c = c\<lparr>mc_tags := mput ''origin'' name (mc_tags c)\<rparr>"

definition WithDeployment :: "string \<Rightarrow> string \<Rightarrow> string \<Rightarrow> 'o metric_client \<Rightarrow> 'o metric_client" where
  "WithDeployment deployment job index c =
     c\<lparr>mc_tags := mput ''index'' index (mput ''job'' job (mput ''deployment'' deployment (mc_tags c)))\<rparr>"

definition NewClient ::
  "(string \<Rightarrow> 'o list \<Rightarrow> string option) \<Rightarrow> string \<Rightarrow> ('o metric_client \<Rightarrow> 'o metric_client) list \<Rightarrow>
     'o metric_client result" where
  "NewClient dial addr opts =
     (let client = apply_options opts
            \<lparr>mc_pulseInterval = 5000000000, mc_dialOpts = [], mc_sourceID = [], mc_tags = []\<rparr>
      in case dial addr (mc_dialOpts client) of Some err \<Rightarrow> Inl err | None \<Rightarrow> Inr client)"

definition Client_NewCounter :: "string \<Rightarrow> (tagged \<Rightarrow> tagged) list \<Rightarrow> 'o metric_client \<Rightarrow> counter" where
  "Client_NewCounter name opts c = NewCounter name (mc_sourceID c) (opts @ [WithTags (mc_tags c)])"

definition Client_NewGauge :: "string \<Rightarrow> string \<Rightarrow> (tagged \<Rightarrow> tagged) list \<Rightarrow> 'o metric_client \<Rightarrow> gauge" where
  "Client_NewGauge name unit opts c = NewGauge name unit (mc_sourceID c) (opts @ [WithTags (mc_tags c)])"

section \<open>A counter and its pulse\<close>

text \<open>
  \<open>Pulse_Wait\<close>: the loop waits for its ticker. \<open>Pulse_Send d\<close>: it has swapped \<open>d\<close> out of
  the counter and is inside \<open>Send\<close>.
\<close>

datatype pulse_pc = Pulse_Wait | Pulse_Send uint64

record emitter =
  em_counter :: counter
  em_pc :: pulse_pc
  em_stream :: bool
  em_sent :: "v2_envelope list"

definition start_pulse :: "counter \<Rightarrow> emitter" where
  "start_pulse m = \<lparr>em_counter = m, em_pc = Pulse_Wait, em_stream = False, em_sent = []\<rparr>"

text \<open>
  The actions: an increment, a tick with the outcome of opening a stream (used when there is
  none), and the return of \<open>Send\<close> with its outcome and the time of the envelope.
\<close>

datatype em_action = EM_Increment uint64 | EM_Tick bool | EM_Send int bool

fun em_step :: "em_action \<Rightarrow> emitter \<Rightarrow> emitter" where
  "em_step (EM_Increment c) s = s\<lparr>em_counter := Counter_Increment c (em_counter s)\<rparr>"
| "em_step (EM_Tick opened) s =
     (case em_pc s of
        Pulse_Send d \<Rightarrow> s
      | Pulse_Wait \<Rightarrow>
          (if \<not> em_stream s \<and> \<not> opened then s
           else let (d, m) = Counter_Swap (em_counter s)
                in s\<lparr>em_counter := m, em_pc := Pulse_Send d, em_stream := True\<rparr>))"
| "em_step (EM_Send now ok) s =
     (case em_pc s of
        Pulse_Wait \<Rightarrow> s
      | Pulse_Send d \<Rightarrow>
          s\<lparr>em_counter := Counter_Sent ok d (em_counter s), em_pc := Pulse_Wait, em_stream := ok,
            em_sent := em_sent s @ (if ok then [Counter_toEnvelope now d (em_counter s)] else [])\<rparr>)"

section \<open>Definitions for the properties\<close>

fun increment_of :: "em_action \<Rightarrow> uint64" where
  "increment_of (EM_Increment c) = c"
| "increment_of _ = 0"

fun pulse_in_flight :: "pulse_pc \<Rightarrow> uint64" where
  "pulse_in_flight (Pulse_Send d) = d"
| "pulse_in_flight Pulse_Wait = 0"

text \<open>An envelope that reports this counter.\<close>

definition reports :: "counter \<Rightarrow> v2_envelope \<Rightarrow> bool" where
  "reports m e \<longleftrightarrow>
     e2_SourceId e = cnt_sourceID m \<and> deprecated_tags e = cnt_tags m \<and>
     GetCounter e = Some \<lparr>ct_Name = cnt_name m, ct_Value = Some (Counter_Delta (delta_of_v2 e))\<rparr>"

text \<open>The key under which the agent totals the counter.\<close>

definition agent_key :: "(v2_value option \<Rightarrow> string) \<Rightarrow> counter \<Rightarrow> counterID_v2" where
  "agent_key value_string m =
     \<lparr>cid2_name = cnt_name m, cid2_tagsHash = hashTags_v2 value_string (cnt_tags m)\<rparr>"

definition egress_counter :: counter where
  "egress_counter = Client_NewCounter ''egress'' [WithVersion 2 0]
     (WithOrigin ''loggregator.rlp''
        \<lparr>mc_pulseInterval = 0, mc_dialOpts = [] :: unit list, mc_sourceID = ''rlp'', mc_tags = []\<rparr>)"

text \<open>What a step adds, modulo the width and, where nothing can wrap, exactly.\<close>

definition accounted :: "emitter \<Rightarrow> uint64" where
  "accounted s = sum_list (map delta_of_v2 (em_sent s)) + pulse_in_flight (em_pc s) + cnt_delta (em_counter s)"

definition accounted_nat :: "emitter \<Rightarrow> nat" where
  "accounted_nat s =
     (\<Sum>e \<leftarrow> em_sent s. unat (delta_of_v2 e)) + unat (pulse_in_flight (em_pc s)) + unat (cnt_delta (em_counter s))"

section \<open>Options\<close>

lemma mget_WithTags:
  "wf_map tags \<Longrightarrow>
     mget (WithTags tags m) k = (case mget tags k of None \<Rightarrow> mget m k | Some v \<Rightarrow> Some (Some (valueText v)))"
proof (induction tags arbitrary: m)
  case (Cons p tags)
  obtain k' v' where "p = (k', v')" by (cases p)
  with Cons show ?case by (auto simp: WithTags_def map_of_eq_None_iff[symmetric] split: option.split)
qed (simp add: WithTags_def)

lemma wf_WithTags [simp]: "wf_map m \<Longrightarrow> wf_map (WithTags tags m)"
  by (induction tags arbitrary: m) (auto simp: WithTags_def)

text \<open>The tags of the client win over those of the metric's own options.\<close>

lemma client_tags_win:
  assumes "wf_map (mc_tags c)"
  shows "mget (cnt_tags (Client_NewCounter name opts c)) k =
    (case mget (mc_tags c) k of None \<Rightarrow> mget (apply_options opts []) k | Some v \<Rightarrow> Some (Some (valueText v)))"
  by (simp add: Client_NewCounter_def NewCounter_def apply_options_def mget_WithTags[OF assms] split: option.split)

text \<open>A gauge reports the last value stored before the second read, whatever the first one was.\<close>

lemma gauge_second_read:
  "snd (Gauge_WithEnvelope fn now sets m) = fold Gauge_Set sets m"
  "fst (Gauge_WithEnvelope fn now sets m) = fn (Gauge_toEnvelope now v (fold Gauge_Set sets m))"
  by (simp_all add: Gauge_WithEnvelope_def Gauge_toEnvelope_def Let_def)

section \<open>Conservation\<close>

lemma em_step_static [simp]:
  "cnt_name (em_counter (em_step a s)) = cnt_name (em_counter s)"
  "cnt_sourceID (em_counter (em_step a s)) = cnt_sourceID (em_counter s)"
  "cnt_tags (em_counter (em_step a s)) = cnt_tags (em_counter s)"
  by (cases a; simp add: Counter_Increment_def Counter_Swap_def Counter_Sent_def split: pulse_pc.split)+

lemma em_run_static [simp]:
  "cnt_name (em_counter (fold em_step as s)) = cnt_name (em_counter s)"
  "cnt_sourceID (em_counter (fold em_step as s)) = cnt_sourceID (em_counter s)"
  "cnt_tags (em_counter (fold em_step as s)) = cnt_tags (em_counter s)"
  by (induction as arbitrary: s) simp_all

lemma toEnvelope_reports:
  "reports m (Counter_toEnvelope now d m') \<longleftrightarrow>
     cnt_sourceID m' = cnt_sourceID m \<and> cnt_tags m' = cnt_tags m \<and> cnt_name m' = cnt_name m"
  "delta_of_v2 (Counter_toEnvelope now d m') = d"
  by (auto simp: reports_def Counter_toEnvelope_def deprecated_tags_def delta_of_v2_def)

lemma accounted_step: "accounted (em_step a s) = accounted s + increment_of a"
  by (cases a) (auto simp: accounted_def Counter_Increment_def Counter_Swap_def Counter_Sent_def
      toEnvelope_reports ac_simps split: pulse_pc.split)

lemma unat_add_small:
  fixes a b :: uint64
  shows "unat a + unat b < 2 ^ 64 \<Longrightarrow> unat (a + b) = unat a + unat b"
  by (simp add: unat_word_ariths)

lemma accounted_nat_step:
  assumes "accounted_nat s + unat (increment_of a) < 2 ^ 64"
  shows "accounted_nat (em_step a s) = accounted_nat s + unat (increment_of a)"
  using assms
  by (cases a) (auto simp: accounted_nat_def Counter_Increment_def Counter_Swap_def Counter_Sent_def
      toEnvelope_reports unat_add_small split: pulse_pc.splits)

lemma accounted_run: "accounted (fold em_step as s) = accounted s + sum_list (map increment_of as)"
  by (induction as arbitrary: s) (simp_all add: accounted_step ac_simps)

lemma accounted_nat_run:
  assumes "accounted_nat s + (\<Sum>a \<leftarrow> as. unat (increment_of a)) < 2 ^ 64"
  shows "accounted_nat (fold em_step as s) = accounted_nat s + (\<Sum>a \<leftarrow> as. unat (increment_of a))"
  using assms
proof (induction as arbitrary: s)
  case (Cons a as)
  from Cons.prems have "accounted_nat (em_step a s) = accounted_nat s + unat (increment_of a)"
    by (intro accounted_nat_step) simp
  with Cons show ?case by simp
qed simp

lemma sent_reports:
  "\<forall>e \<in> set (em_sent s). reports (em_counter s) e \<Longrightarrow>
     \<forall>e \<in> set (em_sent (fold em_step as s)). reports (em_counter s) e"
proof (induction as arbitrary: s)
  case (Cons a as)
  have same: "reports (em_counter (em_step a s)) = reports (em_counter s)"
    by (simp add: reports_def fun_eq_iff)
  have "\<forall>e \<in> set (em_sent (em_step a s)). reports (em_counter s) e"
    using Cons.prems by (cases a) (auto simp: toEnvelope_reports Counter_Swap_def split: pulse_pc.splits if_splits)
  with Cons.IH[of "em_step a s"] show ?case by (simp add: same)
qed simp

text \<open>
  C6: A counter loses nothing and counts nothing twice. Whatever increments, ticks and outcomes of
  opening a stream and of sending interleave, what was sent plus what is being sent plus the delta
  of the counter is what was added to it, in 64-bit arithmetic; it is exact when the increments
  stay below \<open>2 ^ 64\<close> together. Every envelope sent carries the name, source and tags of the
  counter.
\<close>

theorem counter_conserves:
  fixes m :: counter and as :: "em_action list"
  defines "s \<equiv> fold em_step as (start_pulse m)"
  shows "sum_list (map delta_of_v2 (em_sent s)) + pulse_in_flight (em_pc s) + cnt_delta (em_counter s) =
      cnt_delta m + sum_list (map increment_of as) \<and>
    (unat (cnt_delta m) + (\<Sum>a \<leftarrow> as. unat (increment_of a)) < 2 ^ 64 \<longrightarrow>
      (\<Sum>e \<leftarrow> em_sent s. unat (delta_of_v2 e)) + unat (pulse_in_flight (em_pc s)) + unat (cnt_delta (em_counter s)) =
      unat (cnt_delta m) + (\<Sum>a \<leftarrow> as. unat (increment_of a))) \<and>
    (\<forall>e \<in> set (em_sent s). reports m e)"
  using accounted_run[of as "start_pulse m"] accounted_nat_run[of "start_pulse m" as]
    sent_reports[of "start_pulse m" as]
  by (simp add: s_def accounted_def accounted_nat_def start_pulse_def)

theorem counter_conserves_witness:
  "let as = [EM_Increment 3, EM_Tick True, EM_Increment 4, EM_Send 1 False, EM_Tick True, EM_Send 2 True];
       s = fold em_step as (start_pulse egress_counter)
   in map delta_of_v2 (em_sent s) = [7] \<and>
      (\<Sum>e \<leftarrow> em_sent s. unat (delta_of_v2 e)) = 7 \<and> (\<forall>e \<in> set (em_sent s). reports egress_counter e)"
proof -
  define as where "as = [EM_Increment 3, EM_Tick True, EM_Increment 4, EM_Send 1 False, EM_Tick True, EM_Send 2 True]"
  have run: "em_pc (fold em_step as (start_pulse egress_counter)) = Pulse_Wait"
    "cnt_delta (em_counter (fold em_step as (start_pulse egress_counter))) = 0"
    "map delta_of_v2 (em_sent (fold em_step as (start_pulse egress_counter))) = [7]"
    by (simp_all add: as_def start_pulse_def Counter_Increment_def Counter_Swap_def Counter_Sent_def
        egress_counter_def Client_NewCounter_def NewCounter_def toEnvelope_reports)
  have "cnt_delta egress_counter = 0"
    by (simp add: egress_counter_def Client_NewCounter_def NewCounter_def)
  with counter_conserves[of as egress_counter] run
  show ?thesis by (simp add: Let_def as_def[symmetric]) (simp add: as_def)
qed

section \<open>From the counter to the total in the agent\<close>

lemma reports_key: "reports m e \<Longrightarrow> counter_key_v2 vs e = Some (agent_key vs m)"
  by (simp add: reports_def counter_key_v2_def counter_id_v2_def agent_key_def)



end
