(* ===== verification/Traffic_Access.thy ===== *)
theory Traffic_Access
  imports Doppler_Server Go_Net Health_Gauges
begin

text \<open>
  The traffic controller as a consumer sees it: authorization (\<open>trafficcontroller/internal/auth\<close>)
  and the routes of the proxy with their handlers (\<open>trafficcontroller/internal/proxy\<close>), without
  the websocket sessions, which are in the theory of that name.

  A handler takes a request and a response writer and returns what it answered and the calls it
  made to the dopplers, in order; \<open>None\<close> is a panic. The router of gorilla/mux is not part of the
  repository: the route it chose, with its variable, is an argument. So are the HTTP servers that
  are asked (the cloud controller and UAA), whether the Go library accepts a URL, decoding JSON,
  the connector to the dopplers and the protobuf functions.

  The locale \<open>access_guard\<close> is the contract of a middleware: behind it nothing is called unless
  access is granted.
\<close>

section \<open>Authorization\<close>

text \<open>\<open>uaa_client.go\<close>. A URL that does not parse leaves a nil request, whose use is a panic.\<close>

record uaa_client =
  uc_address :: string
  uc_id :: string
  uc_secret :: string

record auth_env =
  ae_http :: http_client
  ae_url_ok :: "string \<Rightarrow> bool"
  ae_scope :: "bytes \<Rightarrow> string list result"
  ae_description :: "bytes \<Rightarrow> string"

definition check_token_request :: "uaa_client \<Rightarrow> string \<Rightarrow> http_request" where
  "check_token_request c token =
     (let r = SetBasicAuth (uc_id c) (uc_secret c)
           \<lparr>rq_Method = ''POST'', rq_URL = uc_address c @ ''/check_token'', rq_Header = [],
            rq_Body = encode_pair ''token'' token\<rparr>
      in r\<lparr>rq_Header := mput ''Content-Type'' [''application/x-www-form-urlencoded''] (rq_Header r)\<rparr>)"

definition GetAuthData :: "auth_env \<Rightarrow> uaa_client \<Rightarrow> string \<Rightarrow> string list result option" where
  "GetAuthData env c token =
     (if \<not> ae_url_ok env (uc_address c @ ''/check_token'') then None
      else Some (case ae_http env (check_token_request c token) of
        Inl err \<Rightarrow> Inl err
      | Inr response \<Rightarrow>
          (if rp_StatusCode response = 401 then Inl ''Invalid username/password''
           else if rp_StatusCode response = 404 then Inl ''API endpoint not found''
           else case rp_Body response of
                  Inl err \<Rightarrow> Inl err
                | Inr body \<Rightarrow>
                    (if rp_StatusCode response = 400 then Inl (ae_description env body)
                     else if rp_StatusCode response \<noteq> 200 then Inl ''Unknown error occurred''
                     else ae_scope env body))))"

fun HasPermission :: "string list \<Rightarrow> string \<Rightarrow> bool" where
  "HasPermission [] perm = False"
| "HasPermission (permissionName # scope) perm = (permissionName = perm \<or> HasPermission scope perm)"

definition LOGGREGATOR_ADMIN_ROLE :: string where
  "LOGGREGATOR_ADMIN_ROLE = ''doppler.firehose''"

definition BEARER_PREFIX :: string where
  "BEARER_PREFIX = ''bearer ''"

definition NO_AUTH_TOKEN_PROVIDED_ERROR_MESSAGE :: string where
  "NO_AUTH_TOKEN_PROVIDED_ERROR_MESSAGE = ''Error: Authorization not provided''"

definition INVALID_AUTH_TOKEN_ERROR_MESSAGE :: string where
  "INVALID_AUTH_TOKEN_ERROR_MESSAGE = ''Error: Invalid authorization''"

text \<open>An authorizer returns whether access is granted and its error.\<close>

definition AdminAccessAuthorizer ::
  "auth_env \<Rightarrow> bool \<Rightarrow> uaa_client \<Rightarrow> string \<Rightarrow> (bool \<times> string option) option" where
  "AdminAccessAuthorizer env disableAccessControl c authToken =
     (if disableAccessControl then Some (True, None)
      else if authToken = [] then Some (False, Some NO_AUTH_TOKEN_PROVIDED_ERROR_MESSAGE)
      else map_option (\<lambda>authData. case authData of
               Inl err \<Rightarrow> (False, Some INVALID_AUTH_TOKEN_ERROR_MESSAGE)
             | Inr scope \<Rightarrow>
                 (if HasPermission scope LOGGREGATOR_ADMIN_ROLE then (True, None)
                  else (False, Some INVALID_AUTH_TOKEN_ERROR_MESSAGE)))
             (GetAuthData env c (trimPrefix authToken BEARER_PREFIX)))"

definition log_access_request :: "string \<Rightarrow> string \<Rightarrow> string \<Rightarrow> http_request" where
  "log_access_request apiHost authToken target =
     \<lparr>rq_Method = ''GET'', rq_URL = apiHost @ ''/internal/v4/log_access/'' @ target,
      rq_Header = [(''Authorization'', [authToken])], rq_Body = []\<rparr>"

text \<open>The status only: both callers discard the error.\<close>

definition LogAccessAuthorizer ::
  "auth_env \<Rightarrow> bool \<Rightarrow> string \<Rightarrow> string \<Rightarrow> string \<Rightarrow> int option" where
  "LogAccessAuthorizer env disableAccessControl apiHost authToken target =
     (if disableAccessControl then Some 200
      else if authToken = [] then Some 401
      else let req = log_access_request apiHost authToken target
           in if \<not> ae_url_ok env (rq_URL req) then None
              else case ae_http env req of
                     Inl err \<Rightarrow> Some 500
                   | Inr res \<Rightarrow> Some (rp_StatusCode res))"

section \<open>Tokens of a request\<close>

fun extractAuthTokenFromCookie :: "(string \<times> string) list \<Rightarrow> string" where
  "extractAuthTokenFromCookie [] = []"
| "extractAuthTokenFromCookie ((name, v) # cookies) =
     (if name = ''authorization'' then (case QueryUnescape v of None \<Rightarrow> [] | Some t \<Rightarrow> t)
      else extractAuthTokenFromCookie cookies)"

definition getAuthToken :: "server_request \<Rightarrow> string" where
  "getAuthToken req =
     (let authToken = Header_Get (hr_Header req) ''Authorization''
      in if authToken = [] then extractAuthTokenFromCookie (hr_Cookies req) else authToken)"

section \<open>Calls to the dopplers\<close>

datatype doppler_call =
    Call_Subscribe subscription_request
  | Call_ContainerMetrics string
  | Call_RecentLogs string

text \<open>
  What a handler answers: a response, or a websocket session that serves the stream of a
  subscription and counts in the metric of an endpoint.
\<close>

datatype served = Responded response | Session string

type_synonym handler = "server_request \<Rightarrow> response \<Rightarrow> (served \<times> doppler_call list) option"

record proxy_env =
  pe_subscribe :: "subscription_request \<Rightarrow> bool"
  pe_containerMetrics :: "string \<Rightarrow> bytes list"
  pe_recentLogs :: "string \<Rightarrow> bytes list"
  pe_unmarshal :: "bytes \<Rightarrow> v1_envelope"
  pe_marshal :: "v1_envelope \<Rightarrow> bytes"
  pe_boundary :: string

section \<open>Middleware\<close>

definition AdminAccess_Wrap :: "(string \<Rightarrow> (bool \<times> string option) option) \<Rightarrow> handler \<Rightarrow> handler" where
  "AdminAccess_Wrap authorize h r w =
     Option.bind (authorize (getAuthToken r)) (\<lambda>(authorized, err).
       if \<not> authorized then
         map_option (\<lambda>e. (Responded (write_body (''You are not authorized. '' @ e)
             (WriteHeader 401 (set_header ''WWW-Authenticate'' ''Basic'' w))), [])) err
       else h r w)"

definition LogAccess_Wrap :: "(string \<Rightarrow> string \<Rightarrow> int option) \<Rightarrow> string \<Rightarrow> handler \<Rightarrow> handler" where
  "LogAccess_Wrap authorize appID h r w =
     Option.bind (authorize (getAuthToken r) appID) (\<lambda>status.
       if status \<noteq> 200 then
         (let (status', w') =
            (if status = 401 then (status, set_header ''WWW-Authenticate'' ''Basic'' (WriteHeader status w))
             else if status = 403 \<or> status = 404 then (404, w)
             else (500, w))
          in Some (Responded (WriteHeader status' w'), []))
       else h r w)"

section \<open>Handlers\<close>

text \<open>Writing to the connection is taken not to fail; after a failure the loop only stops.\<close>

definition serveMultiPartResponse :: "string \<Rightarrow> bytes list \<Rightarrow> response \<Rightarrow> response" where
  "serveMultiPartResponse boundary messages rw =
     write_body (multipart_parts boundary True messages @ multipart_close boundary)
       (set_header ''Content-Type'' (''multipart/x-protobuf; boundary='' @ boundary) rw)"

text \<open>\<open>HttpHandler\<close> writes the same for the messages of a channel that is closed after them.\<close>

definition HttpHandler_ServeHTTP :: "string \<Rightarrow> bytes list \<Rightarrow> response \<Rightarrow> response" where
  "HttpHandler_ServeHTTP boundary messages rw =
     write_body (multipart_parts boundary True messages @ multipart_close boundary)
       (set_header ''Content-Type'' (''multipart/x-protobuf; boundary='' @ boundary) rw)"

definition limitFrom :: "server_request \<Rightarrow> nat option" where
  "limitFrom r =
     (case mget (ParseQuery (hr_RawQuery r)) ''limit'' of
        Some (v # _) \<Rightarrow> (case parseInt v of None \<Rightarrow> None | Some i \<Rightarrow> if i < 0 then None else Some (nat i))
      | _ \<Rightarrow> None)"

definition RecentLogsHandler_ServeHTTP :: "proxy_env \<Rightarrow> string \<Rightarrow> handler" where
  "RecentLogsHandler_ServeHTTP env appID r w =
     (let resp = pe_recentLogs env appID;
          resp' = (case limitFrom r of
                     Some limit \<Rightarrow> if length resp > limit then take limit resp else resp
                   | None \<Rightarrow> resp)
      in Some (Responded (serveMultiPartResponse (pe_boundary env) resp' w), [Call_RecentLogs appID]))"

text \<open>The body of the loop in \<open>deDupe\<close>, and the function: the order of the result is that of the map.\<close>

definition deDupe_store :: "v1_envelope \<Rightarrow> (int, v1_envelope) gomap \<Rightarrow> (int, v1_envelope) gomap" where
  "deDupe_store envelope messages =
     (case mget messages (GetInstanceIndex envelope) of
        None \<Rightarrow> mput (GetInstanceIndex envelope) envelope messages
      | Some oldEnvelope \<Rightarrow>
          (if GetTimestamp oldEnvelope < GetTimestamp envelope
           then mput (GetInstanceIndex envelope) envelope messages else messages))"

definition deDupe :: "(bytes \<Rightarrow> v1_envelope) \<Rightarrow> (v1_envelope \<Rightarrow> bytes) \<Rightarrow> bytes list \<Rightarrow> bytes list" where
  "deDupe unmarshal marshal input =
     map marshal (mvalues (fold (\<lambda>message. deDupe_store (unmarshal message)) input []))"

definition ContainerMetricsHandler_ServeHTTP :: "proxy_env \<Rightarrow> string \<Rightarrow> handler" where
  "ContainerMetricsHandler_ServeHTTP env appID r w =
     Some (Responded (serveMultiPartResponse (pe_boundary env)
             (deDupe (pe_unmarshal env) (pe_marshal env) (pe_containerMetrics env appID)) w),
           [Call_ContainerMetrics appID])"

definition StreamHandler_ServeHTTP :: "proxy_env \<Rightarrow> string \<Rightarrow> handler" where
  "StreamHandler_ServeHTTP env appID r w =
     (let req = \<lparr>sr_ShardID = [], sr_Filter = Some \<lparr>rf_AppID = appID, rf_Message = None\<rparr>\<rparr>
      in Some (if \<not> pe_subscribe env req then Responded (WriteHeader 503 w) else Session ''stream'',
               [Call_Subscribe req]))"

definition firehose_filter :: "string \<Rightarrow> request_filter option" where
  "firehose_filter filter_type =
     (if filter_type = ''logs'' then Some \<lparr>rf_AppID = [], rf_Message = Some Filter_Log\<rparr>
      else if filter_type = ''metrics'' then Some \<lparr>rf_AppID = [], rf_Message = Some Filter_Metric\<rparr>
      else None)"

definition FirehoseHandler_ServeHTTP :: "proxy_env \<Rightarrow> string \<Rightarrow> handler" where
  "FirehoseHandler_ServeHTTP env subID r w =
     (let req = \<lparr>sr_ShardID = subID,
                 sr_Filter = firehose_filter (Values_Get (ParseQuery (hr_RawQuery r)) ''filter-type'')\<rparr>
      in Some (if \<not> pe_subscribe env req then Responded (WriteHeader 503 w) else Session ''firehose'',
               [Call_Subscribe req]))"

text \<open>
  \<open>SetCookieHandler\<close>, where \<open>form\<close> is the parsed form, if it parses, and \<open>cookie\<close> the text of
  a cookie with a name, a value and a domain, empty for one that is not valid.
\<close>

definition SetCookieHandler_ServeHTTP ::
  "url_values option \<Rightarrow> (string \<Rightarrow> string \<Rightarrow> string \<Rightarrow> string) \<Rightarrow> string \<Rightarrow> handler" where
  "SetCookieHandler_ServeHTTP form cookie domain r w =
     (let w1 = add_header ''Access-Control-Allow-Credentials'' ''true''
            (add_header ''Access-Control-Allow-Origin'' (Header_Get (hr_Header r) ''Origin'') w)
      in Some (Responded (case form of
                 None \<Rightarrow> WriteHeader 400 w1
               | Some f \<Rightarrow>
                   (let c = cookie (Values_Get f ''CookieName'') (Values_Get f ''CookieValue'') domain
                    in if c = [] then w1 else add_header ''Set-Cookie'' c w1)), []))"

section \<open>The proxy\<close>

datatype route =
    Route_SetCookie
  | Route_ContainerMetrics string
  | Route_RecentLogs string
  | Route_Stream string
  | Route_Firehose string

record proxy =
  px_env :: proxy_env
  px_auth :: auth_env
  px_disableAccessControl :: bool
  px_apiHost :: string
  px_uaa :: uaa_client
  px_form :: "server_request \<Rightarrow> url_values option"
  px_cookie :: "string \<Rightarrow> string \<Rightarrow> string \<Rightarrow> string"
  px_cookieDomain :: string

definition logAuthorizer :: "proxy \<Rightarrow> string \<Rightarrow> string \<Rightarrow> int option" where
  "logAuthorizer p = LogAccessAuthorizer (px_auth p) (px_disableAccessControl p) (px_apiHost p)"

definition adminAuthorizer :: "proxy \<Rightarrow> string \<Rightarrow> (bool \<times> string option) option" where
  "adminAuthorizer p = AdminAccessAuthorizer (px_auth p) (px_disableAccessControl p) (px_uaa p)"

text \<open>The routes that \<open>NewDopplerProxy\<close> registers.\<close>

fun DopplerProxy_ServeHTTP :: "proxy \<Rightarrow> route \<Rightarrow> handler" where
  "DopplerProxy_ServeHTTP p Route_SetCookie r =
     SetCookieHandler_ServeHTTP (px_form p r) (px_cookie p) (px_cookieDomain p) r"
| "DopplerProxy_ServeHTTP p (Route_ContainerMetrics appID) r =
     LogAccess_Wrap (logAuthorizer p) appID (ContainerMetricsHandler_ServeHTTP (px_env p) appID) r"
| "DopplerProxy_ServeHTTP p (Route_RecentLogs appID) r =
     LogAccess_Wrap (logAuthorizer p) appID (RecentLogsHandler_ServeHTTP (px_env p) appID) r"
| "DopplerProxy_ServeHTTP p (Route_Stream appID) r =
     LogAccess_Wrap (logAuthorizer p) appID (StreamHandler_ServeHTTP (px_env p) appID) r"
| "DopplerProxy_ServeHTTP p (Route_Firehose subID) r =
     AdminAccess_Wrap (adminAuthorizer p) (FirehoseHandler_ServeHTTP (px_env p) subID) r"

text \<open>
  The counters of open sessions, which the handlers change when they start and when they return,
  and a turn of \<open>emitMetrics\<close> over the health gauges.
\<close>

datatype session_action = Enter_Stream | Leave_Stream | Enter_Firehose | Leave_Firehose

fun count_session :: "session_action \<Rightarrow> int \<times> int \<Rightarrow> int \<times> int" where
  "count_session Enter_Firehose (firehoses, streams) = (firehoses + 1, streams)"
| "count_session Leave_Firehose (firehoses, streams) = (firehoses - 1, streams)"
| "count_session Enter_Stream (firehoses, streams) = (firehoses, streams + 1)"
| "count_session Leave_Stream (firehoses, streams) = (firehoses, streams - 1)"

definition emitMetrics :: "int \<times> int \<Rightarrow> gauges \<Rightarrow> gauges option" where
  "emitMetrics counts g =
     Option.bind (Registrar_Set ''firehoseStreamCount'' (fst counts) g) (Registrar_Set ''appStreamCount'' (snd counts))"

section \<open>The access log\<close>

text \<open>
  The template of \<open>accesslog.go\<close> is one of \<open>html/template\<close>, which escapes the values it puts
  into text for HTML.
\<close>

definition html_char :: "char \<Rightarrow> string" where
  "html_char c =
     (if c = CHR 0x00 then [CHR 0xEF, CHR 0xBF, CHR 0xBD]
      else if c = CHR 0x22 then ''&#34;'' else if c = CHR ''&'' then ''&amp;''
      else if c = CHR 0x27 then ''&#39;'' else if c = CHR ''+'' then ''&#43;''
      else if c = CHR ''<'' then ''&lt;'' else if c = CHR ''>'' then ''&gt;'' else [c])"

definition html_escape :: "string \<Rightarrow> string" where
  "html_escape s = concat (map html_char s)"

definition extractRemoteInfo :: "server_request \<Rightarrow> string \<times> string" where
  "extractRemoteInfo r =
     (let forwarded = takeWhile (\<lambda>c. c \<noteq> CHR '','') (Header_Get (hr_Header r) ''X-Forwarded-For'');
          remoteAddr = (if forwarded = [] then hr_RemoteAddr r else forwarded);
          remoteAddr' = (if CHR '':'' \<notin> set remoteAddr then remoteAddr @ '':'' else remoteAddr)
      in case SplitHostPort remoteAddr' of Inl err \<Rightarrow> ([], []) | Inr (host, port) \<Rightarrow> (host, port))"

text \<open>Go divides towards zero.\<close>

definition toMillis :: "int \<Rightarrow> int" where
  "toMillis unixNano = (if unixNano < 0 then - (- unixNano div 1000000) else unixNano div 1000000)"

definition AccessLog_String :: "int \<Rightarrow> string \<Rightarrow> uint32 \<Rightarrow> server_request \<Rightarrow> string" where
  "AccessLog_String ts host port r =
     (let path = (if hr_RawQuery r \<noteq> [] then hr_Path r @ ''?'' @ hr_RawQuery r else hr_Path r);
          (remoteHost, remotePort) = extractRemoteInfo r;
          e = html_escape;
          request = e (hr_Method r) @ '' '' @ e path;
          extensions = join_with '' ''
            [''rt='' @ itoa (toMillis ts),
             ''cs1Label=userAuthenticationMechanism'',
             ''cs1=oauth-access-token'',
             ''cs2Label=vcapRequestId'',
             ''cs2='' @ e (Header_Get (hr_Header r) ''X-Vcap-Request-Id''),
             ''request='' @ e path,
             ''requestMethod='' @ e (hr_Method r),
             ''src='' @ e remoteHost,
             ''spt='' @ e remotePort,
             ''dst='' @ e host,
             ''dpt='' @ e (nat_digits (unat port))]
      in ''CEF:'' @ join_with ''|''
           [''0'', ''cloud_foundry'', ''loggregator_trafficcontroller'', ''1.0'', request, request, ''0'', extensions])"

definition LogAccess :: "int \<Rightarrow> string \<Rightarrow> uint32 \<Rightarrow> server_request \<Rightarrow> bytes" where
  "LogAccess ts host port r = AccessLog_String ts host port r @ [newline]"

text \<open>
  \<open>AccessHandler\<close>: the line is written whether or not the handler behind it grants access, and
  a failure to write it does not stop the request. The log is the list of what was written.
\<close>

definition AccessHandler_ServeHTTP ::
  "bool \<Rightarrow> int \<Rightarrow> string \<Rightarrow> uint32 \<Rightarrow> handler \<Rightarrow> server_request \<Rightarrow> response \<Rightarrow> bytes list \<Rightarrow>
     (served \<times> doppler_call list) option \<times> bytes list" where
  "AccessHandler_ServeHTTP write_ok ts host port handler r w accessLog =
     (handler r w, accessLog @ (if write_ok then [LogAccess ts host port r] else []))"

section \<open>Definitions for the properties\<close>

text \<open>When access is granted, in terms of what the two servers answered.\<close>

definition log_granted :: "proxy \<Rightarrow> server_request \<Rightarrow> string \<Rightarrow> bool" where
  "log_granted p r appID \<longleftrightarrow>
     px_disableAccessControl p \<or>
     (getAuthToken r \<noteq> [] \<and>
      (\<exists>res. ae_http (px_auth p) (log_access_request (px_apiHost p) (getAuthToken r) appID) = Inr res \<and>
         rp_StatusCode res = 200))"

definition admin_granted :: "proxy \<Rightarrow> server_request \<Rightarrow> bool" where
  "admin_granted p r \<longleftrightarrow>
     px_disableAccessControl p \<or>
     (getAuthToken r \<noteq> [] \<and>
      (\<exists>res body scope.
         ae_http (px_auth p) (check_token_request (px_uaa p) (trimPrefix (getAuthToken r) ''bearer '')) = Inr res \<and>
         rp_StatusCode res = 200 \<and> rp_Body res = Inr body \<and> ae_scope (px_auth p) body = Inr scope \<and>
         ''doppler.firehose'' \<in> set scope))"

definition refused :: "served \<Rightarrow> bool" where
  "refused out \<longleftrightarrow> (\<exists>w. out = Responded w \<and> status_of w \<in> {401, 404, 500})"

definition body_of :: "served \<Rightarrow> bytes" where
  "body_of out = (case out of Responded w \<Rightarrow> rs_body w | Session _ \<Rightarrow> [])"

text \<open>A proxy for examples: the token \<open>t\<close> may read the logs of \<open>a\<close> and is no admin.\<close>

definition small_proxy :: proxy where
  "small_proxy =
     \<lparr>px_env = \<lparr>pe_subscribe = (\<lambda>_. True), pe_containerMetrics = (\<lambda>_. [''1'', ''2'', ''3'']),
        pe_recentLogs = (\<lambda>_. [''x'', ''y'']),
        pe_unmarshal = (\<lambda>b. empty_v1\<lparr>e1_Timestamp := Some (int (of_char (hd b))),
          e1_ContainerMetric := Some \<lparr>cm_ApplicationId = None, cm_InstanceIndex = Some (if b = ''3'' then 1 else 0),
            cm_CpuPercentage = None, cm_MemoryBytes = None, cm_DiskBytes = None, cm_MemoryBytesQuota = None,
            cm_DiskBytesQuota = None\<rparr>\<rparr>),
        pe_marshal = (\<lambda>e. [char_of (nat (GetTimestamp e))]), pe_boundary = ''b''\<rparr>,
      px_auth = \<lparr>ae_http = (\<lambda>req. if req = log_access_request ''http://cc'' ''t'' ''a''
            then Inr \<lparr>rp_StatusCode = 200, rp_Body = Inr []\<rparr> else Inr \<lparr>rp_StatusCode = 403, rp_Body = Inr []\<rparr>),
        ae_url_ok = (\<lambda>_. True), ae_scope = (\<lambda>_. Inr []), ae_description = (\<lambda>_. [])\<rparr>,
      px_disableAccessControl = False, px_apiHost = ''http://cc'',
      px_uaa = \<lparr>uc_address = ''http://uaa'', uc_id = ''i'', uc_secret = ''s''\<rparr>,
      px_form = (\<lambda>_. None), px_cookie = (\<lambda>_ _ _. []), px_cookieDomain = []\<rparr>"

definition small_get :: server_request where
  "small_get = \<lparr>hr_Method = ''GET'', hr_Path = ''/apps/a/recentlogs'', hr_RawQuery = ''limit=1'',
     hr_Header = [(''Authorization'', [''t''])], hr_Cookies = [], hr_RemoteAddr = ''10.0.0.1:80''\<rparr>"

section \<open>The contract of a middleware\<close>

lemma WriteHeader_sent [simp]:
  "rs_sent w = None \<Longrightarrow> rs_sent (WriteHeader s w) = Some (s, rs_header w)"
  "rs_sent w = Some x \<Longrightarrow> WriteHeader s w = w"
  by (simp_all add: WriteHeader_def)

lemma set_header_sent [simp]: "rs_sent (set_header k v w) = rs_sent w"
  by (simp add: set_header_def)

lemma write_body_sent: "rs_sent w = Some x \<Longrightarrow> rs_sent (write_body b w) = Some x"
  by (simp add: write_body_def Let_def)

locale access_guard =
  fixes wrap :: "handler \<Rightarrow> handler" and granted :: "server_request \<Rightarrow> bool"
  assumes pass: "granted r \<Longrightarrow> wrap h r w = h r w"
    and refuse: "\<not> granted r \<Longrightarrow> rs_sent w = None \<Longrightarrow> wrap h r w = Some (out, calls) \<Longrightarrow>
      calls = [] \<and> refused out"
begin

text \<open>What a guarded handler does is what it would do alone, or nothing but a refusal.\<close>

lemma guarded:
  assumes "wrap h r w = Some (out, calls)" and "rs_sent w = None"
  shows "if granted r then h r w = Some (out, calls) else calls = [] \<and> refused out"
  using assms pass[of r h w] refuse[of r w h out calls] by auto

lemma called_only_if_granted:
  assumes "wrap h r w = Some (out, calls)" and "rs_sent w = None" and "c \<in> set calls"
  shows "granted r"
  using guarded[OF assms(1,2)] assms(3) by (auto split: if_splits)

end

interpretation log_guard: access_guard "LogAccess_Wrap authorize appID"
  "\<lambda>r. authorize (getAuthToken r) appID = Some 200"
  by unfold_locales
     (auto simp: LogAccess_Wrap_def refused_def status_of_def Let_def split: Option.bind_splits if_splits)

interpretation admin_guard: access_guard "AdminAccess_Wrap authorize"
  "\<lambda>r. \<exists>err. authorize (getAuthToken r) = Some (True, err)"
proof
  fix r h w assume "\<exists>err. authorize (getAuthToken r) = Some (True, err)"
  then show "AdminAccess_Wrap authorize h r w = h r w" by (auto simp: AdminAccess_Wrap_def)
next
  fix r w h out calls
  assume no: "\<nexists>err. authorize (getAuthToken r) = Some (True, err)" and w: "rs_sent w = None"
    and run: "AdminAccess_Wrap authorize h r w = Some (out, calls)"
  from run no obtain e where "out = Responded (write_body (''You are not authorized. '' @ e)
      (WriteHeader 401 (set_header ''WWW-Authenticate'' ''Basic'' w)))" "calls = []"
    by (auto simp: AdminAccess_Wrap_def split: Option.bind_splits if_splits)
  then show "calls = [] \<and> refused out"
    using w by (simp add: refused_def status_of_def write_body_sent)
qed

section \<open>When access is granted\<close>

lemma HasPermission_iff: "HasPermission scope perm \<longleftrightarrow> perm \<in> set scope"
  by (induction scope) auto

lemma logAuthorizer_granted:
  "logAuthorizer p (getAuthToken r) appID = Some status \<Longrightarrow> status = 200 \<longleftrightarrow> log_granted p r appID"
  by (auto simp: logAuthorizer_def LogAccessAuthorizer_def log_granted_def Let_def split: if_splits sum.splits)

lemma GetAuthData_scope:
  "GetAuthData env c token = Some data \<Longrightarrow>
     data = Inr scope \<longleftrightarrow> (\<exists>res body. ae_http env (check_token_request c token) = Inr res \<and>
       rp_StatusCode res = 200 \<and> rp_Body res = Inr body \<and> ae_scope env body = Inr scope)"
  by (auto simp: GetAuthData_def split: if_splits sum.splits)

lemma adminAuthorizer_granted:
  assumes "adminAuthorizer p (getAuthToken r) = Some (authorized, err)"
  shows "authorized \<longleftrightarrow> admin_granted p r"
proof (cases "px_disableAccessControl p \<or> getAuthToken r = []")
  case True
  with assms show ?thesis by (auto simp: adminAuthorizer_def AdminAccessAuthorizer_def admin_granted_def)
next
  case False
  from assms False obtain data where
    data: "GetAuthData (px_auth p) (px_uaa p) (trimPrefix (getAuthToken r) ''bearer '') = Some data"
    and verdict: "(authorized, err) = (case data of
        Inl err \<Rightarrow> (False, Some INVALID_AUTH_TOKEN_ERROR_MESSAGE)
      | Inr scope \<Rightarrow> (if HasPermission scope ''doppler.firehose'' then (True, None)
          else (False, Some INVALID_AUTH_TOKEN_ERROR_MESSAGE)))"
    by (auto simp: adminAuthorizer_def AdminAccessAuthorizer_def BEARER_PREFIX_def LOGGREGATOR_ADMIN_ROLE_def)
  have auth: "authorized \<longleftrightarrow> (\<exists>scope. data = Inr scope \<and> ''doppler.firehose'' \<in> set scope)"
    using verdict by (cases data) (auto simp: HasPermission_iff split: if_splits)
  from False show ?thesis
    by (auto simp: auth admin_granted_def GetAuthData_scope[OF data])
qed

lemma log_route:
  assumes "LogAccess_Wrap (logAuthorizer p) appID h r w = Some (out, calls)" and "rs_sent w = None"
  shows "if log_granted p r appID then h r w = Some (out, calls) else calls = [] \<and> refused out"
proof -
  from assms(1) obtain status where "logAuthorizer p (getAuthToken r) appID = Some status"
    by (auto simp: LogAccess_Wrap_def split: Option.bind_splits)
  with log_guard.guarded[OF assms] logAuthorizer_granted[of p r appID status] show ?thesis by auto
qed

lemma admin_route:
  assumes "AdminAccess_Wrap (adminAuthorizer p) h r w = Some (out, calls)" and "rs_sent w = None"
  shows "if admin_granted p r then h r w = Some (out, calls) else calls = [] \<and> refused out"
proof -
  from assms(1) obtain a err where "adminAuthorizer p (getAuthToken r) = Some (a, err)"
    by (auto simp: AdminAccess_Wrap_def split: Option.bind_splits)
  with admin_guard.guarded[OF assms] adminAuthorizer_granted[of p r a err] show ?thesis by auto
qed

section \<open>Properties\<close>

text \<open>
  C2: The dopplers are called only with authorization, and only for what was authorized. A request
  for an application leads to exactly one call, for that application, if the cloud controller
  answered 200 to the question about the token and that application (or access control is
  disabled); the subscription of a stream asks the dopplers for envelopes of that application and
  no other. A firehose is subscribed if UAA gave the token, without its prefix, the scope
  \<open>doppler.firehose\<close>. In every other case nothing is called and the answer is 401, 404 or 500.
\<close>

theorem doppler_calls_authorised:
  assumes served: "DopplerProxy_ServeHTTP p rt r new_response = Some (out, calls)"
  shows "case rt of
      Route_SetCookie \<Rightarrow> calls = []
    | Route_ContainerMetrics a \<Rightarrow>
        if log_granted p r a then calls = [Call_ContainerMetrics a] else calls = [] \<and> refused out
    | Route_RecentLogs a \<Rightarrow>
        if log_granted p r a then calls = [Call_RecentLogs a] else calls = [] \<and> refused out
    | Route_Stream a \<Rightarrow>
        if log_granted p r a then
          \<exists>req. calls = [Call_Subscribe req] \<and>
            (a \<noteq> [] \<longrightarrow> (\<forall>pkg app e. wants pkg (convertFilter req) app e \<longleftrightarrow> app = a))
        else calls = [] \<and> refused out
    | Route_Firehose s \<Rightarrow>
        if admin_granted p r then \<exists>req. calls = [Call_Subscribe req] \<and> sr_ShardID req = s
        else calls = [] \<and> refused out"
proof -
  have new: "rs_sent new_response = None" by (simp add: new_response_def)
  show ?thesis
  proof (cases rt)
    case Route_SetCookie
    with served show ?thesis by (simp add: SetCookieHandler_ServeHTTP_def Let_def)
  next
    case (Route_ContainerMetrics a)
    with served log_route[OF _ new, of p a] show ?thesis
      by (fastforce simp: ContainerMetricsHandler_ServeHTTP_def split: if_splits)
  next
    case (Route_RecentLogs a)
    with served log_route[OF _ new, of p a] show ?thesis
      by (fastforce simp: RecentLogsHandler_ServeHTTP_def Let_def split: if_splits)
  next
    case (Route_Stream a)
    with served log_route[OF _ new, of p a] show ?thesis
      by (fastforce simp: StreamHandler_ServeHTTP_def Let_def wants_def convertFilter_def split: if_splits)
  next
    case (Route_Firehose s)
    with served admin_route[OF _ new, of p] show ?thesis
      by (fastforce simp: FirehoseHandler_ServeHTTP_def Let_def split: if_splits)
  qed
qed

lemma small_token [simp]: "getAuthToken small_get = ''t''"
  by (simp add: getAuthToken_def small_get_def Header_Get_def Values_Get_def Let_def)

lemma small_log_status:
  "logAuthorizer small_proxy ''t'' a = Some (if a = ''a'' then 200 else 403)"
  by (simp add: logAuthorizer_def LogAccessAuthorizer_def small_proxy_def log_access_request_def Let_def)

theorem doppler_calls_authorised_witness:
  "(\<exists>out req. DopplerProxy_ServeHTTP small_proxy (Route_Stream ''a'') small_get new_response = Some (out, [Call_Subscribe req]) \<and>
      (\<forall>pkg app e. wants pkg (convertFilter req) app e \<longleftrightarrow> app = ''a'')) \<and>
   (\<exists>out. DopplerProxy_ServeHTTP small_proxy (Route_Stream ''b'') small_get new_response = Some (out, []) \<and> refused out)"
proof
  obtain out calls where run: "DopplerProxy_ServeHTTP small_proxy (Route_Stream ''a'') small_get new_response = Some (out, calls)"
    by (simp add: LogAccess_Wrap_def small_log_status StreamHandler_ServeHTTP_def Let_def)
  have "log_granted small_proxy small_get ''a''"
    using logAuthorizer_granted[of small_proxy small_get "''a''" 200] by (simp add: small_log_status)
  with doppler_calls_authorised[OF run] run
  show "\<exists>out req. DopplerProxy_ServeHTTP small_proxy (Route_Stream ''a'') small_get new_response = Some (out, [Call_Subscribe req]) \<and>
      (\<forall>pkg app e. wants pkg (convertFilter req) app e \<longleftrightarrow> app = ''a'')"
    by auto
next
  obtain out calls where run: "DopplerProxy_ServeHTTP small_proxy (Route_Stream ''b'') small_get new_response = Some (out, calls)"
    by (simp add: LogAccess_Wrap_def small_log_status Let_def)
  have "\<not> log_granted small_proxy small_get ''b''"
    using logAuthorizer_granted[of small_proxy small_get "''b''" 403] by (simp add: small_log_status)
  with doppler_calls_authorised[OF run] run
  show "\<exists>out. DopplerProxy_ServeHTTP small_proxy (Route_Stream ''b'') small_get new_response = Some (out, []) \<and> refused out"
    by auto
qed

text \<open>
  The challenge that the middleware for logs adds to a 401 comes after the header was sent, so
  the client does not get it.
\<close>

lemma log_challenge_not_sent:
  assumes "authorize (getAuthToken r) appID = Some 401"
  shows "\<exists>w. LogAccess_Wrap authorize appID h r new_response = Some (Responded w, []) \<and> status_of w = 401 \<and>
    mget (rs_header w) ''WWW-Authenticate'' = Some [''Basic''] \<and> mget (sent_header w) ''WWW-Authenticate'' = None"
  using assms
  by (simp add: LogAccess_Wrap_def new_response_def WriteHeader_def set_header_def status_of_def sent_header_def)

text \<open>An application id that is no part of a valid URL makes the handler panic.\<close>

lemma log_access_panics:
  assumes "\<not> px_disableAccessControl p" and "getAuthToken r \<noteq> []"
    and "\<not> ae_url_ok (px_auth p) (px_apiHost p @ ''/internal/v4/log_access/'' @ appID)"
  shows "DopplerProxy_ServeHTTP p (Route_Stream appID) r w = None"
  using assms by (simp add: LogAccess_Wrap_def logAuthorizer_def LogAccessAuthorizer_def log_access_request_def Let_def)

section \<open>Queries\<close>

interpretation deduped: newest_cache GetInstanceIndex GetTimestamp deDupe_store
  by unfold_locales (auto simp: deDupe_store_def fun_eq_iff)

lemma deDupe_entries:
  "\<exists>es. deDupe unmarshal marshal input = map marshal es \<and> distinct (map GetInstanceIndex es) \<and>
    GetInstanceIndex ` set es = GetInstanceIndex ` unmarshal ` set input \<and>
    (\<forall>e \<in> set es. e \<in> unmarshal ` set input \<and>
       (\<forall>m \<in> set input. GetInstanceIndex (unmarshal m) = GetInstanceIndex e \<longrightarrow> GetTimestamp (unmarshal m) \<le> GetTimestamp e))"
proof -
  let ?m = "fold deDupe_store (map unmarshal input) []"
  have wf: "wf_map ?m"
    by (rule fold_invariant[where P = "\<lambda>m. wf_map m" and Q = "\<lambda>_. True"])
       (auto simp: deDupe_store_def split: option.split)
  have entry: "snd p \<in> unmarshal ` set input \<and> GetInstanceIndex (snd p) = fst p \<and>
      (\<forall>e' \<in> unmarshal ` set input. GetInstanceIndex e' = fst p \<longrightarrow> GetTimestamp e' \<le> GetTimestamp (snd p))"
    if "p \<in> set ?m" for p
    using deduped.stored_entry[of "map unmarshal input" "fst p" "snd p"] wf_map_mget_iff[OF wf, of "fst p" "snd p"] that
    by simp
  have keys: "map GetInstanceIndex (mvalues ?m) = map fst ?m"
    using entry by (auto simp: mvalues_def)
  have "GetInstanceIndex ` set (mvalues ?m) = GetInstanceIndex ` unmarshal ` set input"
  proof -
    have "GetInstanceIndex ` set (mvalues ?m) = fst ` set ?m"
      using arg_cong[OF keys, of set] by simp
    also have "\<dots> = GetInstanceIndex ` unmarshal ` set input"
    proof (rule set_eqI)
      fix k
      have "k \<notin> fst ` set ?m \<longleftrightarrow> (\<forall>e \<in> unmarshal ` set input. GetInstanceIndex e \<noteq> k)"
        using deduped.stored_key[of "map unmarshal input" k] by (simp only: mget_None_iff set_map)
      moreover have "k \<in> GetInstanceIndex ` E \<longleftrightarrow> \<not> (\<forall>e \<in> E. GetInstanceIndex e \<noteq> k)" for E by auto
      ultimately show "k \<in> fst ` set ?m \<longleftrightarrow> k \<in> GetInstanceIndex ` unmarshal ` set input" by metis
    qed
    finally show ?thesis .
  qed
  moreover have "deDupe unmarshal marshal input = map marshal (mvalues ?m)"
    by (simp add: deDupe_def fold_map comp_def)
  moreover have "distinct (map GetInstanceIndex (mvalues ?m))" using wf keys by simp
  moreover have "\<forall>e \<in> set (mvalues ?m). e \<in> unmarshal ` set input \<and>
       (\<forall>m \<in> set input. GetInstanceIndex (unmarshal m) = GetInstanceIndex e \<longrightarrow> GetTimestamp (unmarshal m) \<le> GetTimestamp e)"
    using entry by (auto simp: mvalues_def)
  ultimately show ?thesis by blast
qed

lemma read_served:
  assumes "CHR 0x0D \<notin> set b" and "\<forall>m \<in> set ms. cut_at (delimiter b) m = None"
  shows "read_multipart b (rs_body (serveMultiPartResponse b ms new_response)) = Some ms"
  using read_multipart_written[OF assms]
  by (simp add: serveMultiPartResponse_def write_body_def new_response_def set_header_def WriteHeader_def Let_def)

text \<open>
  C22: The answers to queries. With a granted request and a boundary that occurs in no message, the
  parts of the answer to a request for recent logs are the messages the dopplers returned, in their
  order, cut at the limit if the query has one that is a number and not negative; those of the answer to a
  request for container metrics are one metric for each instance the dopplers reported, and no
  later one of that instance was reported.
\<close>

theorem queries_answered:
  fixes p :: proxy
  defines "env \<equiv> px_env p"
  assumes boundary: "CHR 0x0D \<notin> set (pe_boundary env)"
    and logs: "\<forall>m \<in> set (pe_recentLogs env a). cut_at (delimiter (pe_boundary env)) m = None"
    and metrics: "\<forall>m \<in> set (pe_containerMetrics env a).
      cut_at (delimiter (pe_boundary env)) (pe_marshal env (pe_unmarshal env m)) = None"
    and granted: "logAuthorizer p (getAuthToken r) a = Some 200"
  shows "(\<exists>out. DopplerProxy_ServeHTTP p (Route_RecentLogs a) r new_response = Some (out, [Call_RecentLogs a]) \<and>
      read_multipart (pe_boundary env) (body_of out) =
        Some (case limitFrom r of None \<Rightarrow> pe_recentLogs env a | Some n \<Rightarrow> take n (pe_recentLogs env a))) \<and>
    (\<exists>out es. DopplerProxy_ServeHTTP p (Route_ContainerMetrics a) r new_response = Some (out, [Call_ContainerMetrics a]) \<and>
      read_multipart (pe_boundary env) (body_of out) = Some (map (pe_marshal env) es) \<and>
      distinct (map GetInstanceIndex es) \<and>
      GetInstanceIndex ` set es = GetInstanceIndex ` pe_unmarshal env ` set (pe_containerMetrics env a) \<and>
      (\<forall>e \<in> set es. e \<in> pe_unmarshal env ` set (pe_containerMetrics env a) \<and>
         (\<forall>m \<in> set (pe_containerMetrics env a). GetInstanceIndex (pe_unmarshal env m) = GetInstanceIndex e \<longrightarrow>
            GetTimestamp (pe_unmarshal env m) \<le> GetTimestamp e)))"
proof (rule conjI)
  let ?ms = "case limitFrom r of None \<Rightarrow> pe_recentLogs env a | Some n \<Rightarrow> take n (pe_recentLogs env a)"
  have sub: "set ?ms \<subseteq> set (pe_recentLogs env a)" by (auto split: option.split dest: in_set_takeD)
  have "(case limitFrom r of
           Some limit \<Rightarrow> if length (pe_recentLogs env a) > limit then take limit (pe_recentLogs env a) else pe_recentLogs env a
         | None \<Rightarrow> pe_recentLogs env a) = ?ms"
    by (auto split: option.split)
  then have "DopplerProxy_ServeHTTP p (Route_RecentLogs a) r new_response =
      Some (Responded (serveMultiPartResponse (pe_boundary env) ?ms new_response), [Call_RecentLogs a])"
    using granted by (simp add: log_guard.pass RecentLogsHandler_ServeHTTP_def Let_def env_def[symmetric])
  moreover have "read_multipart (pe_boundary env) (rs_body (serveMultiPartResponse (pe_boundary env) ?ms new_response)) = Some ?ms"
    using sub logs by (intro read_served[OF boundary]) blast
  ultimately show "\<exists>out. DopplerProxy_ServeHTTP p (Route_RecentLogs a) r new_response = Some (out, [Call_RecentLogs a]) \<and>
      read_multipart (pe_boundary env) (body_of out) = Some ?ms"
    by (intro exI[of _ "Responded (serveMultiPartResponse (pe_boundary env) ?ms new_response)"])
       (simp add: body_of_def)
next
  obtain es where es: "deDupe (pe_unmarshal env) (pe_marshal env) (pe_containerMetrics env a) = map (pe_marshal env) es"
    "distinct (map GetInstanceIndex es)"
    "GetInstanceIndex ` set es = GetInstanceIndex ` pe_unmarshal env ` set (pe_containerMetrics env a)"
    "\<forall>e \<in> set es. e \<in> pe_unmarshal env ` set (pe_containerMetrics env a) \<and>
       (\<forall>m \<in> set (pe_containerMetrics env a). GetInstanceIndex (pe_unmarshal env m) = GetInstanceIndex e \<longrightarrow>
          GetTimestamp (pe_unmarshal env m) \<le> GetTimestamp e)"
    using deDupe_entries[of "pe_unmarshal env" "pe_marshal env" "pe_containerMetrics env a"] by blast
  let ?w = "serveMultiPartResponse (pe_boundary env) (map (pe_marshal env) es) new_response"
  have "DopplerProxy_ServeHTTP p (Route_ContainerMetrics a) r new_response = Some (Responded ?w, [Call_ContainerMetrics a])"
    using granted by (simp add: log_guard.pass ContainerMetricsHandler_ServeHTTP_def es(1)[symmetric] env_def[symmetric])
  moreover have "read_multipart (pe_boundary env) (body_of (Responded ?w)) = Some (map (pe_marshal env) es)"
    unfolding body_of_def served.case using es(4) metrics by (intro read_served[OF boundary]) auto
  ultimately show "\<exists>out es. DopplerProxy_ServeHTTP p (Route_ContainerMetrics a) r new_response = Some (out, [Call_ContainerMetrics a]) \<and>
      read_multipart (pe_boundary env) (body_of out) = Some (map (pe_marshal env) es) \<and>
      distinct (map GetInstanceIndex es) \<and>
      GetInstanceIndex ` set es = GetInstanceIndex ` pe_unmarshal env ` set (pe_containerMetrics env a) \<and>
      (\<forall>e \<in> set es. e \<in> pe_unmarshal env ` set (pe_containerMetrics env a) \<and>
         (\<forall>m \<in> set (pe_containerMetrics env a). GetInstanceIndex (pe_unmarshal env m) = GetInstanceIndex e \<longrightarrow>
            GetTimestamp (pe_unmarshal env m) \<le> GetTimestamp e))"
    using es(2,3,4) by blast
qed

theorem queries_answered_witness:
  "\<exists>out. DopplerProxy_ServeHTTP small_proxy (Route_RecentLogs ''a'') small_get new_response = Some (out, [Call_RecentLogs ''a'']) \<and>
     read_multipart ''b'' (body_of out) = Some [''x'']"
proof -
  have env: "pe_boundary (px_env small_proxy) = ''b''" "pe_recentLogs (px_env small_proxy) ''a'' = [''x'', ''y'']"
    "pe_containerMetrics (px_env small_proxy) ''a'' = [''1'', ''2'', ''3'']"
    by (simp_all add: small_proxy_def)
  have single: "cut_at (delimiter ''b'') [c] = None" for c
    by (simp add: cut_at.simps delimiter_Cons hasPrefix_def)
  have "cut_at (delimiter ''b'') (pe_marshal (px_env small_proxy) e) = None" for e
    using single by (simp add: small_proxy_def)
  moreover have "limitFrom small_get = Some 1"
    by (simp add: limitFrom_def small_get_def ParseQuery_def query_pair_def mget_or_def Let_def
        parseInt_def parseUint_def digit_val_def)
  ultimately show ?thesis
    using queries_answered[of small_proxy "''a''" small_get] single by (simp add: env small_log_status)
qed

section \<open>The access log is one line per request, if the request allows it\<close>

lemma html_escape_newline [simp]: "newline \<in> set (html_escape s) \<longleftrightarrow> newline \<in> set s"
  by (induction s) (auto simp: html_escape_def html_char_def newline_def)

lemma html_escape_plain:
  "\<forall>c \<in> set s. html_char c = [c] \<Longrightarrow> html_escape s = s"
  by (induction s) (auto simp: html_escape_def)

lemma html_escape_append: "html_escape (s @ t) = html_escape s @ html_escape t"
  by (simp add: html_escape_def)

text \<open>The path is logged decoded, and a line break in it starts a new line of the log, with text of the sender's choice.\<close>

lemma AccessLog_request:
  assumes "hr_RawQuery r = []"
  shows "\<exists>a b. AccessLog_String ts host port r = a @ html_escape (hr_Path r) @ b"
proof -
  obtain rh rp where remote: "extractRemoteInfo r = (rh, rp)" by (cases "extractRemoteInfo r")
  have path: "(if hr_RawQuery r \<noteq> [] then hr_Path r @ ''?'' @ hr_RawQuery r else hr_Path r) = hr_Path r"
    using assms by simp
  let ?request = "html_escape (hr_Method r) @ '' '' @ html_escape (hr_Path r)"
  obtain ext where "AccessLog_String ts host port r = ''CEF:'' @ join_with ''|''
      [''0'', ''cloud_foundry'', ''loggregator_trafficcontroller'', ''1.0'', ?request, ?request, ''0'', ext]"
    unfolding AccessLog_String_def remote Let_def prod.case path by blast
  then have "AccessLog_String ts host port r =
      (''CEF:0|cloud_foundry|loggregator_trafficcontroller|1.0|'' @ html_escape (hr_Method r) @ '' '') @
      html_escape (hr_Path r) @ (''|'' @ ?request @ ''|0|'' @ ext)"
    by simp
  then show ?thesis by blast
qed

lemma access_log_forged:
  assumes "hr_RawQuery r = []" and "hr_Path r = before @ newline # line"
    and "\<forall>c \<in> set line. html_char c = [c]"
  shows "\<exists>a b. LogAccess ts host port r = a @ newline # line @ b"
proof -
  have "html_escape (hr_Path r) = html_escape before @ newline # line"
    using html_escape_plain[OF assms(3)] unfolding assms(2)
    by (simp add: html_escape_append html_escape_def html_char_def newline_def)
  moreover obtain a b where "AccessLog_String ts host port r = a @ html_escape (hr_Path r) @ b"
    using AccessLog_request[OF assms(1)] by blast
  ultimately have "LogAccess ts host port r = (a @ html_escape before) @ newline # line @ (b @ [newline])"
    by (simp add: LogAccess_def)
  then show ?thesis by blast
qed

text \<open>A forwarded IPv6 address without a port is logged as no address at all.\<close>

lemma forwarded_ipv6_lost:
  assumes "Header_Get (hr_Header r) ''X-Forwarded-For'' = ''2001:db8::1''"
  shows "extractRemoteInfo r = ([], [])"
  using assms by (simp add: extractRemoteInfo_def SplitHostPort_def last_index_def first_index_def Let_def)

lemma access_always_logged:
  "snd (AccessHandler_ServeHTTP True ts host port handler r w l) = l @ [LogAccess ts host port r]"
  "fst (AccessHandler_ServeHTTP write_ok ts host port handler r w l) = handler r w"
  by (simp_all add: AccessHandler_ServeHTTP_def)

section \<open>Counts of sessions\<close>

lemma emitMetrics_defined:
  assumes "mget g ''firehoseStreamCount'' \<noteq> None" and "mget g ''appStreamCount'' \<noteq> None"
  shows "\<exists>g'. emitMetrics counts g = Some g' \<and> mget g' ''firehoseStreamCount'' = Some (fst counts) \<and>
    mget g' ''appStreamCount'' = Some (snd counts)"
  using assms by (auto simp: emitMetrics_def Registrar_Set_def split: option.split)

end
