(* ===== verification/Websocket_Sessions.thy ===== *)
theory Websocket_Sessions
  imports Go_Prelude
begin

text \<open>
  A websocket session of the traffic controller (\<open>trafficcontroller/internal/proxy\<close>:
  \<open>websocket_server.go\<close>, \<open>websocket_handler.go\<close>) and the keep-alive loops of the traffic
  controller and of the doppler (\<open>keepalive.go\<close>, \<open>websocketserver/websocket_keepalive.go\<close>).

  A session is two goroutines around an unbuffered channel: the producer receives messages from
  the dopplers and offers each for five seconds, the handler writes them to the connection. They
  are one machine with two program counters, and an action that is not possible in a state changes
  nothing. What arrives from the dopplers and the outcome of writing belong to the actions.

  The keep-alive loops run on a clock: a round is given by how long writing the ping took and when
  a pong was there, and the timer of Go keeps one unread tick in its channel.
\<close>

section \<open>Sessions\<close>

datatype producer_pc = P_Recv | P_Offer bytes | P_Done

text \<open>\<open>H_Closed\<close> has the close code and message of the session.\<close>

datatype handler_pc = H_Select | H_Closed nat string

record ws_session =
  ws_received :: "bytes list"
  ws_producer :: producer_pc
  ws_dataClosed :: bool
  ws_clientWentAway :: bool
  ws_keepAliveExpired :: bool
  ws_handler_pc :: handler_pc
  ws_written :: "bytes list"
  ws_egress :: uint64
  ws_slowConsumer :: uint64

definition serveWS_start :: ws_session where
  "serveWS_start = \<lparr>ws_received = [], ws_producer = P_Recv, ws_dataClosed = False,
     ws_clientWentAway = False, ws_keepAliveExpired = False, ws_handler_pc = H_Select,
     ws_written = [], ws_egress = 0, ws_slowConsumer = 0\<rparr>"

text \<open>
  The producer's \<open>recv\<close> returns a message, nil or an error; its timer fires; the handler takes
  the offered message and writes it, with the outcome of the write; the reading goroutine and the
  keep-alive loop close their channels; the handler takes one of its other cases.
\<close>

datatype ws_action =
    WS_Recv bytes | WS_Recv_Nil | WS_Recv_Error | WS_Timeout | WS_Deliver bool
  | WS_Client_Gone | WS_KeepAlive_Over | WS_See_Gone | WS_See_Expired | WS_See_Closed

definition CloseNormalClosure :: nat where
  "CloseNormalClosure = 1000"

definition ClosePolicyViolation :: nat where
  "ClosePolicyViolation = 1008"

definition keepalive_message :: string where
  "keepalive_message = ''Client did not respond to ping before keep-alive timeout expired.''"

text \<open>The goroutine of \<open>serveWS\<close>.\<close>

definition producer_step :: "ws_action \<Rightarrow> ws_session \<Rightarrow> ws_session" where
  "producer_step a s =
     (case (a, ws_producer s) of
        (WS_Recv m, P_Recv) \<Rightarrow> s\<lparr>ws_received := ws_received s @ [m], ws_producer := P_Offer m\<rparr>
      | (WS_Recv_Error, P_Recv) \<Rightarrow> s\<lparr>ws_producer := P_Done, ws_dataClosed := True\<rparr>
      | (WS_Timeout, P_Offer m) \<Rightarrow>
          s\<lparr>ws_producer := P_Done, ws_dataClosed := True, ws_slowConsumer := ws_slowConsumer s + 1\<rparr>
      | _ \<Rightarrow> s)"

text \<open>The loop of \<open>runWebsocketUntilClosed\<close>.\<close>

definition runWebsocket_step :: "ws_action \<Rightarrow> ws_session \<Rightarrow> ws_session" where
  "runWebsocket_step a s =
     (case (a, ws_handler_pc s) of
        (WS_Deliver ok, H_Select) \<Rightarrow>
          (case ws_producer s of
             P_Offer m \<Rightarrow>
               (if ok then s\<lparr>ws_producer := P_Recv, ws_written := ws_written s @ [m], ws_egress := ws_egress s + 1\<rparr>
                else s\<lparr>ws_producer := P_Recv, ws_handler_pc := H_Closed CloseNormalClosure []\<rparr>)
           | _ \<Rightarrow> s)
      | (WS_See_Gone, H_Select) \<Rightarrow>
          (if ws_clientWentAway s then s\<lparr>ws_handler_pc := H_Closed CloseNormalClosure []\<rparr> else s)
      | (WS_See_Expired, H_Select) \<Rightarrow>
          (if ws_keepAliveExpired s then s\<lparr>ws_handler_pc := H_Closed ClosePolicyViolation keepalive_message\<rparr> else s)
      | (WS_See_Closed, H_Select) \<Rightarrow>
          (if ws_dataClosed s then s\<lparr>ws_handler_pc := H_Closed CloseNormalClosure []\<rparr> else s)
      | _ \<Rightarrow> s)"

fun ws_step :: "ws_action \<Rightarrow> ws_session \<Rightarrow> ws_session" where
  "ws_step (WS_Recv m) s = producer_step (WS_Recv m) s"
| "ws_step WS_Recv_Nil s = producer_step WS_Recv_Nil s"
| "ws_step WS_Recv_Error s = producer_step WS_Recv_Error s"
| "ws_step WS_Timeout s = producer_step WS_Timeout s"
| "ws_step WS_Client_Gone s = s\<lparr>ws_clientWentAway := True\<rparr>"
| "ws_step WS_KeepAlive_Over s = s\<lparr>ws_keepAliveExpired := True\<rparr>"
| "ws_step a s = runWebsocket_step a s"

section \<open>Keep-alive\<close>

text \<open>
  One round: how long writing the ping took, whether it worked, when after it a pong was in the
  channel (not after 0 for one that was already there), and which case Go picks when both are
  ready.
\<close>

record ka_round =
  kr_write :: int
  kr_ok :: bool
  kr_pong :: "int option"
  kr_pick_pong :: bool

datatype ka_state = KA_Alive | KA_WriteFailed | KA_Expired

text \<open>
  \<open>Run\<close>. \<open>drains\<close> is the difference of the two loops: the doppler stops the timer and reads its
  tick before it resets it, the traffic controller resets it as it is. \<open>left\<close> is the time
  until the timer fires; not positive, and there is a tick in its channel.
\<close>

fun KeepAlive_Run :: "bool \<Rightarrow> int \<Rightarrow> int \<Rightarrow> ka_round list \<Rightarrow> ka_state" where
  "KeepAlive_Run drains interval left [] = KA_Alive"
| "KeepAlive_Run drains interval left (r # rs) =
     (if \<not> kr_ok r then KA_WriteFailed
      else let stale = (\<not> drains \<and> left - kr_write r \<le> 0);
               timeout = (if stale then 0 else interval)
           in case kr_pong r of
                None \<Rightarrow> KA_Expired
              | Some p \<Rightarrow>
                  (let pong = max 0 p
                   in if pong < timeout \<or> pong = timeout \<and> kr_pick_pong r
                      then KeepAlive_Run drains interval (if stale then 0 else interval - pong - interval div 2) rs
                      else KA_Expired))"

text \<open>\<open>pongHandler\<close>: the channel holds one pong, and what does not fit is dropped.\<close>

definition pongHandler :: "nat \<Rightarrow> nat" where
  "pongHandler pongChan = (if pongChan < 1 then pongChan + 1 else pongChan)"

section \<open>Definitions for the properties\<close>

text \<open>What has been received and neither written nor given up.\<close>

definition offered :: "ws_session \<Rightarrow> bytes list" where
  "offered s = (case ws_producer s of P_Offer m \<Rightarrow> [m] | _ \<Rightarrow> [])"

definition ws_inv :: "ws_session \<Rightarrow> bool" where
  "ws_inv s \<longleftrightarrow>
     (\<exists>lost. ws_received s = ws_written s @ lost \<and> length lost \<le> 2 \<and>
        (ws_handler_pc s = H_Select \<longrightarrow> length lost \<le> 1) \<and>
        (ws_producer s = P_Recv \<longrightarrow> length lost \<le> 1) \<and>
        (ws_handler_pc s = H_Select \<and> ws_slowConsumer s = 0 \<longrightarrow> lost = offered s)) \<and>
     ws_egress s = of_nat (length (ws_written s)) \<and>
     (ws_dataClosed s \<longleftrightarrow> ws_producer s = P_Done) \<and>
     (ws_slowConsumer s = 0 \<or> ws_slowConsumer s = 1 \<and> ws_producer s = P_Done) \<and>
     (\<forall>m. ws_handler_pc s = H_Closed ClosePolicyViolation m \<longrightarrow> ws_keepAliveExpired s)"

text \<open>Rounds of a client that answers every ping, each within a time.\<close>

definition answers_within :: "int \<Rightarrow> ka_round list \<Rightarrow> bool" where
  "answers_within d rs \<longleftrightarrow>
     list_all (\<lambda>r. kr_ok r \<and> 0 \<le> kr_write r \<and> (case kr_pong r of Some p \<Rightarrow> p < d | None \<Rightarrow> False)) rs"

definition writes_within :: "int \<Rightarrow> ka_round list \<Rightarrow> bool" where
  "writes_within d rs \<longleftrightarrow> list_all (\<lambda>r. kr_write r \<le> d) rs"

section \<open>Sessions deliver in order\<close>

lemma ws_inv_start: "ws_inv serveWS_start"
  by (simp add: ws_inv_def serveWS_start_def offered_def)

lemma ws_inv_producer:
  assumes "ws_inv s" and "a = WS_Recv_Nil \<or> a = WS_Recv_Error \<or> a = WS_Timeout \<or> (\<exists>m. a = WS_Recv m)"
  shows "ws_inv (producer_step a s)"
proof -
  from assms(1) obtain lost where inv: "ws_received s = ws_written s @ lost" "length lost \<le> 2"
    "ws_handler_pc s = H_Select \<Longrightarrow> length lost \<le> 1" "ws_producer s = P_Recv \<Longrightarrow> length lost \<le> 1"
    "ws_handler_pc s = H_Select \<Longrightarrow> ws_slowConsumer s = 0 \<Longrightarrow> lost = offered s"
    by (auto simp: ws_inv_def)
  show ?thesis
  proof (cases "ws_producer s")
    case P_Recv
    have "length (lost @ [m]) \<le> 2" for m using inv(4)[OF P_Recv] by simp
    moreover have "ws_handler_pc s = H_Select \<Longrightarrow> lost = []"
      using inv(5) assms(1) P_Recv by (auto simp: ws_inv_def offered_def)
    ultimately show ?thesis
      using assms P_Recv inv by (auto simp: ws_inv_def producer_step_def offered_def)
  next
    case (P_Offer m)
    then show ?thesis using assms inv by (auto simp: ws_inv_def producer_step_def offered_def)
  next
    case P_Done
    then show ?thesis using assms by (auto simp: producer_step_def)
  qed
qed

lemma ws_inv_deliver:
  assumes "ws_inv s"
  shows "ws_inv (runWebsocket_step (WS_Deliver ok) s)"
proof (cases "ws_handler_pc s = H_Select \<and> (\<exists>m. ws_producer s = P_Offer m)")
  case True
  then obtain m where h: "ws_handler_pc s = H_Select" and p: "ws_producer s = P_Offer m" by blast
  from assms p have "ws_slowConsumer s = 0" by (auto simp: ws_inv_def)
  with assms h p have "ws_received s = ws_written s @ [m]" by (auto simp: ws_inv_def offered_def)
  with assms h p \<open>ws_slowConsumer s = 0\<close> show ?thesis
    by (auto simp: ws_inv_def runWebsocket_step_def offered_def CloseNormalClosure_def ClosePolicyViolation_def)
next
  case False
  then have "runWebsocket_step (WS_Deliver ok) s = s"
    by (auto simp: runWebsocket_step_def split: handler_pc.split producer_pc.split)
  with assms show ?thesis by simp
qed

lemma ws_inv_signal:
  assumes "ws_inv s" and "a \<in> {WS_See_Gone, WS_See_Expired, WS_See_Closed}"
  shows "ws_inv (runWebsocket_step a s)"
proof (cases "runWebsocket_step a s = s")
  case False
  then obtain c m where s': "runWebsocket_step a s = s\<lparr>ws_handler_pc := H_Closed c m\<rparr>"
    and "c = ClosePolicyViolation \<Longrightarrow> ws_keepAliveExpired s"
    using assms(2) by (auto simp: runWebsocket_step_def CloseNormalClosure_def ClosePolicyViolation_def
        split: handler_pc.splits if_splits)
  with assms(1) show ?thesis unfolding s' by (auto simp: ws_inv_def)
qed (use assms(1) in simp)

lemma ws_inv_step: "ws_inv s \<Longrightarrow> ws_inv (ws_step a s)"
proof (cases a)
  case WS_Client_Gone
  assume "ws_inv s"
  with WS_Client_Gone show ?thesis by (simp add: ws_inv_def offered_def)
next
  case WS_KeepAlive_Over
  assume "ws_inv s"
  with WS_KeepAlive_Over show ?thesis by (simp add: ws_inv_def offered_def)
qed (simp_all add: ws_inv_producer ws_inv_deliver ws_inv_signal)

lemma ws_inv_run: "ws_inv s \<Longrightarrow> ws_inv (fold ws_step as s)"
  by (induction as arbitrary: s) (simp_all add: ws_inv_step)

text \<open>
  C21: A websocket session writes the messages of the dopplers in order and without gaps. Whatever
  the two goroutines, the client and the keep-alive loop do, the messages written are a prefix of
  those received and the egress counter is their number; while the session is up and the client
  keeps pace, nothing received is missing but the message on offer, and at most two are lost when
  it ends. A session counts at most one slow consumer, and reports a policy violation only after
  the keep-alive loop has ended.
\<close>

theorem websocket_session_in_order:
  fixes as :: "ws_action list"
  defines "s \<equiv> fold ws_step as serveWS_start"
  shows "\<exists>lost. ws_received s = ws_written s @ lost \<and> length lost \<le> 2 \<and>
      (ws_handler_pc s = H_Select \<and> ws_slowConsumer s = 0 \<longrightarrow> lost = offered s) \<and>
      ws_egress s = of_nat (length (ws_written s)) \<and> ws_slowConsumer s \<le> 1 \<and>
      (\<forall>m. ws_handler_pc s = H_Closed ClosePolicyViolation m \<longrightarrow> ws_keepAliveExpired s)"
proof -
  have "ws_inv s" unfolding s_def by (rule ws_inv_run[OF ws_inv_start])
  then show ?thesis by (auto simp: ws_inv_def)
qed

theorem websocket_session_in_order_witness:
  "let s = fold ws_step [WS_Recv ''a'', WS_Deliver True, WS_Recv_Nil, WS_Recv ''b'', WS_Deliver True, WS_Recv ''c''] serveWS_start
   in ws_received s = [''a'', ''b'', ''c''] \<and> ws_received s = ws_written s @ [''c''] \<and> ws_egress s = 2"
proof -
  define as where "as = [WS_Recv ''a'', WS_Deliver True, WS_Recv_Nil, WS_Recv ''b'', WS_Deliver True, WS_Recv ''c'']"
  define s where "s = fold ws_step as serveWS_start"
  have up: "ws_handler_pc s = H_Select" "ws_slowConsumer s = 0" "offered s = [''c'']"
    "ws_received s = [''a'', ''b'', ''c'']" "length (ws_written s) = 2"
    by (simp_all add: s_def as_def serveWS_start_def producer_step_def runWebsocket_step_def offered_def)
  from websocket_session_in_order[of as] up show ?thesis
    unfolding Let_def as_def[symmetric] s_def[symmetric] by auto
qed

text \<open>
  When the handler has returned, the producer ends too: it has nobody to offer to, so a message on
  offer times out, and the cancelled subscription makes \<open>recv\<close> fail.
\<close>

lemma producer_ends:
  "ws_producer (fold ws_step [WS_Timeout, WS_Recv_Error] s) = P_Done"
  by (cases "ws_producer s") (simp_all add: producer_step_def)

text \<open>A client that left while a message was on offer is counted as a slow consumer.\<close>

lemma departed_client_counted_slow:
  assumes "ws_producer s = P_Offer m" and "ws_handler_pc s = H_Select" and "ws_slowConsumer s = 0"
  shows "ws_slowConsumer (fold ws_step [WS_Client_Gone, WS_See_Gone, WS_Timeout] s) = 1"
    and "a \<noteq> WS_Timeout \<Longrightarrow>
      ws_producer (ws_step a (fold ws_step [WS_Client_Gone, WS_See_Gone] s)) = P_Offer m"
  using assms by (simp_all add: producer_step_def runWebsocket_step_def)
    (cases a; simp add: producer_step_def runWebsocket_step_def)

section \<open>Keep-alive\<close>

lemma KeepAlive_drains:
  assumes "0 < interval" and "answers_within interval rs"
  shows "KeepAlive_Run True interval left rs = KA_Alive"
  using assms(2)
proof (induction rs arbitrary: left)
  case (Cons r rs)
  then obtain p where "kr_ok r" "kr_pong r = Some p" "p < interval" "answers_within interval rs"
    by (auto simp: answers_within_def split: option.splits)
  with Cons.IH assms(1) show ?case by (auto simp: Let_def)
qed simp

lemma KeepAlive_quick:
  assumes "0 < d" and "d + interval div 2 + w \<le> interval" and "0 < interval" and "w < left"
    and "answers_within d rs" and "writes_within w rs"
  shows "KeepAlive_Run False interval left rs = KA_Alive"
  using assms(4-6)
proof (induction rs arbitrary: left)
  case (Cons r rs)
  from Cons.prems(2,3) obtain p where r: "kr_ok r" "kr_pong r = Some p" "p < d" "kr_write r \<le> w" "0 \<le> kr_write r"
    and rest: "answers_within d rs" "writes_within w rs"
    by (auto simp: answers_within_def writes_within_def split: option.splits)
  have fresh: "\<not> left - kr_write r \<le> 0" using r(4) Cons.prems(1) by simp
  have "max 0 p < interval" and "w < interval - max 0 p - interval div 2"
    using assms(1-3) r(3-5) by (auto simp: max_def)
  with Cons.IH[OF _ rest] r(1,2) fresh show ?case by (simp add: Let_def)
qed simp

text \<open>A tick that was not read ends the loop at the next ping.\<close>

lemma KeepAlive_stale:
  assumes "kr_ok r" and "kr_pong r = Some p" and "0 < p" and "left \<le> kr_write r"
  shows "KeepAlive_Run False interval left (r # rs) = KA_Expired"
  using assms by (simp add: Let_def)



end
