(* ===== verification/Websocket_Server.thy ===== *)
theory Websocket_Server
  imports Doppler_Server Metron_Counters Websocket_Sessions Go_Net
begin

text \<open>
  The websocket server of the doppler
  (\<open>doppler/internal/sinkserver/websocketserver/websocket_server.go\<close>) and the loop of its sinks
  (\<open>doppler/internal/sinks/websocket/websocket_sink.go\<close>): dispatch of a request, the sessions that
  stream, the answers of the two queries, and what is counted.

  A session that streams registers a sink, waits in the keep-alive loop and unregisters the sink.
  While it waits the other goroutines act on the sink manager; their actions, the envelopes that
  the buffer of the sink puts out, and the outcome of every write to the connection are fields of
  the environment. The keep-alive loop itself is in \<open>Websocket_Sessions\<close>.
\<close>

section \<open>Counters\<close>

definition envelopeCounter_Increment :: "string \<Rightarrow> event_type \<Rightarrow> metric_call list" where
  "envelopeCounter_Increment endpoint typ =
     [Chainer_Increment (SetTag ''endpoint'' endpoint (SetTag ''event_type'' (event_type_string typ)
        (SetTag ''protocol'' ''ws'' (BatchCounter ''sentEnvelopes''))))]"

definition newStreamCounter :: "event_type \<Rightarrow> metric_call list" where
  "newStreamCounter = envelopeCounter_Increment ''stream''"

definition firehoseCounter_Increment :: "string \<Rightarrow> event_type \<Rightarrow> metric_call list" where
  "firehoseCounter_Increment subscriptionID typ =
     Chainer_Increment (SetTag ''subscription_id'' subscriptionID (BatchCounter ''sentMessagesFirehose''))
       # envelopeCounter_Increment ''firehose'' typ"

section \<open>Writing to a connection\<close>

text \<open>
  Marshalling may fail. The number \<open>k\<close> write on a connection succeeds if \<open>ok k\<close>; a failed write
  ends the loop of a sink, and the answer to a query goes on with the next envelope.
\<close>

definition websocket_sink_for :: "string \<Rightarrow> string \<Rightarrow> sink" where
  "websocket_sink_for appId remoteAddr =
     \<lparr>sk_AppID = appId, sk_Identifier = remoteAddr, sk_ShouldReceiveErrors = True, sk_kind = WebsocketSink\<rparr>"

fun websocket_loop ::
    "events_pkg \<Rightarrow> (v1_envelope \<Rightarrow> string option) \<Rightarrow> (event_type \<Rightarrow> metric_call list) \<Rightarrow> (nat \<Rightarrow> bool) \<Rightarrow>
     v1_envelope list \<Rightarrow> string list \<times> metric_call list" where
  "websocket_loop pkg marshal counter ok [] = ([], [])"
| "websocket_loop pkg marshal counter ok (e # es) =
     (case marshal e of
        None \<Rightarrow> websocket_loop pkg marshal counter ok es
      | Some bts \<Rightarrow>
          if \<not> ok 0 then ([], [])
          else let (out, calls) = websocket_loop pkg marshal counter (ok \<circ> Suc) es
               in (bts # out, counter (GetEventType pkg e) @ calls))"

fun sendMessagesToWebsocket ::
    "events_pkg \<Rightarrow> (v1_envelope \<Rightarrow> string option) \<Rightarrow> string \<Rightarrow> (nat \<Rightarrow> bool) \<Rightarrow>
     v1_envelope list \<Rightarrow> string list \<times> metric_call list" where
  "sendMessagesToWebsocket pkg marshal endpoint ok [] = ([], [])"
| "sendMessagesToWebsocket pkg marshal endpoint ok (e # es) =
     (case marshal e of
        None \<Rightarrow> sendMessagesToWebsocket pkg marshal endpoint ok es
      | Some bts \<Rightarrow>
          let (out, calls) = sendMessagesToWebsocket pkg marshal endpoint (ok \<circ> Suc) es
          in if \<not> ok 0 then (out, calls)
             else (bts # out, envelopeCounter_Increment endpoint (GetEventType pkg e) @ calls))"

section \<open>Handlers\<close>

datatype ws_handler = StreamFirehose string | StreamLogs string | RecentLogsHandler string | ContainerMetricsHandler string

record ws_env =
  we_pkg :: events_pkg
  we_marshal :: "v1_envelope \<Rightarrow> string option"
  we_cfg :: sm_config
  we_remoteAddr :: string
  we_others :: "sm_action list"
  we_buffered :: "v1_envelope list"
  we_write_ok :: "nat \<Rightarrow> bool"
  we_dump :: "sink \<Rightarrow> dump_sink"
  we_container :: "sink \<Rightarrow> container_sink"
  we_now :: int

record ws_world =
  ww_manager :: sink_manager
  ww_sent :: "string list"
  ww_calls :: "metric_call list"

definition put_sent :: "string list \<times> metric_call list \<Rightarrow> ws_world \<Rightarrow> ws_world" where
  "put_sent out w = w\<lparr>ww_sent := ww_sent w @ fst out, ww_calls := ww_calls w @ snd out\<rparr>"

text \<open>
  The result of registering is not looked at; a sink that was not registered is not run.
\<close>

definition streamWebsocket ::
    "ws_env \<Rightarrow> (sink \<Rightarrow> sink_manager \<Rightarrow> bool \<times> sink_manager) \<Rightarrow> (sink \<Rightarrow> sink_manager \<Rightarrow> sink_manager option) \<Rightarrow>
     (event_type \<Rightarrow> metric_call list) \<Rightarrow> sink \<Rightarrow> ws_world \<Rightarrow> ws_world option" where
  "streamWebsocket env register unregister counter s w =
     (let (ok, sm1) = register s (ww_manager w);
          out = (if ok then websocket_loop (we_pkg env) (we_marshal env) counter (we_write_ok env) (we_buffered env)
                 else ([], []))
      in map_option (\<lambda>sm2. put_sent out (w\<lparr>ww_manager := sm2\<rparr>))
           (Option.bind (foldM (sm_step (we_cfg env)) (we_others env) sm1) (unregister s)))"

definition streamLogs :: "ws_env \<Rightarrow> string \<Rightarrow> ws_world \<Rightarrow> ws_world option" where
  "streamLogs env appId =
     streamWebsocket env RegisterSink UnregisterSink newStreamCounter (websocket_sink_for appId (we_remoteAddr env))"

definition streamFirehose :: "ws_env \<Rightarrow> string \<Rightarrow> ws_world \<Rightarrow> ws_world option" where
  "streamFirehose env subscriptionId =
     streamWebsocket env SM_RegisterFirehoseSink UnregisterFirehoseSink (firehoseCounter_Increment subscriptionId)
       (websocket_sink_for subscriptionId (we_remoteAddr env))"

definition recentLogs :: "ws_env \<Rightarrow> string \<Rightarrow> ws_world \<Rightarrow> ws_world" where
  "recentLogs env appId w =
     put_sent (sendMessagesToWebsocket (we_pkg env) (we_marshal env) ''recentlogs'' (we_write_ok env)
       (RecentLogsFor (we_dump env) appId (ww_manager w))) w"

definition latestContainerMetrics :: "ws_env \<Rightarrow> string \<Rightarrow> ws_world \<Rightarrow> ws_world" where
  "latestContainerMetrics env appId w =
     put_sent (sendMessagesToWebsocket (we_pkg env) (we_marshal env) ''containermetrics'' (we_write_ok env)
       (LatestContainerMetrics (we_container env) (we_now env) appId (ww_manager w))) w"

fun run_handler :: "ws_env \<Rightarrow> ws_handler \<Rightarrow> ws_world \<Rightarrow> ws_world option" where
  "run_handler env (StreamFirehose s) w = streamFirehose env s w"
| "run_handler env (StreamLogs a) w = streamLogs env a w"
| "run_handler env (RecentLogsHandler a) w = Some (recentLogs env a w)"
| "run_handler env (ContainerMetricsHandler a) w = Some (latestContainerMetrics env a w)"

section \<open>Dispatch\<close>

text \<open>\<open>http.Error\<close> of the standard library.\<close>

definition http_Error :: "string \<Rightarrow> int \<Rightarrow> response \<Rightarrow> response" where
  "http_Error msg code w =
     write_body (msg @ [newline]) (WriteHeader code (set_header ''X-Content-Type-Options'' ''nosniff''
       (set_header ''Content-Type'' ''text/plain; charset=utf-8'' w)))"

definition firehoseHandler :: "string \<Rightarrow> string list \<Rightarrow> response \<Rightarrow> response + ws_handler" where
  "firehoseHandler path paths w =
     (if length paths \<noteq> 3 then Inl (http_Error (''missing subscription id in firehose request: '' @ path) 400 w)
      else Inr (StreamFirehose (paths ! 2)))"

definition appHandler :: "string list \<Rightarrow> response \<Rightarrow> response + ws_handler" where
  "appHandler paths w =
     (if length paths \<noteq> 4 \<or> paths ! 1 \<noteq> ''apps''
      then Inl (write_body ''Resource Not Found.'' (WriteHeader 404 (set_header ''WWW-Authenticate'' ''Basic'' w)))
      else let appId = paths ! 2
           in if appId = []
              then Inl (write_body (''App ID missing. Make request to /apps/APP_ID/'' @ paths ! 3)
                     (WriteHeader 400 (set_header ''WWW-Authenticate'' ''Basic'' w)))
              else if paths ! 3 = ''stream'' then Inr (StreamLogs appId)
              else if paths ! 3 = ''recentlogs'' then Inr (RecentLogsHandler appId)
              else if paths ! 3 = ''containermetrics'' then Inr (ContainerMetricsHandler appId)
              else Inl (http_Error ''Invalid path'' 400 w))"

text \<open>\<open>None\<close> is the panic of \<open>paths[1]\<close> on a path without a slash.\<close>

definition dispatch :: "string \<Rightarrow> response \<Rightarrow> (response + ws_handler) option" where
  "dispatch path w =
     (let paths = split_on (CHR ''/'') path
      in if length paths < 2 then None
         else Some (if paths ! 1 = ''firehose'' then firehoseHandler path paths w else appHandler paths w))"

text \<open>
  A request is answered, or becomes a session that the server closes with a code when its handler
  returns. \<open>upgrade\<close> is the error of the upgrade, if it fails.
\<close>

datatype ws_answer = Answered response | Session_Closed nat

definition ServeHTTP :: "ws_env \<Rightarrow> string option \<Rightarrow> string \<Rightarrow> response \<Rightarrow> ws_world \<Rightarrow> (ws_answer \<times> ws_world) option" where
  "ServeHTTP env upgrade path rw w =
     (case dispatch path rw of
        None \<Rightarrow> None
      | Some (Inl refusal) \<Rightarrow> Some (Answered refusal, w)
      | Some (Inr handler) \<Rightarrow>
          (case upgrade of
             Some err \<Rightarrow> Some (Answered (http_Error err 400 rw), w)
           | None \<Rightarrow> map_option (Pair (Session_Closed CloseNormalClosure)) (run_handler env handler w)))"

section \<open>Definitions for the properties\<close>

definition marshalled :: "(v1_envelope \<Rightarrow> string option) \<Rightarrow> v1_envelope list \<Rightarrow> v1_envelope list" where
  "marshalled marshal = filter (\<lambda>e. marshal e \<noteq> None)"

text \<open>A doppler with one application, for the examples.\<close>

definition demo_ws_env :: ws_env where
  "demo_ws_env = \<lparr>we_pkg = small_pkg, we_marshal = (\<lambda>_. Some ''m''), we_cfg = demo_cfg, we_remoteAddr = ''r'',
     we_others = [], we_buffered = [small_metric], we_write_ok = (\<lambda>_. True), we_dump = (\<lambda>_. NewDumpSink ''a'' 1),
     we_container = (\<lambda>_. NewContainerMetricSink ''a'' 0), we_now = 0\<rparr>"

section \<open>Dispatch never panics behind a slash\<close>

text \<open>A request target without a slash, as in \<open>OPTIONS *\<close>, ends the handler with a panic.\<close>

lemma ServeHTTP_panics: "ServeHTTP env upgrade ''*'' rw w = None"
  by (simp add: ServeHTTP_def dispatch_def)

lemma split_on_slash_length: "CHR ''/'' \<in> set p \<Longrightarrow> 2 \<le> length (split_on (CHR ''/'') p)"
proof (induction p)
  case (Cons x p)
  then show ?case
    using split_on_ne[of "CHR ''/''" p] by (cases "split_on (CHR ''/'') p") (auto simp: Suc_le_eq)
qed simp

lemma dispatch_slash: "CHR ''/'' \<in> set p \<Longrightarrow> dispatch p rw \<noteq> None"
  using split_on_slash_length[of p] by (simp add: dispatch_def Let_def)

lemma dispatch_app:
  assumes "app \<noteq> []" and "CHR ''/'' \<notin> set app" and "CHR ''/'' \<notin> set endpoint"
  shows "dispatch (''/apps/'' @ app @ CHR ''/'' # endpoint) rw = Some (appHandler [[], ''apps'', app, endpoint] rw)"
  using assms by (simp add: dispatch_def split_on_append_sep split_on_no_sep)

section \<open>What a connection gets and what is counted\<close>

lemma marshalled_Cons [simp]:
  "marshalled marshal (e # es) = (if marshal e = None then marshalled marshal es else e # marshalled marshal es)"
  by (simp add: marshalled_def)

text \<open>A sink writes its envelopes in order up to the first write that fails, and counts those it has written.\<close>

lemma websocket_loop_prefix:
  "\<exists>k \<le> length (marshalled marshal es).
     (\<forall>i < k. ok i) \<and> (k < length (marshalled marshal es) \<longrightarrow> \<not> ok k) \<and>
     websocket_loop pkg marshal counter ok es =
       (map (the \<circ> marshal) (take k (marshalled marshal es)),
        concat (map (counter \<circ> GetEventType pkg) (take k (marshalled marshal es))))"
proof (induction es arbitrary: ok)
  case Nil
  then show ?case by (simp add: marshalled_def)
next
  case (Cons e es)
  show ?case
  proof (cases "marshal e = None \<or> \<not> ok 0")
    case True
    then show ?thesis using Cons[of ok] by (cases "marshal e") (auto intro!: exI[of _ 0])
  next
    case False
    obtain k where "k \<le> length (marshalled marshal es)" "\<forall>i < k. ok (Suc i)"
      "k < length (marshalled marshal es) \<longrightarrow> \<not> ok (Suc k)"
      "websocket_loop pkg marshal counter (ok \<circ> Suc) es =
       (map (the \<circ> marshal) (take k (marshalled marshal es)),
        concat (map (counter \<circ> GetEventType pkg) (take k (marshalled marshal es))))"
      using Cons[of "ok \<circ> Suc"] unfolding comp_apply by blast
    with False show ?thesis by (intro exI[of _ "Suc k"]) (auto simp: less_Suc_eq_0_disj comp_def)
  qed
qed

text \<open>With a connection that holds, a query over the websocket sends what the gRPC query returns.\<close>

lemma sendMessages_as_query:
  "sendMessagesToWebsocket pkg marshal endpoint (\<lambda>_. True) es =
     (marshalEnvelopes marshal es,
      concat (map (envelopeCounter_Increment endpoint \<circ> GetEventType pkg) (marshalled marshal es)))"
  by (induction es) (auto simp: marshalled_def comp_def split: option.splits)

lemma recentLogs_as_query:
  assumes "we_write_ok env = (\<lambda>_. True)"
  shows "ww_sent (recentLogs env appId w) = ww_sent w @ RecentLogs (we_marshal env) (we_dump env) appId (ww_manager w)"
    and "ww_sent (latestContainerMetrics env appId w) =
      ww_sent w @ ContainerMetrics (we_marshal env) (we_container env) (we_now env) appId (ww_manager w)"
  by (simp_all add: recentLogs_def latestContainerMetrics_def put_sent_def assms sendMessages_as_query
      RecentLogs_def ContainerMetrics_def)

section \<open>Sessions\<close>

lemma sm_run_from:
  assumes "sm_ok kinds sm" and "\<forall>a \<in> set acts. names_agree cfg kinds a" and "foldM (sm_step cfg) acts sm = Some sm'"
  shows "sm_ok kinds sm'"
  using assms by (induction acts arbitrary: sm) (auto simp: bind_eq_Some_conv dest: sm_step_ok(2))

text \<open>
  C12: a request to stream the logs of an application becomes a session that the server closes
  normally. Whatever the rest of the doppler does meanwhile, the sink of the session is registered
  no longer when it ends, the counters of the sinks are right, and if no other sink has its name the
  client has received the marshalled envelopes of its buffer in order, up to the first write that
  fails, each counted once.
\<close>

theorem websocket_stream_unregisters:
  fixes env w app
  defines "s \<equiv> websocket_sink_for app (we_remoteAddr env)"
    and "es \<equiv> marshalled (we_marshal env) (we_buffered env)"
  assumes run: "foldM (sm_step (we_cfg env)) acts NewSinkManager = Some (ww_manager w)"
    and names: "\<forall>a \<in> set (acts @ we_others env). names_agree (we_cfg env) kinds a"
    and kind: "kinds app (we_remoteAddr env) = WebsocketSink"
    and path: "app \<noteq> []" "CHR ''/'' \<notin> set app"
    and others: "foldM (sm_step (we_cfg env)) (we_others env) (snd (RegisterSink s (ww_manager w))) \<noteq> None"
  shows "\<exists>w' k. ServeHTTP env None (''/apps/'' @ app @ ''/stream'') rw w = Some (Session_Closed CloseNormalClosure, w') \<and>
    slot (gs_apps (sm_sinks (ww_manager w'))) app (we_remoteAddr env) = None \<and>
    (\<not> sm_stopped (ww_manager w') \<longrightarrow> counters_match (ww_manager w')) \<and>
    ww_sent w' = ww_sent w @ map (the \<circ> we_marshal env) (take k es) \<and>
    ww_calls w' = ww_calls w @ concat (map (newStreamCounter \<circ> GetEventType (we_pkg env)) (take k es)) \<and>
    (we_remoteAddr env \<noteq> [] \<and> slot (gs_apps (sm_sinks (ww_manager w))) app (we_remoteAddr env) = None \<longrightarrow>
      (\<forall>i < k. we_write_ok env i) \<and> (k < length es \<longrightarrow> \<not> we_write_ok env k))"
proof -
  have ok: "sm_ok kinds (ww_manager w)" using run names by (intro sm_run_ok) auto
  obtain b sm1 where reg: "RegisterSink s (ww_manager w) = (b, sm1)" by (cases "RegisterSink s (ww_manager w)")
  have s: "sk_AppID s = app" "sk_Identifier s = we_remoteAddr env" "sk_kind s = WebsocketSink"
    by (simp_all add: s_def websocket_sink_for_def)
  note r = RegisterSink_ok[OF ok _ reg, unfolded s, OF kind]
  obtain sm2 where sm2: "foldM (sm_step (we_cfg env)) (we_others env) sm1 = Some sm2" using others reg by auto
  have ok2: "sm_ok kinds sm2" using sm_run_from[OF r(1) _ sm2] names by simp
  obtain sm3 where sm3: "UnregisterSink s sm2 = Some sm3" "sm_ok kinds sm3"
      "slot (gs_apps (sm_sinks sm3)) app (we_remoteAddr env) = None"
    using UnregisterSink_ok[OF ok2, of s] kind by (auto simp: s)
  let ?out = "if b then websocket_loop (we_pkg env) (we_marshal env) newStreamCounter (we_write_ok env) (we_buffered env)
    else ([], [])"
  let ?w = "put_sent ?out (w\<lparr>ww_manager := sm3\<rparr>)"
  have served: "ServeHTTP env None (''/apps/'' @ app @ ''/stream'') rw w = Some (Session_Closed CloseNormalClosure, ?w)"
    using dispatch_app[OF path, of "''stream''" rw] path
    by (simp add: ServeHTTP_def appHandler_def streamLogs_def streamWebsocket_def s_def[symmetric] reg sm2 sm3)
  obtain k where "(b \<longrightarrow> (\<forall>i < k. we_write_ok env i) \<and> (k < length es \<longrightarrow> \<not> we_write_ok env k))"
      "?out = (map (the \<circ> we_marshal env) (take k es),
        concat (map (newStreamCounter \<circ> GetEventType (we_pkg env)) (take k es)))"
    using websocket_loop_prefix[of "we_marshal env" "we_buffered env" "we_write_ok env" "we_pkg env" newStreamCounter]
    by (cases b) (auto simp: es_def intro: that[of 0])
  with served sm3 r(2) path show ?thesis
    by (intro exI[of _ ?w] exI[of _ k]) (auto simp: put_sent_def sm_ok_def)
qed

theorem websocket_stream_unregisters_witness:
  "\<exists>w'. ServeHTTP demo_ws_env None (''/apps/'' @ ''a'' @ ''/stream'') new_response
      \<lparr>ww_manager = NewSinkManager, ww_sent = [], ww_calls = []\<rparr> = Some (Session_Closed CloseNormalClosure, w') \<and>
    slot (gs_apps (sm_sinks (ww_manager w'))) ''a'' ''r'' = None \<and> ww_sent w' = [''m'']"
proof -
  define w where "w = \<lparr>ww_manager = NewSinkManager, ww_sent = [], ww_calls = []\<rparr>"
  have env: "we_remoteAddr demo_ws_env = ''r''" "we_others demo_ws_env = []" "we_write_ok demo_ws_env = (\<lambda>_. True)"
      "we_marshal demo_ws_env = (\<lambda>_. Some ''m'')"
      "marshalled (\<lambda>_. Some ''m'') (we_buffered demo_ws_env) = [small_metric]"
    by (simp_all add: demo_ws_env_def marshalled_def)
  have free: "slot (gs_apps (sm_sinks (ww_manager w))) ''a'' ''r'' = None"
    by (simp add: w_def NewSinkManager_def NewGroupedSinks_def slot_def)
  have "\<exists>w' k. ServeHTTP demo_ws_env None (''/apps/'' @ ''a'' @ ''/stream'') new_response w =
        Some (Session_Closed CloseNormalClosure, w') \<and>
      slot (gs_apps (sm_sinks (ww_manager w'))) ''a'' ''r'' = None \<and>
      ww_sent w' = map (the \<circ> (\<lambda>_. Some ''m'')) (take k [small_metric]) \<and> 0 < k"
    using websocket_stream_unregisters[of demo_ws_env "[]" w "\<lambda>_ _. WebsocketSink" "''a''" new_response] free
    unfolding env by (simp add: w_def) blast
  then show ?thesis by (auto simp: w_def)
qed

text \<open>
  The path \<open>/firehose/\<close> names the empty subscription. No sink can be registered for it, but the
  session is kept: the client gets nothing and no error.
\<close>

lemma empty_subscription_silent:
  assumes "foldM (sm_step (we_cfg env)) (we_others env) (snd (SM_RegisterFirehoseSink (websocket_sink_for [] (we_remoteAddr env)) (ww_manager w))) = Some sm2"
    and "UnregisterFirehoseSink (websocket_sink_for [] (we_remoteAddr env)) sm2 = Some sm3"
  shows "ServeHTTP env None ''/firehose/'' rw w = Some (Session_Closed CloseNormalClosure, w\<lparr>ww_manager := sm3\<rparr>)"
  using assms
  by (auto simp: ServeHTTP_def dispatch_def firehoseHandler_def streamFirehose_def streamWebsocket_def put_sent_def
      SM_RegisterFirehoseSink_def RegisterFirehoseSink_def websocket_sink_for_def Let_def case_prod_unfold split: if_splits)

end
