(* ===== verification/Reverse_Log_Proxy.thy ===== *)
theory Reverse_Log_Proxy
  imports Doppler_Server Grpc_Connector Health_Gauges "HOL-Library.Sublist"
begin

text \<open>
  The reverse log proxy (\<open>rlp\<close>): it turns a v2 request into a subscription at the dopplers, converts
  what they send to v2 and hands it to the consumer (\<open>rlp/internal/ingress\<close>,
  \<open>rlp/internal/egress\<close>), and answers queries for container metrics. \<open>rlp/app/rlp.go\<close> wires it up;
  of it the options and \<open>Stop\<close> are modelled.

  A stream is two goroutines around a buffer of 10000 envelopes: one receives and drops what does
  not fit, the other sends. The subscription and the stream of the consumer belong to gRPC; their
  outcomes are part of the actions. The protobuf decoder is an argument.
\<close>

section \<open>Requests\<close>

datatype egress_message = Egress_Filter_Log

record egress_filter =
  ef_SourceId :: string
  ef_Message :: "egress_message option"

record egress_request =
  eg_ShardId :: string
  eg_Filter :: "egress_filter option"
  eg_UsePreferredTags :: bool

definition egress_convertFilter :: "egress_filter option \<Rightarrow> request_filter option" where
  "egress_convertFilter v2filter =
     map_option (\<lambda>f. \<lparr>rf_AppID = ef_SourceId f,
        rf_Message = (case ef_Message f of Some Egress_Filter_Log \<Rightarrow> Some Filter_Log | None \<Rightarrow> None)\<rparr>) v2filter"

definition requestConverter_Convert :: "egress_request \<Rightarrow> subscription_request" where
  "requestConverter_Convert v2req =
     \<lparr>sr_ShardID = eg_ShardId v2req, sr_Filter = egress_convertFilter (eg_Filter v2req)\<rparr>"

section \<open>Receiving and querying\<close>

text \<open>The decoder allocates the tag map of the envelope it returns.\<close>

type_synonym v1_decoder = "tag_heap \<Rightarrow> bytes \<Rightarrow> (v1_envelope \<times> tag_heap) result"

definition envelopeConverter_Convert ::
  "events_pkg \<Rightarrow> v1_decoder \<Rightarrow> tag_heap \<Rightarrow> bytes \<Rightarrow> bool \<Rightarrow> (v2_envelope \<times> tag_heap) result" where
  "envelopeConverter_Convert pkg decode h payload usePreferredTags =
     (case decode h payload of
        Inl err \<Rightarrow> Inl err
      | Inr (v1e, h') \<Rightarrow> Inr (ToV2 pkg v1e usePreferredTags h'))"

text \<open>
  \<open>Receiver.Receive\<close>: the error of the subscription, or the function that receives. That function
  takes what the subscription returns.
\<close>

definition Receiver_rx ::
  "events_pkg \<Rightarrow> v1_decoder \<Rightarrow> egress_request \<Rightarrow> tag_heap \<Rightarrow> bytes result \<Rightarrow> (v2_envelope \<times> tag_heap) result" where
  "Receiver_rx pkg decode req h received =
     (case received of
        Inl err \<Rightarrow> Inl err
      | Inr data \<Rightarrow> envelopeConverter_Convert pkg decode h data (eg_UsePreferredTags req))"

definition Receiver_Receive ::
  "(subscription_request \<Rightarrow> string option) \<Rightarrow> egress_request \<Rightarrow> unit result" where
  "Receiver_Receive subscribe req =
     (case subscribe (requestConverter_Convert req) of Some err \<Rightarrow> Inl err | None \<Rightarrow> Inr ())"

fun Querier_loop ::
  "events_pkg \<Rightarrow> v1_decoder \<Rightarrow> bool \<Rightarrow> bytes list \<Rightarrow> tag_heap \<Rightarrow> v2_envelope list \<times> tag_heap" where
  "Querier_loop pkg decode usePreferredTags [] h = ([], h)"
| "Querier_loop pkg decode usePreferredTags (b # bs) h =
     (case envelopeConverter_Convert pkg decode h b usePreferredTags of
        Inl err \<Rightarrow> Querier_loop pkg decode usePreferredTags bs h
      | Inr (e, h') \<Rightarrow> (let (es, h'') = Querier_loop pkg decode usePreferredTags bs h' in (e # es, h'')))"

definition QueryServer_ContainerMetrics ::
  "events_pkg \<Rightarrow> v1_decoder \<Rightarrow> (string \<Rightarrow> bytes list) \<Rightarrow> string \<Rightarrow> bool \<Rightarrow> tag_heap \<Rightarrow>
     v2_envelope list result \<times> tag_heap" where
  "QueryServer_ContainerMetrics pkg decode fetch sourceId usePreferredTags h =
     (if sourceId = [] then (Inl ''source_id is required'', h)
      else let (es, h') = Querier_loop pkg decode usePreferredTags (fetch sourceId) h in (Inr es, h'))"

section \<open>A stream\<close>

record rlp_stream =
  rl_heap :: tag_heap
  rl_received :: "v2_envelope list"
  rl_consuming :: bool
  rl_buffer :: "v2_envelope list"
  rl_bufferClosed :: bool
  rl_sent :: "v2_envelope list"
  rl_failed :: "v2_envelope list"
  rl_egress :: uint64
  rl_dropped :: uint64
  rl_cancelled :: bool
  rl_returned :: "string option option"

definition rlp_buffer_size :: nat where
  "rlp_buffer_size = 10000"

definition new_stream :: "tag_heap \<Rightarrow> rlp_stream" where
  "new_stream h = \<lparr>rl_heap = h, rl_received = [], rl_consuming = True, rl_buffer = [], rl_bufferClosed = False,
     rl_sent = [], rl_failed = [], rl_egress = 0, rl_dropped = 0, rl_cancelled = False, rl_returned = None\<rparr>"

text \<open>
  What \<open>Server.Receiver\<close> does up to its loop: the error it returns, or a stream.
\<close>

definition Server_Receiver_start ::
  "(subscription_request \<Rightarrow> string option) \<Rightarrow> egress_request \<Rightarrow> tag_heap \<Rightarrow> rlp_stream result" where
  "Server_Receiver_start subscribe r h =
     (if (case eg_Filter r of None \<Rightarrow> False | Some f \<Rightarrow> ef_SourceId f = [] \<and> ef_Message f \<noteq> None)
      then Inl ''invalid request: cannot have type filter without source id''
      else case Receiver_Receive subscribe r of
             Inl err \<Rightarrow> Inl ''unable to setup subscription''
           | Inr _ \<Rightarrow> Inr (new_stream h))"

text \<open>
  The health gauge around the call, which the deferred \<open>Dec\<close> restores on every return.
\<close>

definition Server_Receiver_health :: "gauges \<Rightarrow> gauges option" where
  "Server_Receiver_health g = Option.bind (Registrar_Inc ''subscriptionCount'' g) (Registrar_Dec ''subscriptionCount'')"

text \<open>One turn of \<open>consumeReceiver\<close>: what \<open>rx\<close> returned.\<close>

definition consumeReceiver_turn ::
  "events_pkg \<Rightarrow> v1_decoder \<Rightarrow> egress_request \<Rightarrow> bytes result \<Rightarrow> rlp_stream \<Rightarrow> rlp_stream" where
  "consumeReceiver_turn pkg decode req received s =
     (if \<not> rl_consuming s then s
      else case Receiver_rx pkg decode req (rl_heap s) received of
             Inl err \<Rightarrow> s\<lparr>rl_consuming := False, rl_bufferClosed := True, rl_cancelled := True\<rparr>
           | Inr (e, h) \<Rightarrow>
               (let s' = s\<lparr>rl_heap := h, rl_received := rl_received s @ [e]\<rparr>
                in case try_send rlp_buffer_size e (rl_buffer s) of
                     Some q \<Rightarrow> s'\<lparr>rl_buffer := q\<rparr>
                   | None \<Rightarrow> s'\<lparr>rl_dropped := rl_dropped s + 1\<rparr>))"

text \<open>One turn of the loop of \<open>Server.Receiver\<close> over the buffer, with the outcome of \<open>Send\<close>.\<close>

definition Server_Receiver_turn :: "bool \<Rightarrow> rlp_stream \<Rightarrow> rlp_stream" where
  "Server_Receiver_turn ok s =
     (if rl_returned s \<noteq> None then s
      else case rl_buffer s of
             [] \<Rightarrow> (if rl_bufferClosed s then s\<lparr>rl_returned := Some None, rl_cancelled := True\<rparr> else s)
           | e # q \<Rightarrow>
               (if ok then s\<lparr>rl_buffer := q, rl_sent := rl_sent s @ [e], rl_egress := rl_egress s + 1\<rparr>
                else s\<lparr>rl_buffer := q, rl_failed := [e], rl_returned := Some (Some ''unexpected EOF''),
                       rl_cancelled := True\<rparr>))"

definition Server_Alert :: "int \<Rightarrow> rlp_stream \<Rightarrow> rlp_stream" where
  "Server_Alert missed s = s\<lparr>rl_dropped := rl_dropped s + of_int missed\<rparr>"

datatype rlp_action = RL_Receive "bytes result" | RL_Send bool

fun rlp_step :: "events_pkg \<Rightarrow> v1_decoder \<Rightarrow> egress_request \<Rightarrow> rlp_action \<Rightarrow> rlp_stream \<Rightarrow> rlp_stream" where
  "rlp_step pkg decode req (RL_Receive received) s = consumeReceiver_turn pkg decode req received s"
| "rlp_step pkg decode req (RL_Send ok) s = Server_Receiver_turn ok s"

section \<open>The application\<close>

record rlp_app =
  ra_egressPort :: int
  ra_maxEgressConnections :: int
  ra_ingressAddrs :: "string list"
  ra_healthAddr :: string

definition NewRLP :: "(rlp_app \<Rightarrow> rlp_app) list \<Rightarrow> rlp_app" where
  "NewRLP opts = fold (\<lambda>opt. opt) opts
     \<lparr>ra_egressPort = 0, ra_maxEgressConnections = 500, ra_ingressAddrs = [''doppler.service.cf.internal''],
      ra_healthAddr = ''localhost:33333''\<rparr>"

definition WithEgressPort :: "int \<Rightarrow> rlp_app \<Rightarrow> rlp_app" where
  "WithEgressPort port r = r\<lparr>ra_egressPort := port\<rparr>"

definition WithIngressAddrs :: "string list \<Rightarrow> rlp_app \<Rightarrow> rlp_app" where
  "WithIngressAddrs addrs r = r\<lparr>ra_ingressAddrs := addrs\<rparr>"

definition WithHealthAddr :: "string \<Rightarrow> rlp_app \<Rightarrow> rlp_app" where
  "WithHealthAddr addr r = r\<lparr>ra_healthAddr := addr\<rparr>"

definition WithMaxEgressConnections :: "int \<Rightarrow> rlp_app \<Rightarrow> rlp_app" where
  "WithMaxEgressConnections max_conns r = r\<lparr>ra_maxEgressConnections := max_conns\<rparr>"

text \<open>
  The addresses that \<open>main\<close> takes from its flag: \<open>None\<close> is the exit for an empty list.
\<close>

definition rlp_main_addrs :: "string \<Rightarrow> string list option" where
  "rlp_main_addrs ingressAddrsList =
     (let hostPorts = split_on (CHR '','') ingressAddrsList in if length hostPorts = 0 then None else Some hostPorts)"

text \<open>What \<open>Stop\<close> closes in the pool of connections.\<close>

definition RLP_Stop_pool :: "rlp_app \<Rightarrow> pool \<Rightarrow> nat list \<times> pool" where
  "RLP_Stop_pool r p =
     fold (\<lambda>addr (closed, p). let (cs, p') = Pool_Close addr p in (closed @ cs, p')) (ra_ingressAddrs r) ([], p)"

section \<open>Definitions for the properties\<close>

text \<open>What a v2 request asks for.\<close>

definition egress_wants :: "events_pkg \<Rightarrow> egress_request \<Rightarrow> string \<Rightarrow> v1_envelope \<Rightarrow> bool" where
  "egress_wants pkg r app e \<longleftrightarrow>
     (case eg_Filter r of
        None \<Rightarrow> True
      | Some f \<Rightarrow> (ef_SourceId f = [] \<or> ef_SourceId f = app) \<and>
          (ef_Message f = Some Egress_Filter_Log \<longrightarrow> GetEventType pkg e = Envelope_LogMessage))"

definition rlp_inv :: "rlp_stream \<Rightarrow> bool" where
  "rlp_inv s \<longleftrightarrow>
     subseq (rl_sent s @ rl_failed s @ rl_buffer s) (rl_received s) \<and>
     (\<exists>n. length (rl_received s) = length (rl_sent s @ rl_failed s @ rl_buffer s) + n \<and> rl_dropped s = of_nat n) \<and>
     length (rl_buffer s) \<le> rlp_buffer_size \<and> rl_egress s = of_nat (length (rl_sent s)) \<and>
     (rl_bufferClosed s \<longleftrightarrow> \<not> rl_consuming s) \<and>
     (rl_failed s = [] \<or> rl_returned s = Some (Some ''unexpected EOF'') \<and> length (rl_failed s) = 1) \<and>
     (rl_returned s = Some None \<longrightarrow> rl_buffer s = [] \<and> rl_bufferClosed s \<and> rl_failed s = [])"

definition small_request_v2 :: egress_request where
  "small_request_v2 = \<lparr>eg_ShardId = ''s'', eg_Filter = Some \<lparr>ef_SourceId = ''app'', ef_Message = Some Egress_Filter_Log\<rparr>,
     eg_UsePreferredTags = False\<rparr>"

definition small_decode :: v1_decoder where
  "small_decode h b = (if b = ''bad'' then Inl ''EOF'' else
     Inr (empty_v1\<lparr>e1_Timestamp := Some (int (length b))\<rparr>, h))"

section \<open>Requests ask for the same\<close>

lemma requestConverter_wants:
  "wants pkg (convertFilter (requestConverter_Convert r)) app e = egress_wants pkg r app e"
  by (cases "eg_Filter r")
     (auto simp: requestConverter_Convert_def egress_convertFilter_def convertFilter_def wants_def egress_wants_def
       filterTypeFromEnvelope_def split: option.splits egress_message.splits)

text \<open>
  C14: A request at the reverse log proxy is refused exactly when it filters by type without naming
  a source. Any other becomes a subscription of the same shard for which a doppler's router selects
  exactly the envelopes that the request asks for.
\<close>

theorem rlp_request_refines:
  "(\<exists>h. Server_Receiver_start (\<lambda>_. None) r h = Inl ''invalid request: cannot have type filter without source id'') =
     (\<exists>f. eg_Filter r = Some f \<and> ef_SourceId f = [] \<and> ef_Message f \<noteq> None) \<and>
   sr_ShardID (requestConverter_Convert r) = eg_ShardId r \<and>
   wants pkg (convertFilter (requestConverter_Convert r)) app e = egress_wants pkg r app e"
  unfolding requestConverter_wants
  by (auto simp: Server_Receiver_start_def Receiver_Receive_def requestConverter_Convert_def split: option.splits)

section \<open>Streams\<close>

lemma rlp_inv_start: "rlp_inv (new_stream h)"
  by (simp add: rlp_inv_def new_stream_def)

lemma rlp_inv_consume:
  assumes "rlp_inv s"
  shows "rlp_inv (consumeReceiver_turn pkg decode req received s)"
proof (cases "rl_consuming s")
  case True
  show ?thesis
  proof (cases "Receiver_rx pkg decode req (rl_heap s) received")
    case (Inl err)
    with True assms show ?thesis by (auto simp: consumeReceiver_turn_def rlp_inv_def)
  next
    case (Inr p)
    obtain e h where p: "p = (e, h)" by (cases p)
    let ?kept = "rl_sent s @ rl_failed s @ rl_buffer s"
    from assms obtain n where n: "length (rl_received s) = length ?kept + n" "rl_dropped s = of_nat n"
      and sub: "subseq ?kept (rl_received s)" by (auto simp: rlp_inv_def)
    have "subseq (?kept @ [e]) (rl_received s @ [e])" using sub by (rule list_emb_append_mono) simp
    moreover have "subseq ?kept (rl_received s @ [e])" using sub by (rule list_emb_prefix)
    moreover have "rl_dropped s + 1 = of_nat (Suc n)" by (simp add: n(2))
    moreover have "rl_returned s \<noteq> Some None" using assms True by (auto simp: rlp_inv_def)
    ultimately show ?thesis
      using Inr p True assms n
      by (cases "length (rl_buffer s) < rlp_buffer_size")
         (auto simp: consumeReceiver_turn_def rlp_inv_def try_send_def Let_def intro: exI[of _ "Suc n"])
  qed
qed (use assms in \<open>simp add: consumeReceiver_turn_def\<close>)

lemma rlp_inv_send: "rlp_inv s \<Longrightarrow> rlp_inv (Server_Receiver_turn ok s)"
  by (cases "rl_buffer s") (auto simp: Server_Receiver_turn_def rlp_inv_def)

lemma rlp_inv_run: "rlp_inv s \<Longrightarrow> rlp_inv (fold (rlp_step pkg decode req) as s)"
proof (induction as arbitrary: s)
  case (Cons a as)
  then have "rlp_inv (rlp_step pkg decode req a s)"
    by (cases a) (simp_all add: rlp_inv_consume rlp_inv_send)
  with Cons.IH show ?case by simp
qed simp

text \<open>
  C13: A stream of the reverse log proxy accounts for every envelope. Whatever the dopplers send and
  however receiving and sending interleave, the envelopes sent, the one whose sending failed and
  those in the buffer are a subsequence of the received ones, in order, and the dropped count is the
  number of the others; if nothing was dropped, none is missing. The buffer stays within its size,
  the egress count is the number of envelopes sent, and when the stream returns without an error
  its buffer is empty.
\<close>

theorem rlp_stream_accounts:
  fixes as :: "rlp_action list" and pkg :: events_pkg and decode :: v1_decoder and req :: egress_request and h :: tag_heap
  defines "s \<equiv> fold (rlp_step pkg decode req) as (new_stream h)"
  shows "subseq (rl_sent s @ rl_failed s @ rl_buffer s) (rl_received s) \<and>
    (\<exists>n. length (rl_received s) = length (rl_sent s @ rl_failed s @ rl_buffer s) + n \<and> rl_dropped s = of_nat n \<and>
       (n = 0 \<longrightarrow> rl_received s = rl_sent s @ rl_failed s @ rl_buffer s)) \<and>
    length (rl_buffer s) \<le> 10000 \<and> rl_egress s = of_nat (length (rl_sent s)) \<and>
    (rl_returned s = Some None \<longrightarrow> rl_buffer s = [] \<and> rl_failed s = [])"
proof -
  have inv: "rlp_inv s" unfolding s_def by (rule rlp_inv_run[OF rlp_inv_start])
  then obtain n where sub: "subseq (rl_sent s @ rl_failed s @ rl_buffer s) (rl_received s)"
    and n: "length (rl_received s) = length (rl_sent s @ rl_failed s @ rl_buffer s) + n" "rl_dropped s = of_nat n"
    by (auto simp: rlp_inv_def)
  have "n = 0 \<longrightarrow> rl_received s = rl_sent s @ rl_failed s @ rl_buffer s"
    using subseq_same_length[OF sub] n(1) by simp
  with inv sub n show ?thesis by (auto simp: rlp_inv_def rlp_buffer_size_def)
qed

theorem rlp_stream_accounts_witness:
  "let s = fold (rlp_step small_container_pkg small_decode small_request_v2)
       [RL_Receive (Inr ''a''), RL_Receive (Inr ''bb''), RL_Send True, RL_Receive (Inr ''bad''), RL_Send True, RL_Send True]
       (new_stream [])
   in rl_returned s = Some None \<and> length (rl_sent s) = 2 \<and> rl_received s = rl_sent s"
proof -
  define as where "as = [RL_Receive (Inr ''a''), RL_Receive (Inr ''bb''), RL_Send True, RL_Receive (Inr ''bad''), RL_Send True, RL_Send True]"
  define s where "s = fold (rlp_step small_container_pkg small_decode small_request_v2) as (new_stream [])"
  let ?rx = "Receiver_rx small_container_pkg small_decode small_request_v2"
  have conv: "\<exists>e h'. ?rx h (Inr b) = Inr (e, h')" if "b \<noteq> ''bad''" for b h
    using that by (auto simp: Receiver_rx_def envelopeConverter_Convert_def small_decode_def)
  have bad: "?rx h (Inr ''bad'') = Inl ''EOF''" for h
    by (simp add: Receiver_rx_def envelopeConverter_Convert_def small_decode_def)
  from conv[of "''a''" "[]"] obtain e1 h1 where 1: "?rx [] (Inr ''a'') = Inr (e1, h1)" by auto
  from conv[of "''bb''" h1] obtain e2 h2 where 2: "?rx h1 (Inr ''bb'') = Inr (e2, h2)" by auto
  have run: "rl_returned s = Some None" "length (rl_sent s) = 2" "length (rl_received s) = 2"
    by (simp_all add: s_def as_def new_stream_def consumeReceiver_turn_def Server_Receiver_turn_def 1 2 bad
        try_send_def rlp_buffer_size_def)
  from rlp_stream_accounts[of small_container_pkg small_decode small_request_v2 as "[]", folded s_def] run
  have "rl_received s = rl_sent s" by auto
  with run show ?thesis unfolding Let_def as_def[symmetric] s_def[symmetric] by simp
qed

text \<open>One payload that does not decode ends the whole stream; in the answer to a query it is left out.\<close>

lemma bad_payload_ends_stream:
  assumes "rl_consuming s" and "decode (rl_heap s) b = Inl err"
  shows "\<not> rl_consuming (consumeReceiver_turn pkg decode req (Inr b) s) \<and>
    rl_bufferClosed (consumeReceiver_turn pkg decode req (Inr b) s)"
    and "decode h b = Inl err \<Longrightarrow> Querier_loop pkg decode pref (b # bs) h = Querier_loop pkg decode pref bs h"
  using assms by (simp_all add: consumeReceiver_turn_def Receiver_rx_def envelopeConverter_Convert_def)

text \<open>The health gauge is what it was when the call returns.\<close>

lemma subscription_gauge_restored:
  assumes "mget g ''subscriptionCount'' = Some n"
  shows "\<exists>g'. Server_Receiver_health g = Some g' \<and> mget g' = mget g"
proof -
  from Registrar_IncDec[OF assms] obtain g' where "Registrar_Inc ''subscriptionCount'' g = Some g'"
    "Registrar_Dec ''subscriptionCount'' g' = Some (mput ''subscriptionCount'' n (mput ''subscriptionCount'' (n + 1) g))"
    by blast
  with assms show ?thesis by (auto simp: Server_Receiver_health_def fun_eq_iff)
qed

section \<open>Start and stop\<close>

text \<open>The check for missing addresses in \<open>main\<close> never fails: splitting the empty string gives one piece.\<close>

lemma rlp_main_addrs_check: "rlp_main_addrs s = Some (split_on (CHR '','') s)" "rlp_main_addrs [] = Some [[]]"
  by (simp_all add: rlp_main_addrs_def)

text \<open>After \<open>Stop\<close> the pool knows none of the addresses, and the connections it had for the first are closed.\<close>

lemma RLP_Stop_forgets:
  assumes "addr \<in> set (ra_ingressAddrs r)"
  shows "mget (pl_dopplers (snd (RLP_Stop_pool r p))) addr = None"
proof -
  let ?f = "\<lambda>addr (closed, p). let (cs, p') = Pool_Close addr p in (closed @ cs, p')"
  have keep: "mget (pl_dopplers (snd cp)) addr = None \<Longrightarrow> mget (pl_dopplers (snd (fold ?f as cp))) addr = None"
    for as and cp :: "nat list \<times> pool"
    by (induction as arbitrary: cp) (auto simp: Pool_Close_def split: prod.splits)
  from assms obtain as bs where split: "ra_ingressAddrs r = as @ addr # bs" by (meson split_list)
  have "mget (pl_dopplers (snd (?f addr cp))) addr = None" for cp :: "nat list \<times> pool"
    by (simp add: Pool_Close_def split: prod.split)
  from keep[OF this] show ?thesis
    unfolding RLP_Stop_pool_def split fold_append comp_apply fold_Cons by blast
qed

end
