(* ===== verification/Configuration.thy ===== *)
theory Configuration
  imports Blacklist Recent_Sinks Sink_Manager
begin

text \<open>
  How the components are configured: the TLS settings of their gRPC endpoints
  (\<open>plumbing/tls.go\<close>), as the mains of the agent, the doppler and the reverse log proxy ask for
  them, and the configuration files (\<open>doppler/app/config.go\<close>, \<open>metron/app/config.go\<close>,
  \<open>trafficcontroller/app/config.go\<close>, \<open>syslog_drain_binder/config/config.go\<close>).

  Reading files, X.509 and decoding JSON are arguments: a decoder takes the configuration that the
  source fills in before it decodes, and returns it with what the file sets. Parsing a duration
  is an argument as well, since Go computes its fractions in floating point. \<open>None\<close> is a panic.
\<close>

section \<open>TLS\<close>

definition TLS_ECDHE_RSA_WITH_AES_128_GCM_SHA256 :: uint16 where
  "TLS_ECDHE_RSA_WITH_AES_128_GCM_SHA256 = 0xc02f"

definition TLS_ECDHE_RSA_WITH_AES_256_GCM_SHA384 :: uint16 where
  "TLS_ECDHE_RSA_WITH_AES_256_GCM_SHA384 = 0xc030"

definition VersionTLS12 :: uint16 where
  "VersionTLS12 = 0x0303"

datatype client_auth = NoClientCert | RequireAndVerifyClientCert

record ('cert, 'certs) tls_config =
  tc_InsecureSkipVerify :: bool
  tc_MinVersion :: uint16
  tc_CipherSuites :: "uint16 list"
  tc_Certificates :: "'cert list"
  tc_ServerName :: string
  tc_ClientAuth :: client_auth
  tc_RootCAs :: "'certs option"
  tc_ClientCAs :: "'certs option"

text \<open>
  What the Go library answers: loading a key pair, reading a file, taking certificates from PEM,
  and the error of verifying a certificate against them.
\<close>

record ('cert, 'certs) tls_env =
  te_load :: "string \<Rightarrow> string \<Rightarrow> 'cert result"
  te_read :: "string \<Rightarrow> bytes result"
  te_pem :: "bytes \<Rightarrow> 'certs option"
  te_verify :: "'cert \<Rightarrow> 'certs \<Rightarrow> string option"

definition defaultServerCipherSuites :: "uint16 list" where
  "defaultServerCipherSuites = [TLS_ECDHE_RSA_WITH_AES_128_GCM_SHA256, TLS_ECDHE_RSA_WITH_AES_256_GCM_SHA384]"

definition NewTLSConfig :: "('cert, 'certs) tls_config" where
  "NewTLSConfig = \<lparr>tc_InsecureSkipVerify = False, tc_MinVersion = VersionTLS12, tc_CipherSuites = [],
     tc_Certificates = [], tc_ServerName = [], tc_ClientAuth = NoClientCert, tc_RootCAs = None, tc_ClientCAs = None\<rparr>"

definition cipherMap :: "(string, uint16) gomap" where
  "cipherMap =
     [(''TLS_ECDHE_RSA_WITH_AES_128_GCM_SHA256'', TLS_ECDHE_RSA_WITH_AES_128_GCM_SHA256),
      (''TLS_ECDHE_RSA_WITH_AES_256_GCM_SHA384'', TLS_ECDHE_RSA_WITH_AES_256_GCM_SHA384)]"

definition WithCipherSuites ::
  "string list \<Rightarrow> ('cert, 'certs) tls_config \<Rightarrow> ('cert, 'certs) tls_config option" where
  "WithCipherSuites ciphers c =
     (let configuredCiphers = List.map_filter (mget cipherMap) ciphers
      in if length configuredCiphers = 0 then None else Some (c\<lparr>tc_CipherSuites := configuredCiphers\<rparr>))"

definition setCA ::
  "('cert, 'certs) tls_env \<Rightarrow> 'cert \<Rightarrow> string \<Rightarrow> bool \<Rightarrow> ('cert, 'certs) tls_config \<Rightarrow>
     ('cert, 'certs) tls_config result" where
  "setCA env tlsCert caCertFile isClient c =
     (case te_read env caCertFile of
        Inl err \<Rightarrow> Inl (''failed to read ca cert file: '' @ err)
      | Inr certBytes \<Rightarrow>
          (case te_pem env certBytes of
             None \<Rightarrow> Inl ''unable to load ca cert file''
           | Some caCertPool \<Rightarrow>
               (let c' = (if isClient then c\<lparr>tc_RootCAs := Some caCertPool\<rparr> else c\<lparr>tc_ClientCAs := Some caCertPool\<rparr>)
                in case te_verify env tlsCert caCertPool of Some err \<Rightarrow> Inl err | None \<Rightarrow> Inr c')))"

definition newMutualTLSConfig ::
  "('cert, 'certs) tls_env \<Rightarrow> string \<Rightarrow> string \<Rightarrow> string \<Rightarrow> string \<Rightarrow> bool \<Rightarrow>
     ('cert, 'certs) tls_config result" where
  "newMutualTLSConfig env certFile keyFile caCertFile serverName isClient =
     (case te_load env certFile keyFile of
        Inl err \<Rightarrow> Inl (''failed to load keypair: '' @ err)
      | Inr tlsCert \<Rightarrow>
          (let c = NewTLSConfig\<lparr>tc_Certificates := [tlsCert]\<rparr>;
               c' = (if isClient then c\<lparr>tc_ServerName := serverName\<rparr>
                     else c\<lparr>tc_ClientAuth := RequireAndVerifyClientCert\<rparr>)
           in if caCertFile \<noteq> [] then setCA env tlsCert caCertFile isClient c' else Inr c'))"

definition NewClientMutualTLSConfig ::
  "('cert, 'certs) tls_env \<Rightarrow> string \<Rightarrow> string \<Rightarrow> string \<Rightarrow> string \<Rightarrow> ('cert, 'certs) tls_config result" where
  "NewClientMutualTLSConfig env certFile keyFile caCertFile serverName =
     newMutualTLSConfig env certFile keyFile caCertFile serverName True"

definition NewServerMutualTLSConfig ::
  "('cert, 'certs) tls_env \<Rightarrow> string \<Rightarrow> string \<Rightarrow> string \<Rightarrow>
     (('cert, 'certs) tls_config \<Rightarrow> ('cert, 'certs) tls_config option) list \<Rightarrow>
     ('cert, 'certs) tls_config result option" where
  "NewServerMutualTLSConfig env certFile keyFile caCertFile opts =
     (case newMutualTLSConfig env certFile keyFile caCertFile [] False of
        Inl err \<Rightarrow> Some (Inl err)
      | Inr tlsConfig \<Rightarrow>
          map_option Inr (foldM (\<lambda>opt. opt) opts (tlsConfig\<lparr>tc_CipherSuites := defaultServerCipherSuites\<rparr>)))"

text \<open>The options as the agent and the doppler make them from a list of names in their configuration.\<close>

definition cipher_options ::
  "string list \<Rightarrow> (('cert, 'certs) tls_config \<Rightarrow> ('cert, 'certs) tls_config option) list" where
  "cipher_options cipherSuites = (if length cipherSuites > 0 then [WithCipherSuites cipherSuites] else [])"

text \<open>The options as the reverse log proxy makes them from its flag.\<close>

definition rlp_cipher_options ::
  "string \<Rightarrow> (('cert, 'certs) tls_config \<Rightarrow> ('cert, 'certs) tls_config option) list" where
  "rlp_cipher_options rawCipherSuites = cipher_options (split_on (CHR '':'') rawCipherSuites)"

section \<open>Configuration files\<close>

record etcd_tls =
  et_CertFile :: string
  et_KeyFile :: string
  et_CAFile :: string

definition etcd_tls_complete :: "etcd_tls \<Rightarrow> bool" where
  "etcd_tls_complete t \<longleftrightarrow> et_CertFile t \<noteq> [] \<and> et_KeyFile t \<noteq> [] \<and> et_CAFile t \<noteq> []"

record grpc_config =
  gc_Port :: uint16
  gc_CAFile :: string
  gc_CertFile :: string
  gc_KeyFile :: string
  gc_CipherSuites :: "string list"

record metron_addresses =
  ma_UDPAddress :: string
  ma_GRPCAddress :: string

subsection \<open>The doppler\<close>

record doppler_config =
  dg_DisableSyslogDrains :: bool
  dg_DisableAnnounce :: bool
  dg_BlackListIps :: "ip_range list"
  dg_ContainerMetricTTLSeconds :: int
  dg_IncomingUDPPort :: uint32
  dg_EtcdMaxConcurrentRequests :: int
  dg_EtcdUrls :: "string list"
  dg_EtcdRequireTLS :: bool
  dg_EtcdTLSClientConfig :: etcd_tls
  dg_Index :: string
  dg_JobName :: string
  dg_IP :: string
  dg_MaxRetainedLogMessages :: uint32
  dg_MessageDrainBufferSize :: uint64
  dg_MetricBatchIntervalMilliseconds :: uint64
  dg_MetronConfig :: metron_addresses
  dg_MonitorIntervalSeconds :: uint64
  dg_WebsocketHost :: string
  dg_OutgoingPort :: uint32
  dg_GRPC :: grpc_config
  dg_SharedSecret :: string
  dg_SinkDialTimeoutSeconds :: int
  dg_SinkIOTimeoutSeconds :: int
  dg_SinkInactivityTimeoutSeconds :: int
  dg_SinkSkipCertVerify :: bool
  dg_UnmarshallerCount :: int
  dg_WebsocketWriteTimeoutSeconds :: int
  dg_Zone :: string
  dg_PPROFPort :: uint32
  dg_HealthAddr :: string

definition doppler_validate :: "net_env \<Rightarrow> doppler_config \<Rightarrow> string option" where
  "doppler_validate net c =
     (if dg_IP c = [] then Some ''invalid doppler config, no IP provided''
      else if dg_MaxRetainedLogMessages c = 0
      then Some ''Need max number of log messages to retain per application''
      else case ValidateIpAddresses net (dg_BlackListIps c) of
             Some err \<Rightarrow> Some err
           | None \<Rightarrow>
               (if dg_EtcdRequireTLS c \<and> \<not> etcd_tls_complete (dg_EtcdTLSClientConfig c)
                then Some ''invalid etcd TLS client configuration''
                else if gc_CAFile (dg_GRPC c) = [] then Some ''invalid doppler config, no GRPC.CAFile provided''
                else if gc_CertFile (dg_GRPC c) = [] then Some ''invalid doppler config, no GRPC.CertFile provided''
                else if gc_KeyFile (dg_GRPC c) = [] then Some ''invalid doppler config, no GRPC.KeyFile provided''
                else None))"

definition doppler_defaults :: "doppler_config \<Rightarrow> doppler_config" where
  "doppler_defaults c =
     c\<lparr>dg_MetricBatchIntervalMilliseconds :=
         (if dg_MetricBatchIntervalMilliseconds c = 0 then 5000 else dg_MetricBatchIntervalMilliseconds c),
       dg_MonitorIntervalSeconds := (if dg_MonitorIntervalSeconds c = 0 then 60 else dg_MonitorIntervalSeconds c),
       dg_SinkDialTimeoutSeconds := (if dg_SinkDialTimeoutSeconds c = 0 then 1 else dg_SinkDialTimeoutSeconds c),
       dg_WebsocketWriteTimeoutSeconds :=
         (if dg_WebsocketWriteTimeoutSeconds c = 0 then 30 else dg_WebsocketWriteTimeoutSeconds c),
       dg_UnmarshallerCount := (if dg_UnmarshallerCount c = 0 then 1 else dg_UnmarshallerCount c),
       dg_EtcdMaxConcurrentRequests :=
         (if dg_EtcdMaxConcurrentRequests c < 1 then 1 else dg_EtcdMaxConcurrentRequests c),
       dg_GRPC := (if gc_Port (dg_GRPC c) = 0 then (dg_GRPC c)\<lparr>gc_Port := 8082\<rparr> else dg_GRPC c),
       dg_HealthAddr := (if dg_HealthAddr c = [] then ''localhost:14825'' else dg_HealthAddr c)\<rparr>"

definition doppler_Parse ::
  "net_env \<Rightarrow> (uint32 \<Rightarrow> bytes \<Rightarrow> doppler_config result) \<Rightarrow> bytes \<Rightarrow> doppler_config result" where
  "doppler_Parse net decode confData =
     (case decode 3456 confData of
        Inl err \<Rightarrow> Inl err
      | Inr config \<Rightarrow>
          (case doppler_validate net config of
             Some err \<Rightarrow> Inl err
           | None \<Rightarrow> Inr (doppler_defaults config)))"

subsection \<open>The agent\<close>

record metron_config =
  mg_Deployment :: string
  mg_Zone :: string
  mg_Job :: string
  mg_Index :: string
  mg_IP :: string
  mg_Tags :: "(string, string) gomap"
  mg_DisableUDP :: bool
  mg_IncomingUDPPort :: int
  mg_HealthEndpointPort :: uint64
  mg_GRPC :: grpc_config
  mg_DopplerAddr :: string
  mg_MetricBatchIntervalMilliseconds :: uint64
  mg_RuntimeStatsIntervalMilliseconds :: uint64
  mg_PPROFPort :: uint32

text \<open>The decoder starts with the two intervals that are filled in.\<close>

definition metron_Parse ::
  "(uint64 \<Rightarrow> uint64 \<Rightarrow> bytes \<Rightarrow> metron_config result) \<Rightarrow> bytes \<Rightarrow> metron_config result" where
  "metron_Parse decode confData =
     (case decode 5000 15000 confData of
        Inl err \<Rightarrow> Inl err
      | Inr config \<Rightarrow> (if mg_DopplerAddr config = [] then Inl ''DopplerAddr is required'' else Inr config))"

subsection \<open>The traffic controller\<close>

record cc_tls =
  cc_CertFile :: string
  cc_KeyFile :: string
  cc_CAFile :: string
  cc_ServerName :: string

record tc_config =
  tg_EtcdUrls :: "string list"
  tg_EtcdMaxConcurrentRequests :: int
  tg_EtcdRequireTLS :: bool
  tg_EtcdTLSClientConfig :: etcd_tls
  tg_IP :: string
  tg_ApiHost :: string
  tg_CCTLSClientConfig :: cc_tls
  tg_DopplerPort :: uint32
  tg_DopplerAddrs :: "string list"
  tg_OutgoingDropsondePort :: uint32
  tg_MetronConfig :: metron_addresses
  tg_GRPC :: grpc_config
  tg_SystemDomain :: string
  tg_SkipCertVerify :: bool
  tg_UaaHost :: string
  tg_UaaClient :: string
  tg_UaaClientSecret :: string
  tg_MonitorIntervalSeconds :: uint64
  tg_SecurityEventLog :: string
  tg_PPROFPort :: uint32
  tg_MetricEmitterInterval :: string
  tg_MetricEmitterDuration :: int
  tg_HealthAddr :: string

definition tc_setDefaults :: "(string \<Rightarrow> int result) \<Rightarrow> tc_config \<Rightarrow> tc_config" where
  "tc_setDefaults parse_duration c =
     c\<lparr>tg_EtcdMaxConcurrentRequests :=
         (if tg_EtcdMaxConcurrentRequests c < 1 then 10 else tg_EtcdMaxConcurrentRequests c),
       tg_MonitorIntervalSeconds := (if tg_MonitorIntervalSeconds c = 0 then 60 else tg_MonitorIntervalSeconds c),
       tg_GRPC := (if gc_Port (tg_GRPC c) = 0 then (tg_GRPC c)\<lparr>gc_Port := 8082\<rparr> else tg_GRPC c),
       tg_MetricEmitterDuration :=
         (case parse_duration (tg_MetricEmitterInterval c) of Inl err \<Rightarrow> 60000000000 | Inr d \<Rightarrow> d),
       tg_HealthAddr := (if tg_HealthAddr c = [] then ''localhost:14825'' else tg_HealthAddr c)\<rparr>"

definition tc_validate :: "tc_config \<Rightarrow> string option" where
  "tc_validate c =
     (if tg_SystemDomain c = [] then Some ''Need system domain in order to create the proxies''
      else if tg_IP c = [] then Some ''Need IP address for access logging''
      else if tg_EtcdRequireTLS c \<and> \<not> etcd_tls_complete (tg_EtcdTLSClientConfig c)
      then Some ''invalid etcd TLS client configuration''
      else if gc_CAFile (tg_GRPC c) = [] then Some ''invalid doppler config, no GRPC.CAFile provided''
      else if gc_CertFile (tg_GRPC c) = [] then Some ''invalid doppler config, no GRPC.CertFile provided''
      else if gc_KeyFile (tg_GRPC c) = [] then Some ''invalid doppler config, no GRPC.KeyFile provided''
      else if tg_UaaClientSecret c = [] then Some ''missing UAA client secret''
      else None)"

definition tc_Parse ::
  "(string \<Rightarrow> int result) \<Rightarrow> (bytes \<Rightarrow> tc_config result) \<Rightarrow> bytes \<Rightarrow> tc_config result" where
  "tc_Parse parse_duration decode confData =
     (case decode confData of
        Inl err \<Rightarrow> Inl err
      | Inr config \<Rightarrow>
          (let c = tc_setDefaults parse_duration config
           in case tc_validate c of Some err \<Rightarrow> Inl err | None \<Rightarrow> Inr c))"

subsection \<open>The drain binding\<close>

record sdb_config =
  sb_DisableSyslogDrains :: bool
  sb_InstanceName :: string
  sb_DrainUrlTtlSeconds :: int
  sb_UpdateIntervalSeconds :: int
  sb_EtcdMaxConcurrentRequests :: int
  sb_EtcdUrls :: "string list"
  sb_EtcdRequireTLS :: bool
  sb_EtcdTLSClientConfig :: etcd_tls
  sb_MetronAddress :: string
  sb_CloudControllerAddress :: string
  sb_CloudControllerTLSConfig :: etcd_tls
  sb_PollingBatchSize :: int
  sb_SkipCertVerify :: bool
  sb_PPROFPort :: uint32

text \<open>The message has the sign for at least in UTF-8.\<close>

definition sdb_validate :: "sdb_config \<Rightarrow> string option" where
  "sdb_validate c =
     (if sb_MetronAddress c = [] then Some ''Need Metron address (host:port)''
      else if sb_EtcdMaxConcurrentRequests c < 1
      then Some (''Need EtcdMaxConcurrentRequests '' @ [CHR 0xE2, CHR 0x89, CHR 0xA5] @ '' 1, received '' @
        itoa (sb_EtcdMaxConcurrentRequests c))
      else if sb_EtcdRequireTLS c \<and> \<not> etcd_tls_complete (sb_EtcdTLSClientConfig c)
      then Some ''Invalid etcd TLS client configuration''
      else None)"

definition sdb_ParseConfig :: "(bytes \<Rightarrow> sdb_config result) \<Rightarrow> bytes result \<Rightarrow> sdb_config result" where
  "sdb_ParseConfig decode file =
     (case file of
        Inl err \<Rightarrow> Inl err
      | Inr confData \<Rightarrow>
          (case decode confData of
             Inl err \<Rightarrow> Inl err
           | Inr config \<Rightarrow> (case sdb_validate config of Some err \<Rightarrow> Inl err | None \<Rightarrow> Inr config)))"

section \<open>Definitions for the properties\<close>

definition small_tls :: "(nat, nat) tls_env" where
  "small_tls = \<lparr>te_load = (\<lambda>_ _. Inr 1), te_read = (\<lambda>_. Inr ''pem''), te_pem = (\<lambda>_. Some 2), te_verify = (\<lambda>_ _. None)\<rparr>"

section \<open>What a server accepts\<close>

lemma cipherMap_values: "mget cipherMap n = Some v \<Longrightarrow> v \<in> set defaultServerCipherSuites"
  by (auto simp: cipherMap_def defaultServerCipherSuites_def split: if_splits)

lemma known_ciphers: "set (List.map_filter (mget cipherMap) ns) \<subseteq> set defaultServerCipherSuites"
  by (auto simp: List.map_filter_def dest: cipherMap_values)

lemma newMutualTLSConfig_server:
  assumes "newMutualTLSConfig env cert key ca name False = Inr c"
  shows "tc_ClientAuth c = RequireAndVerifyClientCert \<and> tc_MinVersion c = VersionTLS12 \<and>
    \<not> tc_InsecureSkipVerify c \<and>
    (ca \<noteq> [] \<longrightarrow> (\<exists>own cas. tc_Certificates c = [own] \<and> tc_ClientCAs c = Some cas \<and> te_verify env own cas = None))"
  using assms
  by (auto simp: newMutualTLSConfig_def setCA_def NewTLSConfig_def Let_def split: sum.splits if_splits option.splits)



text \<open>
  The flag of the reverse log proxy is empty by default, which splits into one empty name: unless
  suites are given, its start panics.
\<close>

lemma rlp_default_ciphers_panic:
  assumes "newMutualTLSConfig env cert key ca [] False = Inr c"
  shows "NewServerMutualTLSConfig env cert key ca (rlp_cipher_options []) = None"
  using assms
  by (simp add: NewServerMutualTLSConfig_def rlp_cipher_options_def cipher_options_def WithCipherSuites_def
      List.map_filter_def cipherMap_def)

text \<open>A client checks the name it was given against the authorities it was given.\<close>

lemma client_tls_names_server:
  assumes "NewClientMutualTLSConfig env cert key ca name = Inr c"
  shows "tc_ServerName c = name \<and> \<not> tc_InsecureSkipVerify c \<and> tc_MinVersion c = VersionTLS12 \<and>
    (ca \<noteq> [] \<longrightarrow> tc_RootCAs c \<noteq> None)"
  using assms
  by (auto simp: NewClientMutualTLSConfig_def newMutualTLSConfig_def setCA_def NewTLSConfig_def Let_def
      split: sum.splits if_splits option.splits)

section \<open>Accepted configurations\<close>

lemma doppler_validate_None:
  "doppler_validate net c = None \<longleftrightarrow>
     dg_IP c \<noteq> [] \<and> dg_MaxRetainedLogMessages c \<noteq> 0 \<and> ValidateIpAddresses net (dg_BlackListIps c) = None \<and>
     (dg_EtcdRequireTLS c \<longrightarrow> etcd_tls_complete (dg_EtcdTLSClientConfig c)) \<and>
     gc_CAFile (dg_GRPC c) \<noteq> [] \<and> gc_CertFile (dg_GRPC c) \<noteq> [] \<and> gc_KeyFile (dg_GRPC c) \<noteq> []"
  by (auto simp: doppler_validate_def split: option.split)

text \<open>
  What the doppler relies on of its configuration: the tickers it makes have a period, the work
  pool has a worker, and the ring of every recent-log sink has a slot, so that its loop does not
  panic.
\<close>

lemma doppler_config_usable:
  assumes "doppler_Parse net decode b = Inr c"
  shows "dg_MonitorIntervalSeconds c \<noteq> 0 \<and> dg_MetricBatchIntervalMilliseconds c \<noteq> 0 \<and>
    1 \<le> dg_EtcdMaxConcurrentRequests c \<and> dg_UnmarshallerCount c \<noteq> 0 \<and> gc_Port (dg_GRPC c) \<noteq> 0 \<and>
    ValidateIpAddresses net (dg_BlackListIps c) = None \<and>
    (\<forall>pkg es appId. \<exists>d. dump_loop pkg es (NewDumpSink appId (dg_MaxRetainedLogMessages c)) = Some d)"
proof -
  from assms obtain c0 where c0: "doppler_validate net c0 = None" and c: "c = doppler_defaults c0"
    by (auto simp: doppler_Parse_def split: sum.splits option.splits)
  then have "dg_MaxRetainedLogMessages c \<noteq> 0"
    by (simp add: doppler_defaults_def doppler_validate_None)
  from dump_loop_new[OF this] have "\<forall>pkg es appId. \<exists>d. dump_loop pkg es (NewDumpSink appId (dg_MaxRetainedLogMessages c)) = Some d"
    by blast
  with c0 show ?thesis by (auto simp: c doppler_defaults_def doppler_validate_None)
qed

lemma tc_config_usable:
  assumes "tc_Parse parse_duration decode b = Inr c"
  shows "1 \<le> tg_EtcdMaxConcurrentRequests c \<and> tg_MonitorIntervalSeconds c \<noteq> 0 \<and> gc_Port (tg_GRPC c) \<noteq> 0 \<and>
    tg_UaaClientSecret c \<noteq> [] \<and> gc_CAFile (tg_GRPC c) \<noteq> []"
  using assms by (auto simp: tc_Parse_def tc_setDefaults_def tc_validate_def Let_def split: sum.splits option.splits if_splits)

text \<open>The doppler replaces a metric interval of zero, the agent keeps it.\<close>

lemma metron_keeps_zero_interval:
  assumes "decode 5000 15000 b = Inr c" and "mg_DopplerAddr c \<noteq> []" and "mg_MetricBatchIntervalMilliseconds c = 0"
  shows "metron_Parse decode b = Inr c"
  using assms by (simp add: metron_Parse_def)

end
