(* ===== verification/Ingress_Listeners.thy ===== *)
theory Ingress_Listeners
  imports Metron_Counters Metric_Emitter
begin

text \<open>
  Where data enters: the UDP listener of the doppler (\<open>doppler/internal/listeners/udp_listener.go\<close>)
  with the goroutine of \<open>doppler/main.go\<close> behind it, the reading half of the agent's UDP reader
  (\<open>metron/internal/ingress/v1/network_reader.go\<close>) and the agent's v2 receiver
  (\<open>metron/internal/ingress/v2/receiver.go\<close>).

  What a socket or a stream returns is part of the actions. The channel behind the listener holds
  1024 datagrams and blocks the reading loop when it is full; the diodes behind the agent's readers
  overwrite and never block, and belong to another repository, so here they take everything.
\<close>

section \<open>The UDP listener of the doppler\<close>

record udp_listener =
  ul_data :: "bytes list"
  ul_closed :: bool
  ul_blocked :: "bytes option"
  ul_metrics :: "metric_call list"
  ul_taken :: "bytes list"

definition udp_channel_size :: nat where
  "udp_channel_size = 1024"

definition NewUDPListener :: udp_listener where
  "NewUDPListener = \<lparr>ul_data = [], ul_closed = False, ul_blocked = None, ul_metrics = [], ul_taken = []\<rparr>"

definition udp_received :: "string \<Rightarrow> bytes \<Rightarrow> metric_call list" where
  "udp_received metricProto data =
     (let n = of_nat (length data)
      in [BatchIncrementCounter ''dropsondeListener.receivedMessageCount'',
          BatchAddCounter ''dropsondeListener.receivedByteCount'' n,
          BatchIncrementCounter (metricProto @ ''.receivedMessageCount''),
          BatchIncrementCounter ''listeners.totalReceivedMessageCount'',
          BatchAddCounter (metricProto @ ''.receivedByteCount'') n,
          BatchAddCounter ''listeners.totalReceivedByteCount'' n])"

text \<open>
  One turn of the loop of \<open>Start\<close>: the datagram fits into the read buffer of 65535 bytes, or
  what does not is cut off. After an error the loop ends and closes the channel.
\<close>

definition udp_read :: "string \<Rightarrow> bytes result \<Rightarrow> udp_listener \<Rightarrow> udp_listener" where
  "udp_read metricProto received l =
     (if ul_closed l \<or> ul_blocked l \<noteq> None then l
      else case received of
             Inl err \<Rightarrow> l\<lparr>ul_closed := True\<rparr>
           | Inr datagram \<Rightarrow>
               (let data = take 65535 datagram;
                    l' = l\<lparr>ul_metrics := ul_metrics l @ udp_received metricProto data\<rparr>
                in case try_send udp_channel_size data (ul_data l) of
                     Some q \<Rightarrow> l'\<lparr>ul_data := q\<rparr>
                   | None \<Rightarrow> l'\<lparr>ul_blocked := Some data\<rparr>))"

text \<open>The signature verifier takes a datagram; a loop that was blocked goes on.\<close>

definition udp_take :: "udp_listener \<Rightarrow> udp_listener" where
  "udp_take l =
     (case ul_data l of
        [] \<Rightarrow> l
      | d # q \<Rightarrow>
          l\<lparr>ul_taken := ul_taken l @ [d],
            ul_data := (case ul_blocked l of None \<Rightarrow> q | Some b \<Rightarrow> q @ [b]), ul_blocked := None\<rparr>)"

datatype udp_action = UDP_Read "bytes result" | UDP_Take

fun udp_step :: "string \<Rightarrow> udp_action \<Rightarrow> udp_listener \<Rightarrow> udp_listener" where
  "udp_step metricProto (UDP_Read r) l = udp_read metricProto r l"
| "udp_step metricProto UDP_Take l = udp_take l"

text \<open>The goroutine of \<open>start\<close> in \<open>doppler/main.go\<close> for an envelope that was unmarshalled.\<close>

definition udp_envelope :: "events_pkg \<Rightarrow> v1_envelope \<Rightarrow> v1_envelope list \<times> metric_call list \<Rightarrow> v1_envelope list \<times> metric_call list" where
  "udp_envelope pkg env st =
     (fst st @ [env],
      snd st @ [Chainer_Increment (SetTag ''event_type'' (event_type_string (GetEventType pkg env))
        (SetTag ''protocol'' ''udp'' (BatchCounter ''listeners.receivedEnvelopes'')))])"

section \<open>The readers of the agent\<close>

text \<open>\<open>StartReading\<close>: what is put into the buffer until the socket fails.\<close>

fun StartReading :: "bytes result list \<Rightarrow> bytes list" where
  "StartReading [] = []"
| "StartReading (Inl err # rs) = []"
| "StartReading (Inr datagram # rs) = take 65535 datagram # StartReading rs"

record v2_receiver =
  vr_set :: "v2_envelope list"
  vr_ingress :: counter

text \<open>The two services: the error that ends the stream, if it ended, and the receiver.\<close>

fun Receiver_Sender :: "v2_envelope result list \<Rightarrow> v2_receiver \<Rightarrow> string option \<times> v2_receiver" where
  "Receiver_Sender [] r = (None, r)"
| "Receiver_Sender (Inl err # rs) r = (Some err, r)"
| "Receiver_Sender (Inr e # rs) r =
     Receiver_Sender rs (r\<lparr>vr_set := vr_set r @ [e], vr_ingress := Counter_Increment 1 (vr_ingress r)\<rparr>)"

fun Receiver_BatchSender :: "v2_envelope list result list \<Rightarrow> v2_receiver \<Rightarrow> string option \<times> v2_receiver" where
  "Receiver_BatchSender [] r = (None, r)"
| "Receiver_BatchSender (Inl err # rs) r = (Some err, r)"
| "Receiver_BatchSender (Inr batch # rs) r =
     Receiver_BatchSender rs
       (r\<lparr>vr_set := vr_set r @ batch, vr_ingress := Counter_Increment (of_nat (length batch)) (vr_ingress r)\<rparr>)"

section \<open>Definitions for the properties\<close>

text \<open>The datagrams that the loop reads in a run, and how often a metric was incremented.\<close>

fun udp_reads :: "string \<Rightarrow> udp_action list \<Rightarrow> udp_listener \<Rightarrow> bytes list" where
  "udp_reads proto [] l = []"
| "udp_reads proto (a # as) l =
     (case a of
        UDP_Read (Inr d) \<Rightarrow> (if ul_closed l \<or> ul_blocked l \<noteq> None then [] else [take 65535 d])
      | _ \<Rightarrow> []) @ udp_reads proto as (udp_step proto a l)"

definition increments :: "string \<Rightarrow> metric_call list \<Rightarrow> nat" where
  "increments name ms = length (filter (\<lambda>m. m = BatchIncrementCounter name) ms)"

definition udp_through :: "udp_listener \<Rightarrow> bytes list" where
  "udp_through l = ul_taken l @ ul_data l @ (case ul_blocked l of None \<Rightarrow> [] | Some b \<Rightarrow> [b])"

definition udp_ok :: "udp_listener \<Rightarrow> bool" where
  "udp_ok l \<longleftrightarrow> length (ul_data l) \<le> udp_channel_size \<and>
     (ul_blocked l \<noteq> None \<longrightarrow> length (ul_data l) = udp_channel_size) \<and> (ul_closed l \<longrightarrow> ul_blocked l = None) \<and>
     increments ''listeners.totalReceivedMessageCount'' (ul_metrics l) = length (udp_through l)"

section \<open>Nothing is lost behind the socket\<close>

lemma increments_append [simp]: "increments n (a @ b) = increments n a + increments n b"
  by (simp add: increments_def)

lemma increments_received:
  assumes "proto = ''udpListener''"
  shows "increments ''listeners.totalReceivedMessageCount'' (udp_received proto d) = 1"
  by (simp add: assms increments_def udp_received_def Let_def)

lemma udp_step_through:
  assumes "udp_ok l"
  shows "udp_ok (udp_step ''udpListener'' a l) \<and>
    udp_through (udp_step ''udpListener'' a l) = udp_through l @ udp_reads ''udpListener'' [a] l"
proof (cases a)
  case (UDP_Read r)
  with assms show ?thesis
    by (cases r)
       (auto simp: udp_ok_def udp_through_def udp_read_def try_send_def increments_received Let_def split: option.splits)
next
  case UDP_Take
  with assms show ?thesis
    by (cases "ul_data l") (auto simp: udp_ok_def udp_through_def udp_take_def udp_channel_size_def split: option.splits)
qed

text \<open>
  Every datagram that was read is handed on or waiting, in order, exactly once; the channel stays
  within its size, and the total of received messages is their number.
\<close>

lemma udp_in_order:
  defines "run \<equiv> \<lambda>as l. fold (udp_step ''udpListener'') as l"
  shows "udp_ok l \<Longrightarrow> udp_ok (run as l) \<and> udp_through (run as l) = udp_through l @ udp_reads ''udpListener'' as l"
proof (induction as arbitrary: l)
  case (Cons a as)
  from udp_step_through[OF Cons.prems, of a] Cons.IH[of "udp_step ''udpListener'' a l"]
  show ?case by (simp add: run_def)
qed (simp add: run_def)

lemma udp_from_start:
  "udp_through (fold (udp_step ''udpListener'') as NewUDPListener) = udp_reads ''udpListener'' as NewUDPListener \<and>
   increments ''listeners.totalReceivedMessageCount'' (ul_metrics (fold (udp_step ''udpListener'') as NewUDPListener)) =
     length (udp_reads ''udpListener'' as NewUDPListener)"
proof -
  have "udp_ok NewUDPListener" and "udp_through NewUDPListener = []"
    by (simp_all add: udp_ok_def udp_through_def NewUDPListener_def increments_def)
  with udp_in_order[of NewUDPListener as] show ?thesis by (simp add: udp_ok_def)
qed

section \<open>The v2 receiver counts what it passes on\<close>

lemma Receiver_BatchSender_counts:
  "cnt_delta (vr_ingress (snd (Receiver_BatchSender rs r))) - cnt_delta (vr_ingress r) =
     of_nat (length (vr_set (snd (Receiver_BatchSender rs r))) - length (vr_set r)) \<and>
   length (vr_set r) \<le> length (vr_set (snd (Receiver_BatchSender rs r)))"
proof (induction rs r rule: Receiver_BatchSender.induct)
  case (3 batch rs r)
  let ?r = "r\<lparr>vr_set := vr_set r @ batch, vr_ingress := Counter_Increment (of_nat (length batch)) (vr_ingress r)\<rparr>"
  let ?s = "snd (Receiver_BatchSender rs ?r)"
  from 3 have le: "length (vr_set r) + length batch \<le> length (vr_set ?s)"
    and eq: "cnt_delta (vr_ingress ?s) - (cnt_delta (vr_ingress r) + of_nat (length batch)) =
      of_nat (length (vr_set ?s) - (length (vr_set r) + length batch))"
    by (simp_all add: Counter_Increment_def)
  then have "cnt_delta (vr_ingress ?s) - cnt_delta (vr_ingress r) =
      of_nat (length (vr_set ?s) - (length (vr_set r) + length batch) + length batch)"
    by (simp add: algebra_simps)
  with le show ?case by simp
qed simp_all

text \<open>A stream of batches has the effect of the stream of their envelopes.\<close>

lemma batches_as_envelopes:
  "Receiver_BatchSender (map Inr batches) r = Receiver_Sender (map Inr (concat batches)) r"
proof (induction batches arbitrary: r)
  case (Cons b bs)
  have "Receiver_Sender (map Inr (b @ es)) r =
      Receiver_Sender (map Inr es) (r\<lparr>vr_set := vr_set r @ b, vr_ingress := Counter_Increment (of_nat (length b)) (vr_ingress r)\<rparr>)"
    for es r
    by (induction b arbitrary: r) (simp_all add: Counter_Increment_def add.commute add.left_commute)
  with Cons show ?case by simp
qed simp

end
