(* ===== verification/Spec2Isabelle.thy ===== *)
theory Spec2Isabelle
  imports
    Conversion_Round_Trip
    Truncating_Buffer
    Grouped_Sinks
    Recent_Sinks
    Syslog
    Blacklist
    Service_Store
    Sink_Manager
    Doppler_Server
    Grpc_Connector
    Consumer_Streams
    Finder
    Metron_Counters
    Metron_Batching
    Metron_Pool
    Agent_V2
    Drain_Binder
    Metric_Emitter
    Traffic_Access
    Websocket_Sessions
    Websocket_Server
    Reverse_Log_Proxy
    Configuration
    Ingress_Listeners
begin

text \<open>
  Loggregator moves logs and metrics of a Cloud Foundry platform from the machines that produce
  them to the consumers that ask for them. All paths below are relative to
  \<open>src/src/code.cloudfoundry.org/loggregator\<close>.

  \<^bold>\<open>The parts and how they interact.\<close> A \<^emph>\<open>metron\<close> agent on each machine takes envelopes from local
  emitters, totals counters, tags the envelopes and forwards them to a doppler. A \<^emph>\<open>doppler\<close> hands
  each envelope to the sinks of its application (recent logs, container metrics, syslog drains,
  websockets), to the firehoses and to gRPC subscriptions. The \<^emph>\<open>syslog drain binder\<close> elects one
  instance that copies the drains from the cloud controller into a store, which the dopplers watch.
  Dopplers announce themselves in the same store. The \<^emph>\<open>traffic controller\<close> finds them there, the
  \<^emph>\<open>reverse log proxy\<close> by a fixed list of addresses; both connect to all of them and serve
  authorised consumers, the one over HTTP and websockets, the other over gRPC. Envelopes exist in two
  formats (v1 and v2), and the converters sit between any two parts that speak different ones.

  \<^bold>\<open>The theories.\<close>

  \<^item> \<open>Go_Prelude\<close>, \<open>Go_Numbers\<close>, \<open>Sha1\<close>: what the sources use of Go: maps, channels as a
    store with panics, panicking loops, strings, machine integers, decimal and hexadecimal numbers,
    64-bit floats as the conversions need them, SHA-1; and the lemmas that all components share.
  \<^item> \<open>Envelopes\<close>, \<open>Conversion\<close>, \<open>Conversion_Round_Trip\<close>: the two formats
    (\<open>plumbing/v2/envelope.pb.go\<close>; v1 belongs to sonde-go), \<open>plumbing/conversion/tov1.go\<close> and
    \<open>tov2.go\<close>. The tag map that two envelopes share is an address into a heap. Shown: what each kind
    of event is after a conversion to v2 and back.
  \<^item> \<open>Truncating_Buffer\<close>: \<open>doppler/internal/truncatingbuffer\<close>. Shown: the buffer never blocks on its
    own announcements, and its count of dropped messages is exact without interference of a reader.
  \<^item> \<open>Grouped_Sinks\<close>: \<open>doppler/internal/groupedsinks\<close>. Locale \<open>sink_group\<close> states what the two
    kinds of group promise. Shown: no operation of the registry panics, and who gets a broadcast.
  \<^item> \<open>Recent_Sinks\<close>: the dump sink, the container metric sink and \<open>retrystrategy\<close>. Locale
    \<open>newest_cache\<close>: a cache that keeps the newest value of each key. Shown: what a query for recent
    logs or container metrics returns, and the bounds of the backoff.
  \<^item> \<open>Syslog\<close>, \<open>Blacklist\<close>: the drain writers, the sink with its reconnects, and the blacklist.
    Locale \<open>drain_writer\<close> is the contract of a writer that frames messages. Shown: a drain gets its
    messages in order, its stream splits back into them, and the blacklist is a set of intervals.
  \<^item> \<open>Service_Store\<close>: \<open>doppler/internal/store\<close>. Locale \<open>service_cache\<close>. Shown: the cache refines a map,
    and the watcher announces exactly its changes.
  \<^item> \<open>Sink_Manager\<close>: \<open>doppler/internal/sinkserver\<close>, over the grouped sinks and the store's events.
    Shown: nothing panics, the sink counters are exact, and a message reaches the recent sinks.
  \<^item> \<open>Doppler_Server\<close>: the subscription router and both ingress servers
    (\<open>doppler/internal/grpcmanager\<close>). Shown: who gets an envelope, and that nobody gets it twice.
  \<^item> \<open>Websocket_Sessions\<close>, \<open>Websocket_Server\<close>: sessions of the traffic controller
    (\<open>trafficcontroller/internal/proxy/websocket_server.go\<close>, \<open>websocket_handler.go\<close>), the keep-alive
    loops of both programs, and the websocket server of the doppler. Shown: messages arrive in order,
    a session leaves no sink behind, and which clients a keep-alive loop drops.
  \<^item> \<open>Grpc_Connector\<close>, \<open>Finder\<close>: packages \<open>plumbing\<close> and \<open>dopplerservice\<close>: announcing, finding
    and connecting to dopplers. Shown: the connector's clients follow the finder, an announced doppler
    is found, and the average of envelope sizes is exact.
  \<^item> \<open>Consumer_Streams\<close>: a consumer of the connector, from \<open>Subscribe\<close> to \<open>Recv\<close>. Shown: it is
    connected to every doppler, and their streams are merged without loss and in order.
  \<^item> \<open>Metron_Counters\<close>, \<open>Metron_Batching\<close>, \<open>Metron_Pool\<close>: the agent from a datagram to the stream of
    a doppler, in both API versions. Locale \<open>counter_store\<close>: totals by key. Shown: what a total is,
    that batches lose nothing unaccounted and get flushed, and that one writer leaks no connection.
  \<^item> \<open>Drain_Binder\<close>: \<open>syslog_drain_binder\<close>, with the election and the way of a binding to a doppler.
    Shown: one leader at a time, a vacancy is filled, and the drains reach the dopplers.
  \<^item> \<open>Agent_V2\<close>: the v2 path of the agent as \<open>metron/app/app_v2.go\<close> connects it: transponder,
    counter aggregator, pool.
  \<^item> \<open>Ingress_Listeners\<close>: the loops behind the sockets of doppler and agent.
  \<^item> \<open>Metric_Emitter\<close>: \<open>metricemitter\<close>. Shown: no increment of a counter is lost or sent twice, and
    what the agent makes of it.
  \<^item> \<open>Go_Net\<close>, \<open>Health_Gauges\<close>: host and port, query strings, base64, responses and multipart bodies
    of Go's libraries; \<open>healthendpoint/registrar.go\<close>.
  \<^item> \<open>Traffic_Access\<close>: \<open>trafficcontroller/internal/auth\<close> and the handlers of
    \<open>trafficcontroller/internal/proxy\<close>. Locale \<open>access_guard\<close> is the contract of a middleware. Shown:
    no call to a doppler without authorization, and what a query returns.
  \<^item> \<open>Reverse_Log_Proxy\<close>: \<open>rlp\<close>. Shown: a converted request asks for the same envelopes, and a
    stream accounts for all it receives.
  \<^item> \<open>Configuration\<close>: \<open>plumbing/tls.go\<close> and the configuration files of the four programs. Shown:
    what a TLS server accepts, and that accepted configurations are usable.
  \<^item> This theory: the way of an envelope from the router of a doppler through the reverse log proxy
    to a consumer.

  \<^bold>\<open>Conventions.\<close> A struct is a \<open>record\<close>, a tagged union a \<open>datatype\<close>, a method a function that
  returns the changed record. A Go error is \<open>Inl\<close>, a panic is \<open>None\<close>. A Go map is an association
  list with distinct keys whose order is the order a \<open>range\<close> loop happens to take, so that
  statements hold for every order. Random draws, the clock, the network, and packages that are not
  part of the repository (the protobuf codecs, dropsonde, the etcd adapter, gRPC, the diode buffers)
  are arguments; what the code relies on of them is a hypothesis, and each property with a
  hypothesis has a witness that instantiates it. Goroutines that share state are one machine: a
  program counter for each, a list of actions as the schedule, and statements over all schedules.

  \<^bold>\<open>Bounds and fuel.\<close> Loops over a channel or a stream are recursions over the list of the values
  that arrive, so no fuel is needed for them. Following the pages of the cloud controller can go on
  for ever: \<open>Poll_loop\<close> is a \<open>partial_function (option)\<close>, not returning is \<open>None\<close>, and
  \<open>poll_collects_pages\<close> shows that it returns on every finite chain of pages. Reading a multipart body
  takes its length as fuel, and each part consumes at least its delimiter. Unsigned counters are words
  of their width and wrap; statements about sums are either modulo the width or carry the bound under
  which they are exact. The channel and buffer sizes are those of the code.

  \<^bold>\<open>Not modelled.\<close>

  \<^item> The \<open>main\<close> functions, \<open>trafficcontroller/app/traffic_controller.go\<close>, \<open>grpc_listener.go\<close> and the
    gRPC and health servers: they read flags, open sockets, dial and start goroutines. What they
    compute on the way is modelled where it decides something (cipher suites, addresses, the writer
    chains of the agent, the UDP loop of the doppler).
  \<^item> Wire formats: protobuf and JSON codecs are generated or belong to libraries. They are arguments.
  \<^item> \<open>diodes\<close>: type casts around an external package. Where the code reads a diode, what comes out
    is an argument, and what is lost in it is not accounted for.
  \<^item> \<open>monitor\<close>, \<open>profiler\<close>: readings of the operating system.
  \<^item> \<open>src/src/tools\<close>, \<open>testservers\<close>, \<open>integration_tests\<close>, \<open>lats\<close> and the fakes: not part of the running system.
  \<^item> Time is what the code reads from the clock; there is no model of how long a step takes beyond
    the keep-alive loops, the transponder and the lease of the election.
\<close>

section \<open>From the router of a doppler to a consumer of the reverse log proxy\<close>

text \<open>The payloads that the router writes to one subscription, and those that a stream receives.\<close>

definition delivered_to :: "nat \<Rightarrow> (nat \<times> bytes) list \<Rightarrow> bytes list" where
  "delivered_to s outs = map snd (filter (\<lambda>p. fst p = s) outs)"

fun received_payloads :: "rlp_action list \<Rightarrow> bytes list" where
  "received_payloads [] = []"
| "received_payloads (RL_Receive (Inr b) # as) = b # received_payloads as"
| "received_payloads (_ # as) = received_payloads as"

definition no_errors :: "rlp_action list \<Rightarrow> bool" where
  "no_errors as \<longleftrightarrow> (\<forall>err. RL_Receive (Inl err) \<notin> set as)"

lemma delivered_to_append [simp]: "delivered_to s (xs @ ys) = delivered_to s xs @ delivered_to s ys"
  by (simp add: delivered_to_def)

lemma filter_distinct: "distinct xs \<Longrightarrow> filter (\<lambda>x. x = s) xs = (if s \<in> set xs then [s] else [])"
  by (induction xs) (auto simp: filter_empty_conv)

text \<open>The router writes an envelope once to a subscription without a shard that asks for it.\<close>

lemma delivered_once:
  assumes "well_nested acts []" and "(f, [], s) \<in> set (open_subscriptions acts [])"
    and "app \<noteq> []" and "marshal e = Some data"
  shows "\<exists>outs. Router_SendTo pkg marshal draw app e (dr_router (fold ds_step acts NewDopplerServer)) = Some outs \<and>
    delivered_to s outs = (if wants pkg f app e then [data] else [])"
proof -
  note sends = Router_SendTo_run[where marshal = marshal and e = e and draw = draw and pkg = pkg, OF assms(1,3,4)]
  let ?outs = "router_out draw (dr_router (fold ds_step acts NewDopplerServer)) (createTypedFilters pkg app e)"
  have "delivered_to s (map (\<lambda>s. (s, data)) ?outs) = (if s \<in> set ?outs then [data] else [])"
    by (simp add: delivered_to_def filter_map comp_def filter_distinct[OF sends(2)])
  with sends(1) sends(3)[OF assms(2)] show ?thesis by simp
qed

text \<open>A stream converts the payloads it receives in order, as a query does.\<close>

lemma stream_receives:
  assumes "no_errors as" and "\<forall>h. \<forall>b \<in> set (received_payloads as). \<exists>r. decode h b = Inr r" and "rl_consuming s"
  shows "rl_received (fold (rlp_step pkg decode req) as s) =
    rl_received s @ fst (Querier_loop pkg decode (eg_UsePreferredTags req) (received_payloads as) (rl_heap s))"
  using assms
proof (induction as arbitrary: s)
  case (Cons a as)
  have errs: "no_errors as" using Cons(2) by (auto simp: no_errors_def)
  show ?case
  proof (cases a)
    case (RL_Send ok)
    have "rl_consuming (Server_Receiver_turn ok s) = rl_consuming s" "rl_heap (Server_Receiver_turn ok s) = rl_heap s"
        "rl_received (Server_Receiver_turn ok s) = rl_received s"
      by (auto simp: Server_Receiver_turn_def split: list.split)
    with Cons errs RL_Send show ?thesis by simp
  next
    case (RL_Receive r)
    then obtain b where r: "r = Inr b" using Cons(2) by (cases r) (auto simp: no_errors_def)
    obtain d where "decode (rl_heap s) b = Inr d" using Cons(3)[rule_format, of b "rl_heap s"] by (auto simp: RL_Receive r)
    then obtain e h where conv: "envelopeConverter_Convert pkg decode (rl_heap s) b (eg_UsePreferredTags req) = Inr (e, h)"
      by (cases "ToV2 pkg (fst d) (eg_UsePreferredTags req) (snd d)") (simp add: envelopeConverter_Convert_def case_prod_unfold)
    let ?s = "consumeReceiver_turn pkg decode req (Inr b) s"
    have "rl_consuming ?s" "rl_heap ?s = h" "rl_received ?s = rl_received s @ [e]"
      using Cons(4) conv by (auto simp: consumeReceiver_turn_def Receiver_rx_def Let_def split: option.split)
    with Cons(1)[OF errs, of ?s] Cons(3) show ?thesis by (simp add: RL_Receive r conv split: prod.split)
  qed
qed simp

lemma Querier_loop_length: "length (fst (Querier_loop pkg decode pref bs h)) \<le> length bs"
  by (induction bs arbitrary: h) (auto split: sum.split prod.split intro: le_SucI, metis fst_conv)



end
